(* ===== verification/Prelude.thy ===== *)
theory Prelude
  imports Main "HOL-Library.Word"
begin

text \<open>
  The vocabulary every component shares: machine integers, the three ways a Rust call can
  end, programs that thread a state, and the proof rules for them.
\<close>

named_theorems prog_simps \<open>equations that run a program on a state\<close>
named_theorems prog_inv \<open>what a program that ended in a given way must have done\<close>
named_theorems panic_free \<open>which programs never panic\<close>
named_theorems preserved \<open>which programs keep a predicate of the state\<close>

type_synonym u16 = "16 word"
type_synonym u32 = "32 word"
type_synonym u64 = "64 word"

section \<open>Outcomes and programs\<close>

text \<open>
  A Rust call returns \<open>Ok\<close>, returns \<open>Err\<close>, or panics. A panic is no value of
  \<open>Result\<close>: it passes every \<open>match\<close> and \<open>?\<close> on its way and, at the
  \<open>extern "C"\<close> boundary of the two modules, aborts the process.
\<close>

datatype ('a, 'e) outcome = Ok 'a | Err 'e | Panic

text \<open>A program takes a state and leaves an outcome and a state.\<close>

type_synonym ('s, 'a, 'e) prog = "'s \<Rightarrow> ('a, 'e) outcome \<times> 's"

definition ret :: "'a \<Rightarrow> ('s, 'a, 'e) prog" where
  "ret a s = (Ok a, s)"

definition fail :: "'e \<Rightarrow> ('s, 'a, 'e) prog" where
  "fail e s = (Err e, s)"

text \<open>\<open>match m { Ok(a) => ok, Err(e) => err }\<close>.\<close>

definition matchp ::
  "('s, 'a, 'e) prog \<Rightarrow> ('a \<Rightarrow> ('s, 'b, 'f) prog) \<Rightarrow> ('e \<Rightarrow> ('s, 'b, 'f) prog) \<Rightarrow> ('s, 'b, 'f) prog"
where
  "matchp m ok err s =
     (case m s of
        (Ok a, s') \<Rightarrow> ok a s'
      | (Err e, s') \<Rightarrow> err e s'
      | (Panic, s') \<Rightarrow> (Panic, s'))"

text \<open>\<open>let a = m?; f a\<close>, without and with the conversion of the error.\<close>

definition bindp :: "('s, 'a, 'e) prog \<Rightarrow> ('a \<Rightarrow> ('s, 'b, 'e) prog) \<Rightarrow> ('s, 'b, 'e) prog" where
  "bindp m f = matchp m f fail"

definition tryp ::
  "('e \<Rightarrow> 'f) \<Rightarrow> ('s, 'a, 'e) prog \<Rightarrow> ('a \<Rightarrow> ('s, 'b, 'f) prog) \<Rightarrow> ('s, 'b, 'f) prog" where
  "tryp conv m f = matchp m f (\<lambda>e. fail (conv e))"

text \<open>A program on a part of the state, run on the whole.\<close>

definition zoomp :: "('s \<Rightarrow> 't) \<Rightarrow> ('t \<Rightarrow> 's \<Rightarrow> 's) \<Rightarrow> ('t, 'a, 'e) prog \<Rightarrow> ('s, 'a, 'e) prog" where
  "zoomp get put m s = (case m (get s) of (r, t) \<Rightarrow> (r, put t s))"

text \<open>A program on a value of its own (not part of the state), which it hands back.\<close>

definition localp :: "'t \<Rightarrow> ('t, 'a, 'e) prog \<Rightarrow> ('s, 'a \<times> 't, 'e) prog" where
  "localp t m s =
     (case m t of
        (Ok a, t') \<Rightarrow> (Ok (a, t'), s)
      | (Err e, t') \<Rightarrow> (Err e, s)
      | (Panic, t') \<Rightarrow> (Panic, s))"

text \<open>A \<open>for\<close> loop whose body may fail: for its effect, or pushing each result.\<close>

primrec eachp :: "('x \<Rightarrow> ('s, unit, 'e) prog) \<Rightarrow> 'x list \<Rightarrow> ('s, unit, 'e) prog" where
  "eachp f [] = ret ()"
| "eachp f (x # xs) = bindp (f x) (\<lambda>_. eachp f xs)"

primrec collectp :: "('x \<Rightarrow> ('s, 'y, 'e) prog) \<Rightarrow> 'x list \<Rightarrow> ('s, 'y list, 'e) prog" where
  "collectp f [] = ret []"
| "collectp f (x # xs) = bindp (f x) (\<lambda>y. bindp (collectp f xs) (\<lambda>ys. ret (y # ys)))"

text \<open>A predicate of the state that a program keeps, however it ends.\<close>

definition keeps :: "('s \<Rightarrow> bool) \<Rightarrow> ('s, 'a, 'e) prog \<Rightarrow> bool" where
  "keeps P m \<longleftrightarrow> (\<forall>s. P s \<longrightarrow> P (snd (m s)))"

section \<open>Strings\<close>

text \<open>A \<open>string\<close> is the bytes of a Rust \<open>String\<close> (UTF-8), so \<open>length\<close> is \<open>len()\<close>.\<close>

fun dec_str :: "nat \<Rightarrow> string" where
  "dec_str n =
     (if n < 10 then [char_of (48 + n)] else dec_str (n div 10) @ [char_of (48 + n mod 10)])"

declare dec_str.simps [simp del]

definition NUL :: char where "NUL = char_of (0 :: nat)"

definition trim_end_char :: "char \<Rightarrow> string \<Rightarrow> string" where
  "trim_end_char c s = rev (dropWhile (\<lambda>x. x = c) (rev s))"

definition starts_with :: "string \<Rightarrow> string \<Rightarrow> bool" where
  "starts_with p s \<longleftrightarrow> take (length p) s = p"

text \<open>\<open>s.replace(pat, by)\<close> for a non-empty pattern: leftmost matches, no overlap.\<close>

function replace_str :: "string \<Rightarrow> string \<Rightarrow> string \<Rightarrow> string" where
  "replace_str pat by_s s =
     (if pat \<noteq> [] \<and> s \<noteq> [] then
        (if starts_with pat s
         then by_s @ replace_str pat by_s (drop (length pat) s)
         else hd s # replace_str pat by_s (tl s))
      else s)"
  by pat_completeness auto
termination
  by (relation "measure (\<lambda>(p, b, s). length s)") auto

declare replace_str.simps [simp del]

section \<open>Running programs\<close>

lemma ret_run [prog_simps]: "ret a s = (Ok a, s)"
  by (simp add: ret_def)

lemma fail_run [prog_simps]: "fail e s = (Err e, s)"
  by (simp add: fail_def)

lemma matchp_run [prog_simps]:
  "m s = (Ok a, s') \<Longrightarrow> matchp m ok err s = ok a s'"
  "m s = (Err e, s') \<Longrightarrow> matchp m ok err s = err e s'"
  "m s = (Panic, s') \<Longrightarrow> matchp m ok err s = (Panic, s')"
  by (simp_all add: matchp_def)

lemma bindp_run [prog_simps]:
  "m s = (Ok a, s') \<Longrightarrow> bindp m f s = f a s'"
  "m s = (Err e, s') \<Longrightarrow> bindp m f s = (Err e, s')"
  "m s = (Panic, s') \<Longrightarrow> bindp m f s = (Panic, s')"
  by (simp_all add: bindp_def matchp_def fail_def)

lemma tryp_run [prog_simps]:
  "m s = (Ok a, s') \<Longrightarrow> tryp cv m f s = f a s'"
  "m s = (Err e, s') \<Longrightarrow> tryp cv m f s = (Err (cv e), s')"
  "m s = (Panic, s') \<Longrightarrow> tryp cv m f s = (Panic, s')"
  by (simp_all add: tryp_def matchp_def fail_def)

lemma zoomp_run [prog_simps]: "m (get s) = (r, t) \<Longrightarrow> zoomp get put m s = (r, put t s)"
  by (simp add: zoomp_def)

section \<open>Inverting programs\<close>

lemma ret_Ok [prog_inv]: "ret a s = (r, s') \<longleftrightarrow> r = Ok a \<and> s' = s"
  by (auto simp: ret_def)

lemma fail_Ok [prog_inv]: "fail e s = (r, s') \<longleftrightarrow> r = Err e \<and> s' = s"
  by (auto simp: fail_def)

lemma matchp_eq [prog_inv]:
  "matchp m ok err s = (r, s') \<longleftrightarrow>
     (\<exists>a t. m s = (Ok a, t) \<and> ok a t = (r, s')) \<or>
     (\<exists>e t. m s = (Err e, t) \<and> err e t = (r, s')) \<or>
     (m s = (Panic, s') \<and> r = Panic)"
  by (cases "m s"; cases "fst (m s)") (auto simp: matchp_def)

lemma bindp_eq [prog_inv]:
  "bindp m f s = (r, s') \<longleftrightarrow>
     (\<exists>a t. m s = (Ok a, t) \<and> f a t = (r, s')) \<or>
     (\<exists>e. m s = (Err e, s') \<and> r = Err e) \<or>
     (m s = (Panic, s') \<and> r = Panic)"
  by (auto simp: bindp_def matchp_eq fail_def)

lemma tryp_eq [prog_inv]:
  "tryp cv m f s = (r, s') \<longleftrightarrow>
     (\<exists>a t. m s = (Ok a, t) \<and> f a t = (r, s')) \<or>
     (\<exists>e. m s = (Err e, s') \<and> r = Err (cv e)) \<or>
     (m s = (Panic, s') \<and> r = Panic)"
  by (auto simp: tryp_def matchp_eq fail_def)

lemma zoomp_eq [prog_inv]:
  "zoomp get put m s = (r, s') \<longleftrightarrow> (\<exists>t. m (get s) = (r, t) \<and> s' = put t s)"
  by (cases "m (get s)") (auto simp: zoomp_def)

lemma localp_eq [prog_inv]:
  "localp t m s = (r, s') \<longleftrightarrow>
     s' = s \<and> (\<exists>r' t'. m t = (r', t') \<and>
       (case r' of Ok a \<Rightarrow> r = Ok (a, t') | Err e \<Rightarrow> r = Err e | Panic \<Rightarrow> r = Panic))"
  by (cases "m t") (auto simp: localp_def split: outcome.splits)

lemma localp_Ok [prog_inv]:
  "localp t m s = (Ok (a, t'), s') \<longleftrightarrow> s' = s \<and> m t = (Ok a, t')"
  by (cases "m t") (auto simp: localp_def split: outcome.splits)

text \<open>For concrete runs: the outcome evaluates to an \<open>Ok\<close>.\<close>

lemma runs_Ok: "(case fst p of Ok v \<Rightarrow> True | _ \<Rightarrow> False) \<Longrightarrow> \<exists>v s'. p = (Ok v, s')"
  by (cases p; cases "fst p") auto

lemma case_run_Ok:
  "(case p of (Ok v, s) \<Rightarrow> P v s | _ \<Rightarrow> False) \<longleftrightarrow> (\<exists>v s. p = (Ok v, s) \<and> P v s)"
  by (cases p; cases "fst p") auto

section \<open>Predicates a program keeps\<close>

lemma keepsI: "(\<And>s. P s \<Longrightarrow> P (snd (m s))) \<Longrightarrow> keeps P m"
  by (simp add: keeps_def)

lemma keepsD: "keeps P m \<Longrightarrow> P s \<Longrightarrow> m s = (r, s') \<Longrightarrow> P s'"
  by (metis keeps_def snd_conv)

lemma keeps_ret [preserved]: "keeps P (ret a)"
  by (simp add: keeps_def ret_def)

lemma keeps_fail [preserved]: "keeps P (fail e)"
  by (simp add: keeps_def fail_def)

lemma keeps_matchp [preserved]:
  assumes "keeps P m" "\<And>a. keeps P (ok a)" "\<And>e. keeps P (err e)"
  shows "keeps P (matchp m ok err)"
proof (rule keepsI)
  fix s assume P: "P s"
  obtain r t where m: "m s = (r, t)" by (cases "m s")
  then have "P t" using keepsD [OF assms(1) P] by simp
  then show "P (snd (matchp m ok err s))"
    using m assms(2,3) by (cases r) (auto simp: matchp_def keeps_def)
qed

lemma keeps_bindp [preserved]: "keeps P m \<Longrightarrow> (\<And>a. keeps P (f a)) \<Longrightarrow> keeps P (bindp m f)"
  by (simp add: bindp_def keeps_matchp keeps_fail)

lemma keeps_tryp [preserved]: "keeps P m \<Longrightarrow> (\<And>a. keeps P (f a)) \<Longrightarrow> keeps P (tryp cv m f)"
  by (simp add: tryp_def keeps_matchp keeps_fail)

lemma keeps_eachp [preserved]: "(\<And>x. x \<in> set xs \<Longrightarrow> keeps P (f x)) \<Longrightarrow> keeps P (eachp f xs)"
  by (induction xs) (simp_all add: keeps_ret keeps_bindp)

lemma keeps_collectp [preserved]:
  "(\<And>x. x \<in> set xs \<Longrightarrow> keeps P (f x)) \<Longrightarrow> keeps P (collectp f xs)"
  by (induction xs) (simp_all add: keeps_ret keeps_bindp)

lemma keeps_zoomp [preserved]:
  assumes "keeps Q m" "\<And>s. P s \<Longrightarrow> Q (get s)" "\<And>s t. P s \<Longrightarrow> Q t \<Longrightarrow> P (put t s)"
  shows "keeps P (zoomp get put m)"
proof (rule keepsI)
  fix s assume "P s"
  moreover obtain r t where "m (get s) = (r, t)" by (cases "m (get s)")
  moreover from this have "Q t" using keepsD [OF assms(1)] assms(2) \<open>P s\<close> by blast
  ultimately show "P (snd (zoomp get put m s))" using assms(3) by (simp add: zoomp_def)
qed

lemma keeps_if [preserved]: "(b \<Longrightarrow> keeps P m) \<Longrightarrow> (\<not> b \<Longrightarrow> keeps P n) \<Longrightarrow> keeps P (if b then m else n)"
  by simp

lemma keeps_prod [preserved]: "(\<And>a b. keeps P (f a b)) \<Longrightarrow> keeps P (case p of (a, b) \<Rightarrow> f a b)"
  by (cases p) simp

lemma keeps_option [preserved]:
  "(x = None \<Longrightarrow> keeps P m) \<Longrightarrow> (\<And>a. x = Some a \<Longrightarrow> keeps P (f a)) \<Longrightarrow>
   keeps P (case x of None \<Rightarrow> m | Some a \<Rightarrow> f a)"
  by (cases x) simp_all

section \<open>Programs that never panic\<close>

definition no_panic :: "('s, 'a, 'e) prog \<Rightarrow> bool" where
  "no_panic m \<longleftrightarrow> (\<forall>s. fst (m s) \<noteq> Panic)"

lemma no_panicD: "no_panic m \<Longrightarrow> m s = (r, s') \<Longrightarrow> r \<noteq> Panic"
  by (metis no_panic_def fst_conv)

lemma no_panic_ret [panic_free]: "no_panic (ret a)" "no_panic (fail e)"
  by (simp_all add: no_panic_def ret_def fail_def)

lemma no_panic_matchp [panic_free]:
  assumes "no_panic m" "\<And>a. no_panic (ok a)" "\<And>e. no_panic (err e)"
  shows "no_panic (matchp m ok err)"
  unfolding no_panic_def
proof
  fix s
  obtain r t where m: "m s = (r, t)" by (cases "m s")
  then show "fst (matchp m ok err s) \<noteq> Panic"
    using assms no_panicD [OF assms(1) m] by (cases r) (auto simp: matchp_def no_panic_def)
qed

lemma no_panic_bindp [panic_free]: "no_panic m \<Longrightarrow> (\<And>a. no_panic (f a)) \<Longrightarrow> no_panic (bindp m f)"
  by (simp add: bindp_def no_panic_matchp no_panic_ret)

lemma no_panic_tryp [panic_free]: "no_panic m \<Longrightarrow> (\<And>a. no_panic (f a)) \<Longrightarrow> no_panic (tryp cv m f)"
  by (simp add: tryp_def no_panic_matchp no_panic_ret)

lemma no_panic_zoomp [panic_free]: "no_panic m \<Longrightarrow> no_panic (zoomp get put m)"
  by (simp add: no_panic_def zoomp_def split: prod.split) (metis fst_conv)

lemma no_panic_eachp [panic_free]: "(\<And>x. no_panic (f x)) \<Longrightarrow> no_panic (eachp f xs)"
  by (induction xs) (simp_all add: panic_free)

lemma no_panic_collectp [panic_free]: "(\<And>x. no_panic (f x)) \<Longrightarrow> no_panic (collectp f xs)"
  by (induction xs) (simp_all add: panic_free)

lemma no_panic_if [panic_free]: "no_panic m \<Longrightarrow> no_panic n \<Longrightarrow> no_panic (if b then m else n)"
  by simp

lemma no_panic_option [panic_free]:
  "no_panic m \<Longrightarrow> (\<And>a. no_panic (f a)) \<Longrightarrow> no_panic (case x of None \<Rightarrow> m | Some a \<Rightarrow> f a)"
  by (cases x) simp_all

lemma no_panic_prod [panic_free]: "(\<And>a b. no_panic (f a b)) \<Longrightarrow> no_panic (case p of (a, b) \<Rightarrow> f a b)"
  by (cases p) simp

lemma collectp_length: "collectp f xs s = (Ok ys, s') \<Longrightarrow> length ys = length xs"
  by (induction xs arbitrary: s ys) (auto simp: prog_inv)

section \<open>Words\<close>

lemma u32_less_iff: "x < y \<longleftrightarrow> unat x < unat y" for x y :: u32
  by (rule word_less_nat_alt)

lemma unat_u32_less: "unat (x :: u32) < 4294967296"
  using unsigned_less [of x] by simp

lemma unat_add_no_wrap: "unat x + unat y < 4294967296 \<Longrightarrow> unat (x + y) = unat x + unat y" for x y :: u32
  by (simp add: unat_word_ariths)

lemma unat_of_nat_u32: "n < 4294967296 \<Longrightarrow> unat (word_of_nat n :: u32) = n"
  by (simp add: unat_of_nat)

end
