(* ===== verification/Model.thy ===== *)
theory Model
  imports Prelude
begin

text \<open>
  \<open>src/model.rs\<close>: the resolved POSIX user and group that the service hands to the two
  modules. The field names carry a prefix, because the two structs share theirs.
\<close>

record user =
  u_external_id :: string
  u_name :: string
  u_uid :: u32
  u_gid :: u32
  u_gecos :: string
  u_home :: string
  u_shell :: string
  u_active :: bool

definition default_active :: bool where
  "default_active = True"

record group =
  g_external_id :: string
  g_name :: string
  g_gid :: u32
  g_members :: "string list"

end
