(* ===== verification/Sql_Store.thy ===== *)
theory Sql_Store
  imports Model
begin

text \<open>
  The database behind \<open>src/cache.rs\<close>: the three tables of its schema (the column types and
  constraints are those of \<open>CREATE TABLE\<close>), and the meaning of the SQL statements the file
  sends. What SQLite leaves open, or what depends on the machine, is the parameter
  \<open>engine\<close>: which statements fail, the clock each statement reads, the order in which a
  \<open>SELECT\<close> without \<open>ORDER BY\<close> delivers its rows (as a rank; every order of distinct rows
  is the order of some rank), and whether foreign keys are enforced.
\<close>

datatype sql_error = ConstraintViolation | ToSqlConversion | EngineFailure nat

record uid_row =
  ur_external_id :: string
  ur_login :: string
  ur_uid :: u32
  ur_gecos :: string
  ur_home :: string
  ur_shell :: string
  ur_gid :: u32
  ur_active :: bool
  ur_cached_at :: int

record gid_row =
  gr_external_id :: string
  gr_name :: string
  gr_gid :: u32
  gr_cached_at :: int

record member_row =
  mr_group_external_id :: string
  mr_member_name :: string

record engine =
  eng_fault :: "nat \<Rightarrow> sql_error option"
  eng_now :: "nat \<Rightarrow> int"
  eng_user_rank :: "nat \<Rightarrow> uid_row \<Rightarrow> nat"
  eng_group_rank :: "nat \<Rightarrow> gid_row \<Rightarrow> nat"
  eng_member_rank :: "nat \<Rightarrow> member_row \<Rightarrow> nat"
  eng_name_rank :: "nat \<Rightarrow> string \<Rightarrow> nat"
  eng_foreign_keys :: bool

text \<open>
  The cache: the tables the connection reaches, the names of their indexes, the number of
  statements it has run, and the \<open>ttl_seconds\<close> of \<open>struct Cache\<close>.
\<close>

record cache =
  uid_cache :: "uid_row list"
  gid_cache :: "gid_row list"
  group_members :: "member_row list"
  index_names :: "string list"
  statements_run :: nat
  cache_ttl :: u64

section \<open>Statements\<close>

text \<open>One statement: it fails as a whole, with no effect on the tables, or it runs.\<close>

definition sql_statement ::
  "engine \<Rightarrow> (nat \<Rightarrow> (cache, 'a, sql_error) prog) \<Rightarrow> (cache, 'a, sql_error) prog" where
  "sql_statement E body c =
     (let n = statements_run c; c' = c\<lparr>statements_run := Suc n\<rparr>
      in case eng_fault E n of Some e \<Rightarrow> (Err e, c') | None \<Rightarrow> body n c')"

text \<open>
  rusqlite binds a \<open>u64\<close> as SQLite's 64-bit signed integer and refuses one that does not fit.
\<close>

definition u64_to_sql :: "u64 \<Rightarrow> (int, sql_error) outcome" where
  "u64_to_sql n = (if uint n < 9223372036854775808 then Ok (uint n) else Err ToSqlConversion)"

lemma u64_to_sql_unat:
  "u64_to_sql n = (if unat n < 9223372036854775808 then Ok (int (unat n)) else Err ToSqlConversion)"
proof -
  have "uint n = int (unat n)" by simp
  moreover have "int (unat n) < 9223372036854775808 \<longleftrightarrow> unat n < 9223372036854775808" by linarith
  ultimately show ?thesis by (simp only: u64_to_sql_def)
qed

definition sql_select ::
  "engine \<Rightarrow> (nat \<Rightarrow> cache \<Rightarrow> 'r list) \<Rightarrow> (cache, 'r list, sql_error) prog" where
  "sql_select E query = sql_statement E (\<lambda>n c. (Ok (query n c), c))"

text \<open>A \<open>SELECT\<close> with \<open>cached_at > strftime('%s', 'now') - ttl\<close>: the query gets the bound.\<close>

definition sql_select_fresh ::
  "engine \<Rightarrow> (nat \<Rightarrow> int \<Rightarrow> cache \<Rightarrow> 'r list) \<Rightarrow> (cache, 'r list, sql_error) prog" where
  "sql_select_fresh E query =
     sql_statement E (\<lambda>n c.
       case u64_to_sql (cache_ttl c) of
         Ok ttl \<Rightarrow> (Ok (query n (eng_now E n - ttl) c), c)
       | Err e \<Rightarrow> (Err e, c)
       | Panic \<Rightarrow> (Panic, c))"

definition sql_update :: "engine \<Rightarrow> (nat \<Rightarrow> cache \<Rightarrow> cache) \<Rightarrow> (cache, unit, sql_error) prog" where
  "sql_update E f = sql_statement E (\<lambda>n c. (Ok (), f n c))"

text \<open>A \<open>DELETE\<close> with \<open>cached_at <= strftime('%s', 'now') - ttl\<close>.\<close>

definition sql_purge ::
  "engine \<Rightarrow> u64 \<Rightarrow> (int \<Rightarrow> cache \<Rightarrow> cache) \<Rightarrow> (cache, unit, sql_error) prog" where
  "sql_purge E ttl f =
     sql_statement E (\<lambda>n c.
       case u64_to_sql ttl of
         Ok t \<Rightarrow> (Ok (), f (eng_now E n - t) c)
       | Err e \<Rightarrow> (Err e, c)
       | Panic \<Rightarrow> (Panic, c))"

section \<open>What the statements do to the tables\<close>

text \<open>
  \<open>INSERT OR REPLACE\<close> deletes every row that clashes on the primary key or on the unique
  column, then inserts. The foreign key of \<open>group_members\<close> is \<open>ON DELETE CASCADE\<close>.
\<close>

definition insert_uid_row :: "uid_row \<Rightarrow> cache \<Rightarrow> cache" where
  "insert_uid_row r c =
     c\<lparr>uid_cache :=
        filter (\<lambda>x. ur_external_id x \<noteq> ur_external_id r \<and> ur_uid x \<noteq> ur_uid r) (uid_cache c) @ [r]\<rparr>"

definition delete_gid_rows :: "engine \<Rightarrow> (gid_row \<Rightarrow> bool) \<Rightarrow> cache \<Rightarrow> cache" where
  "delete_gid_rows E gone c =
     c\<lparr>gid_cache := filter (\<lambda>x. \<not> gone x) (gid_cache c),
       group_members :=
         (if eng_foreign_keys E
          then filter (\<lambda>m. \<forall>x \<in> set (gid_cache c).
                 gone x \<longrightarrow> mr_group_external_id m \<noteq> gr_external_id x) (group_members c)
          else group_members c)\<rparr>"

definition insert_gid_row :: "engine \<Rightarrow> gid_row \<Rightarrow> cache \<Rightarrow> cache" where
  "insert_gid_row E r c =
     (let c' = delete_gid_rows E
                 (\<lambda>x. gr_external_id x = gr_external_id r \<or> gr_gid x = gr_gid r) c
      in c'\<lparr>gid_cache := gid_cache c' @ [r]\<rparr>)"

text \<open>A plain \<open>INSERT\<close> fails on a clash, and on a missing parent if foreign keys are on.\<close>

definition insert_member_row :: "engine \<Rightarrow> member_row \<Rightarrow> (cache, unit, sql_error) prog" where
  "insert_member_row E m c =
     (if m \<in> set (group_members c) \<or>
         (eng_foreign_keys E \<and>
          mr_group_external_id m \<notin> gr_external_id ` set (gid_cache c))
      then (Err ConstraintViolation, c)
      else (Ok (), c\<lparr>group_members := group_members c @ [m]\<rparr>))"

definition delete_members_of :: "string \<Rightarrow> cache \<Rightarrow> cache" where
  "delete_members_of gid c =
     c\<lparr>group_members := filter (\<lambda>m. mr_group_external_id m \<noteq> gid) (group_members c)\<rparr>"

text \<open>The three statements of \<open>purge_expired\<close>, given the bound on \<open>cached_at\<close>.\<close>

definition delete_expired_members :: "int \<Rightarrow> cache \<Rightarrow> cache" where
  "delete_expired_members bound c =
     c\<lparr>group_members :=
        filter (\<lambda>m. mr_group_external_id m \<notin>
            gr_external_id ` set (filter (\<lambda>g. gr_cached_at g \<le> bound) (gid_cache c)))
          (group_members c)\<rparr>"

definition delete_expired_groups :: "engine \<Rightarrow> int \<Rightarrow> cache \<Rightarrow> cache" where
  "delete_expired_groups E bound = delete_gid_rows E (\<lambda>g. gr_cached_at g \<le> bound)"

definition delete_expired_users :: "int \<Rightarrow> cache \<Rightarrow> cache" where
  "delete_expired_users bound c =
     c\<lparr>uid_cache := filter (\<lambda>u. \<not> ur_cached_at u \<le> bound) (uid_cache c)\<rparr>"

text \<open>\<open>CREATE INDEX IF NOT EXISTS\<close>, as far as \<open>sqlite_master\<close> tells.\<close>

definition create_index :: "string \<Rightarrow> cache \<Rightarrow> cache" where
  "create_index name c =
     (if name \<in> set (index_names c) then c else c\<lparr>index_names := index_names c @ [name]\<rparr>)"

text \<open>\<open>name LIKE 'idx_%'\<close>: letters match in either case, \<open>_\<close> matches any character.\<close>

fun like_idx :: "string \<Rightarrow> bool" where
  "like_idx (a # b # c # _ # _) \<longleftrightarrow> a \<in> set ''iI'' \<and> b \<in> set ''dD'' \<and> c \<in> set ''xX''"
| "like_idx _ \<longleftrightarrow> False"

section \<open>The constraints of the schema\<close>

definition users_ok :: "cache \<Rightarrow> bool" where
  "users_ok c \<longleftrightarrow>
     distinct (map ur_external_id (uid_cache c)) \<and> distinct (map ur_uid (uid_cache c))"

definition groups_ok :: "cache \<Rightarrow> bool" where
  "groups_ok c \<longleftrightarrow>
     distinct (map gr_external_id (gid_cache c)) \<and> distinct (map gr_gid (gid_cache c)) \<and>
     distinct (group_members c)"

definition members_ok :: "engine \<Rightarrow> cache \<Rightarrow> bool" where
  "members_ok E c \<longleftrightarrow>
     (eng_foreign_keys E \<longrightarrow>
        (\<forall>m \<in> set (group_members c). mr_group_external_id m \<in> gr_external_id ` set (gid_cache c)))"

definition schema_ok :: "engine \<Rightarrow> cache \<Rightarrow> bool" where
  "schema_ok E c \<longleftrightarrow> users_ok c \<and> groups_ok c \<and> members_ok E c"

lemmas schema_defs = schema_ok_def users_ok_def groups_ok_def members_ok_def

lemmas table_defs = insert_uid_row_def insert_gid_row_def delete_gid_rows_def
  delete_members_of_def delete_expired_members_def delete_expired_groups_def
  delete_expired_users_def

text \<open>The count of statements and the indexes are no part of any constraint.\<close>

lemma schema_ok_counter [simp]:
  "schema_ok E (c\<lparr>statements_run := n\<rparr>) = schema_ok E c"
  by (simp add: schema_defs)

lemma create_index_frame [simp]:
  "uid_cache (create_index i c) = uid_cache c" "gid_cache (create_index i c) = gid_cache c"
  "group_members (create_index i c) = group_members c" "cache_ttl (create_index i c) = cache_ttl c"
  "statements_run (create_index i c) = statements_run c"
  "set (index_names (create_index i c)) = insert i (set (index_names c))"
  by (auto simp: create_index_def)

lemma distinct_map_filter: "distinct (map f xs) \<Longrightarrow> distinct (map f (filter P xs))"
  by (induction xs) auto

lemma schema_insert_uid: "schema_ok E c \<Longrightarrow> schema_ok E (insert_uid_row r c)"
  by (auto simp: schema_defs insert_uid_row_def distinct_map_filter)

lemma schema_delete_gid: "schema_ok E c \<Longrightarrow> schema_ok E (delete_gid_rows E P c)"
  by (force simp: schema_defs delete_gid_rows_def distinct_map_filter)

lemma schema_insert_gid: "schema_ok E c \<Longrightarrow> schema_ok E (insert_gid_row E r c)"
  using schema_delete_gid [of E c "\<lambda>x. gr_external_id x = gr_external_id r \<or> gr_gid x = gr_gid r"]
  by (auto simp: schema_defs insert_gid_row_def Let_def delete_gid_rows_def)

lemma schema_insert_member: "keeps (schema_ok E) (insert_member_row E m)"
  by (auto simp: keeps_def schema_defs insert_member_row_def)

lemma schema_delete_members: "schema_ok E c \<Longrightarrow> schema_ok E (delete_members_of g c)"
  by (auto simp: schema_defs delete_members_of_def)

lemma schema_purge:
  "schema_ok E c \<Longrightarrow> schema_ok E (delete_expired_members b c)"
  "schema_ok E c \<Longrightarrow> schema_ok E (delete_expired_groups E b c)"
  "schema_ok E c \<Longrightarrow> schema_ok E (delete_expired_users b c)"
  by (auto simp: schema_defs delete_expired_members_def delete_expired_users_def
      distinct_map_filter) (simp_all add: delete_expired_groups_def schema_delete_gid [unfolded schema_defs])

lemma keeps_statement [preserved]:
  assumes "\<And>n. keeps P (body n)" "\<And>c n. P c \<Longrightarrow> P (c\<lparr>statements_run := n\<rparr>)"
  shows "keeps P (sql_statement E body)"
  using assms by (auto simp: keeps_def sql_statement_def Let_def split: option.splits)

lemma keeps_select [preserved]:
  "(\<And>c n. P c \<Longrightarrow> P (c\<lparr>statements_run := n\<rparr>)) \<Longrightarrow> keeps P (sql_select E q)"
  unfolding sql_select_def by (rule keeps_statement) (simp_all add: keeps_def)

lemma keeps_select_fresh [preserved]:
  "(\<And>c n. P c \<Longrightarrow> P (c\<lparr>statements_run := n\<rparr>)) \<Longrightarrow> keeps P (sql_select_fresh E q)"
  unfolding sql_select_fresh_def
  by (rule keeps_statement) (simp_all add: keeps_def split: outcome.split)

lemma keeps_update [preserved]:
  "(\<And>c n. P c \<Longrightarrow> P (f n c)) \<Longrightarrow> (\<And>c n. P c \<Longrightarrow> P (c\<lparr>statements_run := n\<rparr>)) \<Longrightarrow>
   keeps P (sql_update E f)"
  unfolding sql_update_def by (rule keeps_statement) (simp_all add: keeps_def)

lemma keeps_purge [preserved]:
  "(\<And>c b. P c \<Longrightarrow> P (f b c)) \<Longrightarrow> (\<And>c n. P c \<Longrightarrow> P (c\<lparr>statements_run := n\<rparr>)) \<Longrightarrow>
   keeps P (sql_purge E ttl f)"
  unfolding sql_purge_def
  by (rule keeps_statement) (simp_all add: keeps_def split: outcome.split)

section \<open>No statement panics\<close>

lemma no_panic_statement [panic_free]:
  "(\<And>n. no_panic (body n)) \<Longrightarrow> no_panic (sql_statement E body)"
  by (simp add: no_panic_def sql_statement_def Let_def split: option.split)

lemma no_panic_sql [panic_free]:
  "no_panic (sql_select E q)" "no_panic (sql_select_fresh E q')" "no_panic (sql_update E f)"
  "no_panic (sql_purge E ttl g)" "no_panic (insert_member_row E m)"
  unfolding sql_select_def sql_select_fresh_def sql_update_def sql_purge_def
  by (simp_all add: no_panic_statement no_panic_def sql_statement_def Let_def u64_to_sql_def
      insert_member_row_def split: option.split)

end
