(* ===== verification/Id_Mapping.thy ===== *)
theory Id_Mapping
  imports Prelude
begin

text \<open>
  \<open>src/mapping.rs\<close>: the hash of an external identifier into a configured range, and the
  linear probe that avoids occupied slots. The murmur3 crate is the parameter \<open>hash\<close>.
  Integer arithmetic is that of the release build the README asks for
  (\<open>cargo build --release\<close>): addition wraps, a remainder by zero panics.
\<close>

definition id_to_uid :: "(string \<Rightarrow> u32) \<Rightarrow> string \<Rightarrow> u32 \<Rightarrow> u32 \<Rightarrow> (u32, 'e) outcome" where
  "id_to_uid hash external_id range_min range_size =
     (if range_size = 0 then Panic
      else Ok (range_min + hash external_id mod range_size))"

text \<open>The id the loop of \<open>resolve_id\<close> tries at an offset.\<close>

definition candidate :: "u32 \<Rightarrow> u32 \<Rightarrow> u32 \<Rightarrow> nat \<Rightarrow> u32" where
  "candidate range_min range_size base offset =
     range_min + (base - range_min + word_of_nat offset) mod range_size"

text \<open>The loop \<open>for offset in 0..range_size\<close> of \<open>resolve_id\<close>, from a given offset on.\<close>

function probe ::
  "u32 \<Rightarrow> u32 \<Rightarrow> u32 \<Rightarrow> 'e \<Rightarrow> (u32 \<Rightarrow> ('s, bool option, 'e) prog) \<Rightarrow> nat \<Rightarrow> ('s, u32, 'e) prog"
where
  "probe range_min range_size base exhausted is_taken offset s =
     (if offset < unat range_size then
        (case is_taken (candidate range_min range_size base offset) s of
           (Ok None, s') \<Rightarrow> (Ok (candidate range_min range_size base offset), s')
         | (Ok (Some True), s') \<Rightarrow> (Ok (candidate range_min range_size base offset), s')
         | (Ok (Some False), s') \<Rightarrow>
             probe range_min range_size base exhausted is_taken (Suc offset) s'
         | (Err e, s') \<Rightarrow> (Err e, s')
         | (Panic, s') \<Rightarrow> (Panic, s'))
      else (Err exhausted, s))"
  by pat_completeness auto
termination
  by (relation "measure (\<lambda>(_, rs, _, _, _, offset, _). unat rs - offset)") auto

declare probe.simps [simp del]

definition resolve_id ::
  "(string \<Rightarrow> u32) \<Rightarrow> 'e \<Rightarrow> string \<Rightarrow> u32 \<Rightarrow> u32 \<Rightarrow> (u32 \<Rightarrow> ('s, bool option, 'e) prog) \<Rightarrow>
   ('s, u32, 'e) prog"
where
  "resolve_id hash exhausted external_id range_min range_size is_taken s =
     (case id_to_uid hash external_id range_min range_size of
        Ok base \<Rightarrow> probe range_min range_size base exhausted is_taken 0 s
      | Err e \<Rightarrow> (Err e, s)
      | Panic \<Rightarrow> (Panic, s))"

text \<open>The slot the probe looks at after \<open>k\<close> collisions.\<close>

definition slot :: "(string \<Rightarrow> u32) \<Rightarrow> string \<Rightarrow> u32 \<Rightarrow> u32 \<Rightarrow> nat \<Rightarrow> u32" where
  "slot hash external_id range_min range_size k =
     range_min + (hash external_id mod range_size + word_of_nat k) mod range_size"

text \<open>The range fits in 32 bits, and twice its size does too, so no sum wraps.\<close>

definition range_ok :: "u32 \<Rightarrow> u32 \<Rightarrow> bool" where
  "range_ok range_min range_size \<longleftrightarrow>
     0 < range_size \<and> unat range_min + unat range_size \<le> 4294967296 \<and> unat range_size \<le> 2147483648"

definition in_range :: "u32 \<Rightarrow> u32 \<Rightarrow> u32 \<Rightarrow> bool" where
  "in_range range_min range_size u \<longleftrightarrow>
     unat range_min \<le> unat u \<and> unat u < unat range_min + unat range_size"

text \<open>
  Recording key \<open>k\<close> at id \<open>i\<close> in a table with unique keys and unique ids: the former
  holder of the id and the former id of the key both go.
\<close>

definition assign_owner :: "(u32 \<Rightarrow> string option) \<Rightarrow> string \<Rightarrow> u32 \<Rightarrow> u32 \<Rightarrow> string option" where
  "assign_owner own k i =
     (\<lambda>j. if j = i then Some k else if own j = Some k then None else own j)"

section \<open>The hash stays in the range\<close>

lemma unat_range_add:
  fixes lo rs x :: u32
  assumes "unat lo + unat rs \<le> 4294967296" "unat x < unat rs"
  shows "unat (lo + x) = unat lo + unat x"
  by (rule unat_add_no_wrap) (use assms in linarith)

lemma mod_less_u32: "0 < rs \<Longrightarrow> unat (x mod rs) < unat rs" for rs x :: u32
  by (simp add: unat_mod word_less_nat_alt)

lemma id_to_uid_in_range:
  assumes "0 < rs" "unat lo + unat rs \<le> 4294967296" "id_to_uid hash eid lo rs = Ok u"
  shows "in_range lo rs u"
proof -
  from assms(1,3) have u: "u = lo + hash eid mod rs"
    by (auto simp: id_to_uid_def split: if_splits)
  show ?thesis
    using mod_less_u32 [OF assms(1), of "hash eid"] unat_range_add [OF assms(2)]
    by (simp add: u in_range_def)
qed

lemma slot_0: "id_to_uid hash eid lo rs = Ok u \<Longrightarrow> u = slot hash eid lo rs 0"
  by (auto simp: id_to_uid_def slot_def word_unat_eq_iff [of "_ mod _"] unat_mod split: if_splits)

lemma slot_in_range:
  assumes "0 < rs" "unat lo + unat rs \<le> 4294967296"
  shows "in_range lo rs (slot hash eid lo rs k)"
  using mod_less_u32 [OF assms(1)] unat_range_add [OF assms(2)]
  by (simp add: slot_def in_range_def)

lemma unat_slot:
  assumes "range_ok lo rs" "k < unat rs"
  shows "unat (slot hash eid lo rs k) = unat lo + (unat (hash eid mod rs) + k) mod unat rs"
proof -
  from assms(1) have rs: "0 < rs" "unat lo + unat rs \<le> 4294967296" "unat rs \<le> 2147483648"
    by (auto simp: range_ok_def)
  have k: "unat (word_of_nat k :: u32) = k"
    using assms(2) rs(3) by (intro unat_of_nat_u32) linarith
  have "unat (hash eid mod rs) + k < 4294967296"
    using mod_less_u32 [OF rs(1), of "hash eid"] assms(2) rs(3) by linarith
  then have "unat (hash eid mod rs + word_of_nat k) = unat (hash eid mod rs) + k"
    using k by (simp add: unat_add_no_wrap)
  then have "unat ((hash eid mod rs + word_of_nat k) mod rs) = (unat (hash eid mod rs) + k) mod unat rs"
    by (simp only: unat_mod)
  then show ?thesis
    using unat_range_add [OF rs(2) mod_less_u32 [OF rs(1)]] by (simp add: slot_def)
qed

text \<open>Any list of fewer ids than the range has leaves one out.\<close>

lemma range_card:
  assumes "unat lo + unat rs \<le> 4294967296"
  shows "card {u. in_range lo rs u} = unat rs"
proof -
  have "bij_betw unat {u. in_range lo rs u} {unat lo ..< unat lo + unat rs}"
  proof (rule bij_betw_imageI)
    show "inj_on unat {u. in_range lo rs u}" by (rule inj_onI) (rule word_unat_eq_iff [THEN iffD2])
    have "k \<in> unat ` {u. in_range lo rs u}" if "unat lo \<le> k" "k < unat lo + unat rs" for k
    proof (rule image_eqI)
      have k: "unat (word_of_nat k :: u32) = k" using that(2) assms by (intro unat_of_nat_u32) linarith
      then show "k = unat (word_of_nat k :: u32)" by simp
      show "word_of_nat k \<in> {u. in_range lo rs u}" using that k by (simp only: in_range_def mem_Collect_eq)
    qed
    then show "unat ` {u. in_range lo rs u} = {unat lo ..< unat lo + unat rs}"
      by (auto simp only: in_range_def mem_Collect_eq atLeastLessThan_iff)
  qed
  then show ?thesis by (simp add: bij_betw_same_card)
qed

lemma id_left:
  assumes "unat lo + unat rs \<le> 4294967296" "length us < unat rs"
  shows "\<exists>u. in_range lo rs u \<and> u \<notin> set us"
proof (rule ccontr)
  assume none: "\<not> (\<exists>u. in_range lo rs u \<and> u \<notin> set us)"
  have "{u. in_range lo rs u} \<subseteq> set us" using none by blast
  from card_mono [OF finite_set this] have "unat rs \<le> card (set us)" by (simp only: range_card [OF assms(1)])
  with card_length [of us] assms(2) show False by linarith
qed

text \<open>Every id of the range is one of the slots the probe visits.\<close>

lemma slots_cover_range:
  assumes ok: "range_ok lo rs" and u: "in_range lo rs u"
  shows "\<exists>k < unat rs. slot hash eid lo rs k = u"
proof -
  define h where "h = unat (hash eid mod rs)"
  define t where "t = unat u - unat lo"
  define n where "n = unat rs"
  have h: "h < n" using ok by (simp add: h_def n_def mod_less_u32 range_ok_def)
  have t: "t < n" "unat u = unat lo + t" using u by (auto simp: t_def n_def in_range_def)
  define k where "k = (if h \<le> t then t - h else t + n - h)"
  have k: "k < n" "(h + k) mod n = t" using h t(1) by (auto simp: k_def)
  have "unat (slot hash eid lo rs k) = unat u"
    using unat_slot [OF ok] k t(2) by (simp add: h_def n_def)
  then show ?thesis using k(1) by (auto simp: n_def word_unat_eq_iff)
qed

lemma candidate_slot: "candidate lo rs (lo + hash eid mod rs) k = slot hash eid lo rs k"
  by (simp add: candidate_def slot_def)

text \<open>A probe keeps whatever its test keeps.\<close>

lemma keeps_probe [preserved]:
  assumes "\<And>i. keeps P (is_taken i)"
  shows "keeps P (probe lo rs base ex is_taken k)"
proof (rule keepsI)
  fix s assume "P s"
  then show "P (snd (probe lo rs base ex is_taken k s))"
    using assms
  proof (induction lo rs base ex is_taken k s rule: probe.induct)
    case (1 lo rs base ex is_taken k s)
    obtain v t where run: "is_taken (candidate lo rs base k) s = (v, t)"
      by (cases "is_taken (candidate lo rs base k) s")
    then have "P t" using keepsD [OF 1(3) 1(2)] by blast
    with 1 run show ?case
      by (simp add: probe.simps [of lo rs base ex is_taken k s] split: outcome.split option.split bool.split)
  qed
qed

lemma keeps_resolve_id [preserved]:
  "(\<And>i. keeps P (is_taken i)) \<Longrightarrow> keeps P (resolve_id hash ex eid lo rs is_taken)"
  using keeps_probe [of P is_taken]
  by (auto simp: keeps_def resolve_id_def split: outcome.split)

lemma no_panic_probe [panic_free]:
  assumes "\<And>i. no_panic (is_taken i)"
  shows "no_panic (probe lo rs base ex is_taken k)"
proof -
  have "fst (probe lo rs base ex is_taken k s) \<noteq> Panic" for s
    using assms
  proof (induction lo rs base ex is_taken k s rule: probe.induct)
    case (1 lo rs base ex is_taken k s)
    obtain v t where run: "is_taken (candidate lo rs base k) s = (v, t)"
      by (cases "is_taken (candidate lo rs base k) s")
    with no_panicD [OF 1(2) run] 1 show ?case
      by (simp add: probe.simps [of lo rs base ex is_taken k s] split: outcome.split option.split bool.split)
  qed
  then show ?thesis by (simp add: no_panic_def)
qed

lemma no_panic_resolve_id [panic_free]:
  "rs \<noteq> 0 \<Longrightarrow> (\<And>i. no_panic (is_taken i)) \<Longrightarrow> no_panic (resolve_id hash ex eid lo rs is_taken)"
  using no_panic_probe [of is_taken]
  by (auto simp: no_panic_def resolve_id_def id_to_uid_def)

section \<open>What a probe does\<close>

text \<open>
  The interface \<open>resolve_id\<close> relies on: a table with one owner per id, and a test that
  reads it without changing it.
\<close>

locale slot_table =
  fixes is_taken :: "string \<Rightarrow> u32 \<Rightarrow> ('s, bool option, 'e) prog"
    and owner :: "'s \<Rightarrow> u32 \<Rightarrow> string option"
    and inv :: "'s \<Rightarrow> bool"
  assumes taken_keeps: "is_taken eid c s = (r, s') \<Longrightarrow> owner s' = owner s \<and> inv s' = inv s"
    and taken_Ok:
      "inv s \<Longrightarrow> is_taken eid c s = (Ok v, s') \<Longrightarrow> v = map_option (\<lambda>x. x = eid) (owner s c)"
    and taken_no_panic: "is_taken eid c s \<noteq> (Panic, s')"
begin

lemma probe_elim:
  assumes inv: "inv s" and assms: "probe lo rs base ex (is_taken eid) k s = (r, s')"
  obtains
    (exhausted) "unat rs \<le> k" "r = Err ex" "s' = s"
  | (open_slot) "k < unat rs" "owner s (candidate lo rs base k) \<in> {None, Some eid}"
      "r = Ok (candidate lo rs base k)" "owner s' = owner s" "inv s'"
  | (collision) t where "k < unat rs" "owner s (candidate lo rs base k) \<notin> {None, Some eid}"
      "owner t = owner s" "inv t" "probe lo rs base ex (is_taken eid) (Suc k) t = (r, s')"
  | (failed) e where "k < unat rs" "is_taken eid (candidate lo rs base k) s = (Err e, s')"
      "r = Err e" "owner s' = owner s" "inv s'"
proof -
  obtain v t where run: "is_taken eid (candidate lo rs base k) s = (v, t)"
    by (cases "is_taken eid (candidate lo rs base k) s")
  from taken_keeps [OF run] inv have own: "owner t = owner s" "inv t" by auto
  note eq = assms [unfolded probe.simps [of lo rs base ex "is_taken eid" k s] run]
  show thesis
  proof (cases "k < unat rs")
    case False
    with eq show ?thesis by (auto intro: exhausted)
  next
    case True
    show ?thesis
    proof (cases v)
      case Panic
      with run taken_no_panic show ?thesis by blast
    next
      case (Err e)
      with eq True own run show ?thesis by (auto intro: failed)
    next
      case (Ok b)
      with run taken_Ok [OF inv] have "b = map_option (\<lambda>x. x = eid) (owner s (candidate lo rs base k))"
        by blast
      with eq True own Ok show ?thesis
        by (cases "owner s (candidate lo rs base k)")
          (auto intro: open_slot collision split: bool.splits)
    qed
  qed
qed

lemma probe_result:
  assumes "inv s" "probe lo rs base ex (is_taken eid) k s = (r, s')"
  shows "owner s' = owner s \<and> inv s' \<and> r \<noteq> Panic \<and>
    (\<forall>u. r = Ok u \<longrightarrow> (\<exists>j. k \<le> j \<and> j < unat rs \<and> u = candidate lo rs base j \<and>
       owner s u \<in> {None, Some eid} \<and>
       (\<forall>i. k \<le> i \<and> i < j \<longrightarrow> owner s (candidate lo rs base i) \<notin> {None, Some eid})))"
  using assms
proof (induction "unat rs - k" arbitrary: k s)
  case 0
  then have "\<not> k < unat rs" by simp
  with 0(2,3) show ?case by (auto simp: probe.simps [of lo rs base ex "is_taken eid" k s])
next
  case (Suc n)
  from Suc.prems show ?case
  proof (cases rule: probe_elim)
    case exhausted
    then show ?thesis using Suc.prems(1) by simp
  next
    case open_slot
    then show ?thesis by (intro conjI allI impI exI [of _ k]) auto
  next
    case (collision t)
    then have n: "n = unat rs - Suc k" using Suc.hyps(2) by simp
    have step: "i = k \<or> Suc k \<le> i" if "k \<le> i" for i using that by arith
    from Suc.hyps(1) [OF n collision(4,5)] collision(2)
    show ?thesis unfolding collision(3)
      by (elim conjE, intro conjI allI impI) (assumption, assumption, assumption, blast dest: step Suc_leD)
  next
    case (failed e)
    then show ?thesis by simp
  qed
qed

lemma probe_exhausted:
  assumes "inv s" "probe lo rs base ex (is_taken eid) k s = (Err ex, s')"
    and "\<And>c t. fst (is_taken eid c t) \<noteq> Err ex"
    and "k \<le> i" "i < unat rs"
  shows "owner s (candidate lo rs base i) \<notin> {None, Some eid}"
  using assms(1,2,4)
proof (induction "unat rs - k" arbitrary: k s)
  case 0
  then show ?case using assms(5) by simp
next
  case (Suc n)
  from Suc.prems(1,2) show ?case
  proof (cases rule: probe_elim)
    case exhausted
    then show ?thesis using Suc.prems(3) assms(5) by simp
  next
    case open_slot
    then show ?thesis by simp
  next
    case (collision t)
    then have "n = unat rs - Suc k" using Suc.hyps(2) by simp
    from Suc.hyps(1) [OF this collision(4,5)] collision(2,3) Suc.prems(3)
    show ?thesis by (metis le_neq_implies_less Suc_leI)
  next
    case (failed e)
    then show ?thesis using assms(3) [of "candidate lo rs base k" s] by simp
  qed
qed

lemma resolve_id_keeps:
  assumes "inv s" "resolve_id hash ex eid lo rs (is_taken eid) s = (r, s')"
  shows "owner s' = owner s \<and> inv s'"
  using assms probe_result
  by (auto simp: resolve_id_def split: outcome.splits)

lemma resolve_id_Ok:
  assumes "inv s" "resolve_id hash ex eid lo rs (is_taken eid) s = (Ok u, s')"
  shows "0 < rs \<and> (\<exists>j < unat rs. u = slot hash eid lo rs j \<and> owner s u \<in> {None, Some eid} \<and>
    (\<forall>i < j. owner s (slot hash eid lo rs i) \<notin> {None, Some eid}))"
proof -
  have rs: "rs \<noteq> 0" using assms(2) by (auto simp: resolve_id_def id_to_uid_def)
  then have "probe lo rs (lo + hash eid mod rs) ex (is_taken eid) 0 s = (Ok u, s')"
    using assms(2) by (simp add: resolve_id_def id_to_uid_def)
  from probe_result [OF assms(1) this] rs show ?thesis
    by (auto simp: candidate_slot word_neq_0_conv)
qed

lemma resolve_id_exhausted:
  assumes "inv s" "resolve_id hash ex eid lo rs (is_taken eid) s = (Err ex, s')"
    and "\<And>c t. fst (is_taken eid c t) \<noteq> Err ex" and "k < unat rs"
  shows "owner s (slot hash eid lo rs k) \<notin> {None, Some eid}"
proof -
  have "probe lo rs (lo + hash eid mod rs) ex (is_taken eid) 0 s = (Err ex, s')"
    using assms(2) by (auto simp: resolve_id_def id_to_uid_def split: if_splits)
  from probe_exhausted [OF assms(1) this assms(3) _ assms(4)] show ?thesis
    by (simp add: candidate_slot)
qed

lemma resolve_id_panics:
  assumes "inv s"
  shows "(fst (resolve_id hash ex eid lo rs (is_taken eid) s) = Panic) = (rs = 0)"
proof (cases "rs = 0")
  case False
  obtain r t where "probe lo rs (lo + hash eid mod rs) ex (is_taken eid) 0 s = (r, t)"
    by (cases "probe lo rs (lo + hash eid mod rs) ex (is_taken eid) 0 s")
  with probe_result [OF assms this] False show ?thesis by (simp add: resolve_id_def id_to_uid_def)
qed (simp add: resolve_id_def id_to_uid_def)

text \<open>With a test that always answers, the probe finds an id or reports the range exhausted.\<close>

lemma probe_total:
  assumes "inv s" "\<And>c t. \<exists>v t'. is_taken eid c t = (Ok v, t')"
  shows "\<exists>u t. probe lo rs base ex (is_taken eid) k s \<in> {(Ok u, t), (Err ex, t)}"
  using assms(1)
proof (induction "unat rs - k" arbitrary: k s)
  case 0
  then show ?case by (simp add: probe.simps [of lo rs base ex "is_taken eid" k s])
next
  case (Suc n)
  obtain r s' where run: "probe lo rs base ex (is_taken eid) k s = (r, s')"
    by (cases "probe lo rs base ex (is_taken eid) k s")
  from Suc.prems run show ?case
  proof (cases rule: probe_elim)
    case (collision t)
    then have "n = unat rs - Suc k" using Suc.hyps(2) by simp
    from Suc.hyps(1) [OF this collision(4)] show ?thesis unfolding run collision(5) .
  next
    case (failed e)
    with assms(2) show ?thesis by (metis Pair_inject outcome.distinct(1))
  qed (simp_all add: run)
qed

lemma resolve_id_total:
  assumes "inv s" "\<And>c t. \<exists>v t'. is_taken eid c t = (Ok v, t')" "rs \<noteq> 0"
  shows "\<exists>u t. resolve_id hash ex eid lo rs (is_taken eid) s \<in> {(Ok u, t), (Err ex, t)}"
  using probe_total [OF assms(1,2)] assms(3) by (simp add: resolve_id_def id_to_uid_def)

text \<open>If some id of the range is free, it finds one.\<close>

lemma resolve_id_finds:
  assumes "inv s" "\<And>c t. \<exists>v t'. is_taken eid c t = (Ok v, t')" "range_ok lo rs"
    and "\<And>c t. fst (is_taken eid c t) \<noteq> Err ex" "in_range lo rs u" "owner s u = None"
  shows "\<exists>v t. resolve_id hash ex eid lo rs (is_taken eid) s = (Ok v, t) \<and> in_range lo rs v \<and>
    owner s v \<in> {None, Some eid}"
proof -
  have rs: "rs \<noteq> 0" "0 < rs" "unat lo + unat rs \<le> 4294967296" using assms(3) by (auto simp: range_ok_def)
  obtain j where j: "j < unat rs" "u = slot hash eid lo rs j"
    using slots_cover_range [OF assms(3,5), of hash eid] by auto
  have "resolve_id hash ex eid lo rs (is_taken eid) s \<noteq> (Err ex, t)" for t
    using resolve_id_exhausted [OF assms(1) _ assms(4) j(1)] assms(6) j(2) by blast
  then obtain v t where v: "resolve_id hash ex eid lo rs (is_taken eid) s = (Ok v, t)"
    using resolve_id_total [OF assms(1,2) rs(1), of hash ex lo] by blast
  with resolve_id_Ok [OF assms(1) v] slot_in_range [OF rs(2,3)] show ?thesis by blast
qed

text \<open>Once the id is recorded, the probe answers it again as long as the other owners stay.\<close>

lemma resolve_id_stable:
  assumes "inv s" "resolve_id hash ex eid lo rs (is_taken eid) s = (Ok u, s')"
    and "inv t" "owner t u = Some eid"
    and "\<And>i. owner s i \<notin> {None, Some eid} \<Longrightarrow> owner t i \<notin> {None, Some eid}"
    and "resolve_id hash ex eid lo rs (is_taken eid) t = (Ok v, t')"
  shows "v = u"
proof -
  obtain j where j: "j < unat rs" "u = slot hash eid lo rs j"
    "\<forall>i < j. owner s (slot hash eid lo rs i) \<notin> {None, Some eid}"
    using resolve_id_Ok [OF assms(1,2)] by auto
  obtain k where k: "k < unat rs" "v = slot hash eid lo rs k"
    "\<forall>i < k. owner t (slot hash eid lo rs i) \<notin> {None, Some eid}"
    "owner t v \<in> {None, Some eid}"
    using resolve_id_Ok [OF assms(3,6)] by auto
  have "\<not> j < k" using k(3) j(2) assms(4) by auto
  moreover have "\<not> k < j" using j(3) k(2,4) assms(5) by blast
  ultimately show ?thesis using j(2) k(2) by (cases "j = k") auto
qed

end

section \<open>Allocating an id\<close>

text \<open>
  A table of owners with a store operation: storing a value whose id the table gave it puts
  the value's key there. A store may fail, and then it has either done this or nothing.
\<close>

locale id_table = slot_table +
  fixes store :: "'v \<Rightarrow> ('s, unit, 'e) prog"
    and key :: "'v \<Rightarrow> string"
    and ident :: "'v \<Rightarrow> u32"
  assumes store_inv: "inv s \<Longrightarrow> store v s = (r, s') \<Longrightarrow> inv s'"
    and store_Ok: "inv s \<Longrightarrow> store v s = (Ok x, s') \<Longrightarrow>
      owner s' = assign_owner (owner s) (key v) (ident v)"
    and store_any: "inv s \<Longrightarrow> store v s = (r, s') \<Longrightarrow>
      owner s' = owner s \<or> owner s' = assign_owner (owner s) (key v) (ident v)"
begin

text \<open>Storing under an id the probe gave takes no id away from anybody else.\<close>

lemma store_keeps_others:
  assumes "inv s" "store v s = (r, s')" "owner s (ident v) \<in> {None, Some (key v)}"
    and "owner s i = Some k" "k \<noteq> key v"
  shows "owner s' i = Some k"
  using store_any [OF assms(1,2)] assms(3-5) by (auto simp: assign_owner_def)

lemma allocate_keeps_others:
  assumes "inv s" "resolve_id hash ex (key v) lo rs (is_taken (key v)) s = (Ok (ident v), t)"
    and "store v t = (r, s')" "owner s i = Some k" "k \<noteq> key v"
  shows "owner s' i = Some k"
proof -
  have t: "owner t = owner s" "inv t" using resolve_id_keeps [OF assms(1,2)] by auto
  have "owner s (ident v) \<in> {None, Some (key v)}" using resolve_id_Ok [OF assms(1,2)] by auto
  then show ?thesis using store_keeps_others [OF t(2) assms(3)] t(1) assms(4,5) by simp
qed

lemma allocate_stable:
  assumes "inv s" "resolve_id hash ex (key v) lo rs (is_taken (key v)) s = (Ok (ident v), t)"
    and "store v t = (Ok x, s')"
    and "resolve_id hash ex (key v) lo rs (is_taken (key v)) s' = (Ok u, t')"
  shows "u = ident v"
proof -
  have t: "owner t = owner s" "inv t" using resolve_id_keeps [OF assms(1,2)] by auto
  have own: "owner s' = assign_owner (owner s) (key v) (ident v)"
    using store_Ok [OF t(2) assms(3)] t(1) by simp
  show ?thesis
  proof (rule resolve_id_stable [OF assms(1,2)])
    show "inv s'" using store_inv [OF t(2) assms(3)] .
    show "owner s' (ident v) = Some (key v)" by (simp add: own assign_owner_def)
    show "owner s' i \<notin> {None, Some (key v)}" if "owner s i \<notin> {None, Some (key v)}" for i
      using that resolve_id_Ok [OF assms(1,2)] by (auto simp: own assign_owner_def)
    show "resolve_id hash ex (key v) lo rs (is_taken (key v)) s' = (Ok u, t')" by (fact assms(4))
  qed
qed

end

end
