(* ===== verification/Os_Files.thy ===== *)
theory Os_Files
  imports Prelude
begin

unbundle bit_operations_syntax

text \<open>
  The part of \<open>std::fs\<close> and \<open>libc\<close> that \<open>src/config.rs\<close> and \<open>src/cache.rs\<close> use: metadata of
  a path without following links, the text of a file, changing the mode, the effective user.
  The contents of the file system are the state; which calls fail is part of it.
\<close>

datatype io_error = IoError nat

record file_meta =
  fm_is_file :: bool
  fm_mode :: u32
  fm_uid :: u32

record fsys =
  fs_stat :: "string \<Rightarrow> (file_meta, io_error) outcome"
  fs_text :: "string \<Rightarrow> (string, io_error) outcome"
  fs_chmod_error :: "string \<Rightarrow> io_error option"
  fs_euid :: u32

definition symlink_metadata :: "string \<Rightarrow> (fsys, file_meta, io_error) prog" where
  "symlink_metadata path fs = (fs_stat fs path, fs)"

definition read_to_string :: "string \<Rightarrow> (fsys, string, io_error) prog" where
  "read_to_string path fs = (fs_text fs path, fs)"

text \<open>\<open>chmod\<close> replaces the twelve permission bits and keeps the file type.\<close>

definition chmod_mode :: "u32 \<Rightarrow> u32 \<Rightarrow> u32" where
  "chmod_mode perm mode = (mode AND NOT 4095) OR (perm AND 4095)"

definition set_permissions :: "string \<Rightarrow> u32 \<Rightarrow> (fsys, unit, io_error) prog" where
  "set_permissions path perm fs =
     (case fs_chmod_error fs path of
        Some e \<Rightarrow> (Err e, fs)
      | None \<Rightarrow>
          (case fs_stat fs path of
             Ok m \<Rightarrow> (Ok (), fs\<lparr>fs_stat :=
                        (fs_stat fs)(path := Ok (m\<lparr>fm_mode := chmod_mode perm (fm_mode m)\<rparr>))\<rparr>)
           | Err e \<Rightarrow> (Err e, fs)
           | Panic \<Rightarrow> (Panic, fs)))"

text \<open>The reason in an \<open>InsecurePermissions\<close> error (its text is made of these parts).\<close>

datatype perm_detail =
    CannotStat io_error
  | NotRegularFile
  | NotOwnedByRoot u32
  | TooOpen u32
  | NotCorrected u32 io_error

text \<open>\<open>0o777\<close>, \<open>0o077\<close> and \<open>0o600\<close>.\<close>

definition mode_777 :: u32 where "mode_777 = 511"

definition mode_077 :: u32 where "mode_077 = 63"

definition mode_600 :: u32 where "mode_600 = 384"

end
