(* ===== verification/Cache.thy ===== *)
theory Cache
  imports Sql_Store Id_Mapping Os_Files
begin

unbundle bit_operations_syntax

text \<open>
  \<open>src/cache.rs\<close>: opening and hardening the cache file, and the operations of \<open>impl Cache\<close>,
  each as the sequence of SQL statements it sends.
\<close>

datatype cache_error =
    Sqlite sql_error
  | RangeExhausted
  | InsecurePermissions string perm_detail

section \<open>Rows and models\<close>

definition user_of_row :: "uid_row \<Rightarrow> user" where
  "user_of_row r =
     \<lparr>u_external_id = ur_external_id r, u_name = ur_login r, u_uid = ur_uid r, u_gid = ur_gid r,
      u_gecos = ur_gecos r, u_home = ur_home r, u_shell = ur_shell r, u_active = ur_active r\<rparr>"

definition row_of_user :: "user \<Rightarrow> int \<Rightarrow> uid_row" where
  "row_of_user u now =
     \<lparr>ur_external_id = u_external_id u, ur_login = u_name u, ur_uid = u_uid u,
      ur_gecos = u_gecos u, ur_home = u_home u, ur_shell = u_shell u, ur_gid = u_gid u,
      ur_active = u_active u, ur_cached_at = now\<rparr>"

text \<open>\<open>rows.next()\<close> on a result.\<close>

definition first_row :: "'r list \<Rightarrow> 'r option" where
  "first_row rows = (case rows of [] \<Rightarrow> None | r # _ \<Rightarrow> Some r)"

section \<open>Opening the cache\<close>

definition harden_cache_file :: "string \<Rightarrow> (fsys, unit, cache_error) prog" where
  "harden_cache_file path =
     tryp (\<lambda>e. InsecurePermissions path (CannotStat e)) (symlink_metadata path) (\<lambda>meta.
       if \<not> fm_is_file meta then fail (InsecurePermissions path NotRegularFile)
       else if fm_uid meta \<noteq> 0 then fail (InsecurePermissions path (NotOwnedByRoot (fm_uid meta)))
       else let mode = fm_mode meta AND mode_777 in
         if mode \<noteq> mode_600
         then tryp (\<lambda>e. InsecurePermissions path (NotCorrected mode e))
                (set_permissions path mode_600) ret
         else ret ())"

text \<open>
  \<open>Cache::open\<close>: \<open>conn_open\<close> is \<open>rusqlite::Connection::open\<close>, which may create the file; the
  two \<open>execute_batch\<close> calls set the journal mode and create the tables and indexes that are missing, so
  they change no row.
\<close>

definition create_schema :: "cache \<Rightarrow> cache" where
  "create_schema c =
     create_index ''idx_group_members_member_name''
       (create_index ''idx_gid_cache_name'' (create_index ''idx_uid_cache_login'' c))"

definition cache_open ::
  "engine \<Rightarrow> (string \<Rightarrow> (fsys, cache, sql_error) prog) \<Rightarrow> string \<Rightarrow> u64 \<Rightarrow>
   (fsys, cache, cache_error) prog"
where
  "cache_open E conn_open path ttl_seconds =
     tryp Sqlite (conn_open path) (\<lambda>conn.
     bindp (if path \<noteq> '':memory:'' then harden_cache_file path else ret ()) (\<lambda>_.
       tryp Sqlite (localp conn (sql_update E (\<lambda>_ c. c))) (\<lambda>(_, conn1).
       tryp Sqlite (localp conn1 (sql_update E (\<lambda>_. create_schema))) (\<lambda>(_, conn2).
       ret (conn2\<lparr>cache_ttl := ttl_seconds\<rparr>)))))"

definition open_in_memory ::
  "engine \<Rightarrow> (string \<Rightarrow> (fsys, cache, sql_error) prog) \<Rightarrow> (fsys, cache, cache_error) prog" where
  "open_in_memory E conn_open = cache_open E conn_open '':memory:'' 3600"

section \<open>Owners of ids\<close>

definition uid_owner :: "engine \<Rightarrow> u32 \<Rightarrow> string \<Rightarrow> (cache, bool option, cache_error) prog" where
  "uid_owner E uid external_id =
     tryp Sqlite
       (sql_select E (\<lambda>n c.
          sort_key (eng_user_rank E n) (filter (\<lambda>r. ur_uid r = uid) (uid_cache c))))
       (\<lambda>rows. ret (map_option (\<lambda>r. ur_external_id r = external_id) (first_row rows)))"

definition gid_owner :: "engine \<Rightarrow> u32 \<Rightarrow> string \<Rightarrow> (cache, bool option, cache_error) prog" where
  "gid_owner E gid external_id =
     tryp Sqlite
       (sql_select E (\<lambda>n c.
          sort_key (eng_group_rank E n) (filter (\<lambda>r. gr_gid r = gid) (gid_cache c))))
       (\<lambda>rows. ret (map_option (\<lambda>r. gr_external_id r = external_id) (first_row rows)))"

definition resolve_uid ::
  "engine \<Rightarrow> (string \<Rightarrow> u32) \<Rightarrow> string \<Rightarrow> u32 \<Rightarrow> u32 \<Rightarrow> (cache, u32, cache_error) prog" where
  "resolve_uid E hash external_id range_min range_size =
     resolve_id hash RangeExhausted external_id range_min range_size
       (\<lambda>candidate. uid_owner E candidate external_id)"

definition resolve_gid ::
  "engine \<Rightarrow> (string \<Rightarrow> u32) \<Rightarrow> string \<Rightarrow> u32 \<Rightarrow> u32 \<Rightarrow> (cache, u32, cache_error) prog" where
  "resolve_gid E hash external_id range_min range_size =
     resolve_id hash RangeExhausted external_id range_min range_size
       (\<lambda>candidate. gid_owner E candidate external_id)"

section \<open>Users\<close>

definition store_user :: "engine \<Rightarrow> user \<Rightarrow> (cache, unit, cache_error) prog" where
  "store_user E u =
     tryp Sqlite (sql_update E (\<lambda>n. insert_uid_row (row_of_user u (eng_now E n)))) ret"

definition get_user_by_uid :: "engine \<Rightarrow> u32 \<Rightarrow> (cache, user option, cache_error) prog" where
  "get_user_by_uid E uid =
     tryp Sqlite
       (sql_select_fresh E (\<lambda>n bound c.
          sort_key (eng_user_rank E n)
            (filter (\<lambda>r. ur_uid r = uid \<and> bound < ur_cached_at r) (uid_cache c))))
       (\<lambda>rows. ret (map_option user_of_row (first_row rows)))"

definition cached_user_by_name :: "engine \<Rightarrow> string \<Rightarrow> (cache, user option, cache_error) prog" where
  "cached_user_by_name E name =
     tryp Sqlite
       (sql_select_fresh E (\<lambda>n bound c.
          sort_key (eng_user_rank E n)
            (filter (\<lambda>r. ur_login r = name \<and> bound < ur_cached_at r) (uid_cache c))))
       (\<lambda>rows. ret (map_option user_of_row (first_row rows)))"

section \<open>Groups\<close>

definition get_group_members :: "engine \<Rightarrow> string \<Rightarrow> (cache, string list, cache_error) prog" where
  "get_group_members E external_id =
     tryp Sqlite
       (sql_select E (\<lambda>n c.
          sort_key (eng_member_rank E n)
            (filter (\<lambda>m. mr_group_external_id m = external_id) (group_members c))))
       (\<lambda>rows. ret (map mr_member_name rows))"

definition group_of_row :: "engine \<Rightarrow> gid_row \<Rightarrow> (cache, group, cache_error) prog" where
  "group_of_row E r =
     bindp (get_group_members E (gr_external_id r)) (\<lambda>members.
       ret \<lparr>g_external_id = gr_external_id r, g_name = gr_name r, g_gid = gr_gid r,
            g_members = members\<rparr>)"

definition store_group :: "engine \<Rightarrow> group \<Rightarrow> (cache, unit, cache_error) prog" where
  "store_group E g =
     tryp Sqlite
       (sql_update E (\<lambda>n. insert_gid_row E
          \<lparr>gr_external_id = g_external_id g, gr_name = g_name g, gr_gid = g_gid g,
           gr_cached_at = eng_now E n\<rparr>)) (\<lambda>_.
     tryp Sqlite (sql_update E (\<lambda>_. delete_members_of (g_external_id g))) (\<lambda>_.
     eachp (\<lambda>member.
         tryp Sqlite
           (sql_statement E (\<lambda>_. insert_member_row E
              \<lparr>mr_group_external_id = g_external_id g, mr_member_name = member\<rparr>)) ret)
       (g_members g)))"

definition get_group_by_gid :: "engine \<Rightarrow> u32 \<Rightarrow> (cache, group option, cache_error) prog" where
  "get_group_by_gid E gid =
     tryp Sqlite
       (sql_select_fresh E (\<lambda>n bound c.
          sort_key (eng_group_rank E n)
            (filter (\<lambda>r. gr_gid r = gid \<and> bound < gr_cached_at r) (gid_cache c))))
       (\<lambda>rows. case first_row rows of
          None \<Rightarrow> ret None
        | Some r \<Rightarrow> bindp (group_of_row E r) (\<lambda>g. ret (Some g)))"

definition cached_group_by_name :: "engine \<Rightarrow> string \<Rightarrow> (cache, group option, cache_error) prog" where
  "cached_group_by_name E name =
     tryp Sqlite
       (sql_select_fresh E (\<lambda>n bound c.
          sort_key (eng_group_rank E n)
            (filter (\<lambda>r. gr_name r = name \<and> bound < gr_cached_at r) (gid_cache c))))
       (\<lambda>rows. case first_row rows of
          None \<Rightarrow> ret None
        | Some r \<Rightarrow> bindp (group_of_row E r) (\<lambda>g. ret (Some g)))"

text \<open>The join gives one row for each matching row of \<open>group_members\<close>.\<close>

definition get_groups_for_member ::
  "engine \<Rightarrow> string \<Rightarrow> (cache, group list, cache_error) prog" where
  "get_groups_for_member E member_name =
     tryp Sqlite
       (sql_select_fresh E (\<lambda>n bound c.
          sort_key (eng_group_rank E n)
            (concat (map (\<lambda>g. map (\<lambda>_. g)
                 (filter (\<lambda>m. mr_group_external_id m = gr_external_id g \<and>
                              mr_member_name m = member_name) (group_members c)))
               (filter (\<lambda>g. bound < gr_cached_at g) (gid_cache c))))))
       (collectp (group_of_row E))"

section \<open>Expiry\<close>

definition purge_expired :: "engine \<Rightarrow> u64 \<Rightarrow> (cache, unit, cache_error) prog" where
  "purge_expired E ttl_seconds =
     tryp Sqlite (sql_purge E ttl_seconds delete_expired_members) (\<lambda>_.
     tryp Sqlite (sql_purge E ttl_seconds (delete_expired_groups E)) (\<lambda>_.
     tryp Sqlite (sql_purge E ttl_seconds delete_expired_users) ret))"

end
