(* ===== verification/Cache_Laws.thy ===== *)
theory Cache_Laws
  imports Cache "HOL-Library.Multiset"
begin

text \<open>
  What the cache operations promise: every one keeps the constraints of the schema, reads
  change no row, and the two id tables are tables of owners in the sense of
  \<open>slot_table\<close>, whose lemmas about the probe they inherit.
\<close>

section \<open>The constraints hold after every operation\<close>

lemma keeps_statement_schema:
  "(\<And>n. keeps (schema_ok E) (body n)) \<Longrightarrow> keeps (schema_ok E) (sql_statement E body)"
  by (rule keeps_statement) auto

lemma uid_owner_schema [preserved]: "keeps (schema_ok E) (uid_owner E u eid)"
  unfolding uid_owner_def by (intro preserved) auto

lemma gid_owner_schema [preserved]: "keeps (schema_ok E) (gid_owner E u eid)"
  unfolding gid_owner_def by (intro preserved) auto

lemma store_user_schema [preserved]: "keeps (schema_ok E) (store_user E u)"
  unfolding store_user_def by (intro preserved) (auto intro: schema_insert_uid)

lemma get_user_by_uid_schema [preserved]: "keeps (schema_ok E) (get_user_by_uid E u)"
  unfolding get_user_by_uid_def by (intro preserved) auto

lemma cached_user_by_name_schema [preserved]: "keeps (schema_ok E) (cached_user_by_name E n)"
  unfolding cached_user_by_name_def by (intro preserved) auto

lemma store_group_schema [preserved]: "keeps (schema_ok E) (store_group E g)"
  unfolding store_group_def
  by (intro preserved keeps_statement_schema schema_insert_member)
    (auto intro: schema_insert_gid schema_delete_members)

lemma group_of_row_schema [preserved]: "keeps (schema_ok E) (group_of_row E r)"
  unfolding group_of_row_def get_group_members_def by (intro preserved) auto

lemma get_group_by_gid_schema [preserved]: "keeps (schema_ok E) (get_group_by_gid E u)"
  unfolding get_group_by_gid_def by (intro preserved) auto

lemma cached_group_by_name_schema [preserved]: "keeps (schema_ok E) (cached_group_by_name E n)"
  unfolding cached_group_by_name_def by (intro preserved) auto

lemma get_groups_for_member_schema [preserved]: "keeps (schema_ok E) (get_groups_for_member E n)"
  unfolding get_groups_for_member_def by (intro preserved) auto

lemma purge_expired_schema [preserved]: "keeps (schema_ok E) (purge_expired E ttl)"
  unfolding purge_expired_def by (intro preserved) (auto intro: schema_purge)

lemma resolve_schema [preserved]:
  "keeps (schema_ok E) (resolve_uid E hash eid lo rs)" "keeps (schema_ok E) (resolve_gid E hash eid lo rs)"
  unfolding resolve_uid_def resolve_gid_def by (intro preserved)+

section \<open>No operation panics\<close>

lemma cache_no_panic [panic_free]:
  "no_panic (uid_owner E u eid)" "no_panic (gid_owner E u eid)" "no_panic (store_user E v)"
  "no_panic (get_user_by_uid E u)" "no_panic (cached_user_by_name E n)" "no_panic (store_group E g)"
  "no_panic (group_of_row E r)" "no_panic (get_group_by_gid E u)" "no_panic (cached_group_by_name E n)"
  "no_panic (get_groups_for_member E n)" "no_panic (purge_expired E ttl)"
  unfolding uid_owner_def gid_owner_def store_user_def get_user_by_uid_def cached_user_by_name_def
    store_group_def group_of_row_def get_group_members_def get_group_by_gid_def
    cached_group_by_name_def get_groups_for_member_def purge_expired_def
  by (intro panic_free)+

lemma resolve_no_panic [panic_free]:
  "rs \<noteq> 0 \<Longrightarrow> no_panic (resolve_uid E hash eid lo rs)"
  "rs \<noteq> 0 \<Longrightarrow> no_panic (resolve_gid E hash eid lo rs)"
  unfolding resolve_uid_def resolve_gid_def by (intro panic_free; assumption)+

section \<open>Reads change no row\<close>

definition same_tables :: "cache \<Rightarrow> cache \<Rightarrow> bool" where
  "same_tables c d \<longleftrightarrow>
     uid_cache d = uid_cache c \<and> gid_cache d = gid_cache c \<and>
     group_members d = group_members c \<and> cache_ttl d = cache_ttl c"

lemma same_tables_refl [simp]: "same_tables c c"
  by (simp add: same_tables_def)

lemma same_tables_counter [simp]: "same_tables c (d\<lparr>statements_run := n\<rparr>) = same_tables c d"
  by (simp add: same_tables_def)

lemma uid_owner_reads [preserved]: "keeps (same_tables c) (uid_owner E u eid)"
  unfolding uid_owner_def by (intro preserved) auto

lemma gid_owner_reads [preserved]: "keeps (same_tables c) (gid_owner E u eid)"
  unfolding gid_owner_def by (intro preserved) auto

lemma get_user_by_uid_reads [preserved]: "keeps (same_tables c) (get_user_by_uid E u)"
  unfolding get_user_by_uid_def by (intro preserved) auto

lemma cached_user_by_name_reads [preserved]: "keeps (same_tables c) (cached_user_by_name E n)"
  unfolding cached_user_by_name_def by (intro preserved) auto

lemma group_of_row_reads [preserved]: "keeps (same_tables c) (group_of_row E r)"
  unfolding group_of_row_def get_group_members_def by (intro preserved) auto

lemma get_group_by_gid_reads [preserved]: "keeps (same_tables c) (get_group_by_gid E u)"
  unfolding get_group_by_gid_def by (intro preserved) auto

lemma cached_group_by_name_reads [preserved]: "keeps (same_tables c) (cached_group_by_name E n)"
  unfolding cached_group_by_name_def by (intro preserved) auto

lemma get_groups_for_member_reads [preserved]: "keeps (same_tables c) (get_groups_for_member E n)"
  unfolding get_groups_for_member_def by (intro preserved) auto

lemma resolve_uid_reads [preserved]: "keeps (same_tables c) (resolve_uid E hash eid lo rs)"
  unfolding resolve_uid_def by (intro preserved)

lemma resolve_gid_reads [preserved]: "keeps (same_tables c) (resolve_gid E hash eid lo rs)"
  unfolding resolve_gid_def by (intro preserved)

section \<open>Running one statement\<close>

lemma sql_statement_Ok:
  "sql_statement E body c = (Ok a, c') \<longleftrightarrow>
     eng_fault E (statements_run c) = None \<and>
     body (statements_run c) (c\<lparr>statements_run := Suc (statements_run c)\<rparr>) = (Ok a, c')"
  by (auto simp: sql_statement_def Let_def split: option.splits)

lemma sql_select_Ok [prog_inv]:
  "sql_select E q c = (Ok rows, c') \<longleftrightarrow>
     eng_fault E (statements_run c) = None \<and>
     c' = c\<lparr>statements_run := Suc (statements_run c)\<rparr> \<and> rows = q (statements_run c) c'"
  by (auto simp: sql_select_def sql_statement_Ok)

lemma sql_update_Ok [prog_inv]:
  "sql_update E f c = (Ok u, c') \<longleftrightarrow>
     eng_fault E (statements_run c) = None \<and>
     c' = f (statements_run c) (c\<lparr>statements_run := Suc (statements_run c)\<rparr>)"
  by (auto simp: sql_update_def sql_statement_Ok)

text \<open>The oldest \<open>cached_at\<close> a statement still accepts is after this bound.\<close>

definition fresh_bound :: "engine \<Rightarrow> cache \<Rightarrow> int" where
  "fresh_bound E c = eng_now E (statements_run c) - int (unat (cache_ttl c))"

lemma sql_select_fresh_Ok [prog_inv]:
  "sql_select_fresh E q c = (Ok rows, c') \<longleftrightarrow>
     eng_fault E (statements_run c) = None \<and> unat (cache_ttl c) < 9223372036854775808 \<and>
     c' = c\<lparr>statements_run := Suc (statements_run c)\<rparr> \<and>
     rows = q (statements_run c) (fresh_bound E c) c'"
  by (auto simp: sql_select_fresh_def sql_statement_Ok u64_to_sql_unat fresh_bound_def
      split: if_splits)

lemma sql_purge_Ok [prog_inv]:
  "sql_purge E ttl f c = (Ok u, c') \<longleftrightarrow>
     eng_fault E (statements_run c) = None \<and> unat ttl < 9223372036854775808 \<and>
     c' = f (eng_now E (statements_run c) - int (unat ttl))
            (c\<lparr>statements_run := Suc (statements_run c)\<rparr>)"
  by (auto simp: sql_purge_def sql_statement_Ok u64_to_sql_unat split: if_splits)

lemma find_in: "find P xs = Some x \<Longrightarrow> x \<in> set xs \<and> P x"
  by (induction xs) (auto split: if_splits)

lemma find_none: "find P xs = None \<longleftrightarrow> (\<forall>x \<in> set xs. \<not> P x)"
  by (induction xs) auto

text \<open>A \<open>SELECT\<close> with a unique key gives the one row of that key, in whatever order.\<close>

lemma filter_key:
  assumes "distinct (map k xs)"
  shows "filter (\<lambda>r. k r = u \<and> P r) xs =
     (case find (\<lambda>r. k r = u) xs of None \<Rightarrow> [] | Some r \<Rightarrow> if P r then [r] else [])"
  using assms
proof (induction xs)
  case (Cons x xs)
  then show ?case
    by (cases "k x = u") (auto simp: filter_empty_conv image_iff split: option.split dest!: find_in)
qed simp

lemma find_unique:
  "distinct (map k xs) \<Longrightarrow> x \<in> set xs \<Longrightarrow> k x = u \<Longrightarrow> find (\<lambda>r. k r = u) xs = Some x"
  by (induction xs) (auto simp: rev_image_eqI)

lemma first_row_sort1:
  "first_row (sort_key f (case x of None \<Rightarrow> [] | Some r \<Rightarrow> if P r then [r] else [])) =
     (case x of None \<Rightarrow> None | Some r \<Rightarrow> if P r then Some r else None)"
  by (auto simp: first_row_def split: option.splits)

lemma first_row_in: "first_row (sort_key f xs) = Some r \<Longrightarrow> r \<in> set xs"
  by (metis first_row_def list.case_eq_if list.set_sel(1) option.inject option.simps(3) set_sort)

lemma first_row_none: "first_row (sort_key f xs) = None \<longleftrightarrow> xs = []"
  by (metis first_row_def length_0_conv length_sort list.case_eq_if option.simps(3) list.simps(4))

section \<open>Who owns an id\<close>

definition user_owner :: "cache \<Rightarrow> u32 \<Rightarrow> string option" where
  "user_owner c u = map_option ur_external_id (find (\<lambda>r. ur_uid r = u) (uid_cache c))"

definition group_owner :: "cache \<Rightarrow> u32 \<Rightarrow> string option" where
  "group_owner c u = map_option gr_external_id (find (\<lambda>r. gr_gid r = u) (gid_cache c))"

lemma same_tables_views:
  "same_tables c d \<Longrightarrow> user_owner d = user_owner c \<and> group_owner d = group_owner c \<and>
     schema_ok E d = schema_ok E c"
  by (auto simp: same_tables_def user_owner_def group_owner_def fun_eq_iff schema_defs)

lemma uid_owner_Ok:
  assumes "schema_ok E c" "uid_owner E u eid c = (Ok v, c')"
  shows "v = map_option (\<lambda>x. x = eid) (user_owner c u)"
proof -
  have "distinct (map ur_uid (uid_cache c))" using assms(1) by (simp add: schema_defs)
  from filter_key [OF this, of u "\<lambda>_. True"] assms(2) show ?thesis
    by (auto simp: uid_owner_def prog_inv user_owner_def first_row_sort1 split: option.splits)
qed

lemma gid_owner_Ok:
  assumes "schema_ok E c" "gid_owner E u eid c = (Ok v, c')"
  shows "v = map_option (\<lambda>x. x = eid) (group_owner c u)"
proof -
  have "distinct (map gr_gid (gid_cache c))" using assms(1) by (simp add: schema_defs)
  from filter_key [OF this, of u "\<lambda>_. True"] assms(2) show ?thesis
    by (auto simp: gid_owner_def prog_inv group_owner_def first_row_sort1 split: option.splits)
qed

lemma owner_no_panic: "uid_owner E u eid c \<noteq> (Panic, c')" "gid_owner E u eid c \<noteq> (Panic, c')"
  by (auto simp: uid_owner_def gid_owner_def prog_inv sql_select_def sql_statement_def Let_def
      split: option.splits)

lemma owner_not_exhausted:
  "fst (uid_owner E u eid c) \<noteq> Err RangeExhausted" "fst (gid_owner E u eid c) \<noteq> Err RangeExhausted"
  by (auto simp: uid_owner_def gid_owner_def tryp_def matchp_def ret_def fail_def
      split: prod.splits outcome.splits)

interpretation uid_slots: slot_table "\<lambda>eid c. uid_owner E c eid" user_owner "schema_ok E" for E
proof unfold_locales
  fix eid c s r s'
  assume run: "uid_owner E c eid s = (r, s')"
  have "same_tables s s'" using keepsD [OF uid_owner_reads _ run] same_tables_refl by blast
  then show "user_owner s' = user_owner s \<and> schema_ok E s' = schema_ok E s"
    using same_tables_views by blast
qed (auto dest: uid_owner_Ok simp: owner_no_panic)

interpretation gid_slots: slot_table "\<lambda>eid c. gid_owner E c eid" group_owner "schema_ok E" for E
proof unfold_locales
  fix eid c s r s'
  assume run: "gid_owner E c eid s = (r, s')"
  have "same_tables s s'" using keepsD [OF gid_owner_reads _ run] same_tables_refl by blast
  then show "group_owner s' = group_owner s \<and> schema_ok E s' = schema_ok E s"
    using same_tables_views by blast
qed (auto dest: gid_owner_Ok simp: owner_no_panic)

section \<open>Storing\<close>

lemma find_append: "find P (xs @ ys) = (case find P xs of None \<Rightarrow> find P ys | Some x \<Rightarrow> Some x)"
  by (induction xs) auto

text \<open>Both tables replace in the same way, so their owners change in the same way.\<close>

lemma find_replaced:
  assumes "distinct (map k xs)"
  shows "map_option e (find (\<lambda>x. k x = i) (filter (\<lambda>x. e x \<noteq> e r \<and> k x \<noteq> k r) xs @ [r])) =
    assign_owner (\<lambda>j. map_option e (find (\<lambda>x. k x = j) xs)) (e r) (k r) i"
proof (cases "i = k r")
  case True
  then have "find (\<lambda>x. k x = i) (filter (\<lambda>x. e x \<noteq> e r \<and> k x \<noteq> k r) xs) = None"
    by (simp add: find_none)
  with True show ?thesis by (simp add: find_append assign_owner_def)
next
  case False
  have "find (\<lambda>x. k x = i) (filter (\<lambda>x. e x \<noteq> e r \<and> k x \<noteq> k r) xs) =
    (case find (\<lambda>x. k x = i) xs of None \<Rightarrow> None | Some x \<Rightarrow> if e x = e r then None else Some x)"
    using assms False
  proof (induction xs)
    case (Cons x xs)
    show ?case
    proof (cases "k x = i")
      case True
      then have "\<forall>y \<in> set xs. k y \<noteq> i" using Cons.prems(1) by (metis distinct.simps(2) image_eqI list.simps(9) set_map)
      then have "find (\<lambda>x. k x = i) (filter (\<lambda>x. e x \<noteq> e r \<and> k x \<noteq> k r) xs) = None"
        by (simp add: find_none)
      then show ?thesis using True False by simp
    next
      case other: False
      then show ?thesis using Cons by simp
    qed
  qed simp
  with False show ?thesis by (simp add: find_append assign_owner_def split: option.splits)
qed

lemma user_owner_insert:
  "schema_ok E c \<Longrightarrow> user_owner (insert_uid_row r c) =
     assign_owner (user_owner c) (ur_external_id r) (ur_uid r)"
  using find_replaced [where k = ur_uid and e = ur_external_id and xs = "uid_cache c" and r = r]
  by (simp add: user_owner_def [abs_def] insert_uid_row_def schema_defs)

lemma group_owner_insert:
  "schema_ok E c \<Longrightarrow> group_owner (insert_gid_row E r c) =
     assign_owner (group_owner c) (gr_external_id r) (gr_gid r)"
  using find_replaced [where k = gr_gid and e = gr_external_id and xs = "gid_cache c" and r = r]
  by (simp add: group_owner_def [abs_def] insert_gid_row_def delete_gid_rows_def Let_def
      schema_defs)

lemma user_owner_insert_gid: "user_owner (insert_gid_row E r c) = user_owner c"
  by (simp add: user_owner_def [abs_def] insert_gid_row_def delete_gid_rows_def Let_def)

lemma owner_counter [simp]:
  "user_owner (c\<lparr>statements_run := n\<rparr>) = user_owner c"
  "group_owner (c\<lparr>statements_run := n\<rparr>) = group_owner c"
  by (simp_all add: user_owner_def group_owner_def fun_eq_iff)

lemma store_user_Ok:
  "store_user E u c = (Ok x, c') \<longleftrightarrow>
     eng_fault E (statements_run c) = None \<and>
     c' = insert_uid_row (row_of_user u (eng_now E (statements_run c)))
            (c\<lparr>statements_run := Suc (statements_run c)\<rparr>)"
  by (auto simp: store_user_def prog_inv)

lemma sql_update_result:
  "sql_update E f c = (r, c') \<Longrightarrow>
     r = Ok () \<and> c' = f (statements_run c) (c\<lparr>statements_run := Suc (statements_run c)\<rparr>) \<or>
     (\<exists>e. r = Err e \<and> c' = c\<lparr>statements_run := Suc (statements_run c)\<rparr>)"
  by (auto simp: sql_update_def sql_statement_def Let_def split: option.splits)

lemma store_user_owner:
  assumes "schema_ok E c" "store_user E u c = (r, c')"
  shows "user_owner c' = assign_owner (user_owner c) (u_external_id u) (u_uid u) \<or>
    r \<noteq> Ok () \<and> user_owner c' = user_owner c"
  using assms
  by (auto simp: store_user_def prog_inv row_of_user_def user_owner_insert
      dest!: sql_update_result)

text \<open>The statements of \<open>store_group\<close> after the first touch \<open>group_members\<close> only.\<close>

definition same_gids :: "cache \<Rightarrow> cache \<Rightarrow> bool" where
  "same_gids c d \<longleftrightarrow> gid_cache d = gid_cache c \<and> uid_cache d = uid_cache c \<and> cache_ttl d = cache_ttl c"

lemma same_gids_owner: "same_gids c d \<Longrightarrow> group_owner d = group_owner c \<and> user_owner d = user_owner c"
  by (simp add: same_gids_def group_owner_def user_owner_def fun_eq_iff)

lemma insert_member_gids: "keeps (same_gids c) (insert_member_row E m)"
  by (auto simp: keeps_def same_gids_def insert_member_row_def)

lemma store_members_gids:
  "keeps (same_gids c)
     (eachp (\<lambda>m. tryp Sqlite (sql_statement E (\<lambda>_. insert_member_row E
        \<lparr>mr_group_external_id = g, mr_member_name = m\<rparr>)) ret) ms)"
  by (intro preserved insert_member_gids) (simp add: same_gids_def)

lemma store_group_rest_gids:
  "keeps (same_gids c)
     (tryp Sqlite (sql_update E (\<lambda>_. delete_members_of g)) (\<lambda>_.
        eachp (\<lambda>m. tryp Sqlite (sql_statement E (\<lambda>_. insert_member_row E
        \<lparr>mr_group_external_id = g, mr_member_name = m\<rparr>)) ret) ms))"
  by (intro preserved store_members_gids) (auto simp: same_gids_def delete_members_of_def)

lemma store_group_owner:
  assumes "schema_ok E c" "store_group E g c = (r, c')"
  shows "(group_owner c' = assign_owner (group_owner c) (g_external_id g) (g_gid g) \<or>
      r \<noteq> Ok () \<and> group_owner c' = group_owner c) \<and> user_owner c' = user_owner c"
proof -
  define row where "row n = \<lparr>gr_external_id = g_external_id g, gr_name = g_name g,
    gr_gid = g_gid g, gr_cached_at = eng_now E n\<rparr>" for n
  obtain a t where ins: "sql_update E (\<lambda>n. insert_gid_row E (row n)) c = (a, t)"
    by (cases "sql_update E (\<lambda>n. insert_gid_row E (row n)) c")
  note split = assms(2) [unfolded store_group_def row_def [symmetric]]
  show ?thesis
  proof (cases a)
    case (Ok x)
    with split ins have rest: "tryp Sqlite (sql_update E (\<lambda>_. delete_members_of (g_external_id g))) (\<lambda>_.
        eachp (\<lambda>m. tryp Sqlite (sql_statement E (\<lambda>_. insert_member_row E
        \<lparr>mr_group_external_id = g_external_id g, mr_member_name = m\<rparr>)) ret) (g_members g)) t = (r, c')"
      by (simp add: prog_simps)
    have "same_gids t c'" by (rule keepsD [OF store_group_rest_gids _ rest]) (simp add: same_gids_def)
    moreover have "group_owner t = assign_owner (group_owner c) (g_external_id g) (g_gid g)"
      using ins Ok assms(1) by (auto simp: prog_inv group_owner_insert row_def)
    moreover have "user_owner t = user_owner c"
      using ins Ok by (auto simp: prog_inv user_owner_insert_gid)
    ultimately show ?thesis using same_gids_owner [of t c'] by simp
  next
    case (Err e)
    then show ?thesis using split ins by (auto simp: prog_simps dest: sql_update_result)
  next
    case Panic
    then show ?thesis using ins by (auto dest: sql_update_result)
  qed
qed

interpretation uid_table: id_table "\<lambda>eid c. uid_owner E c eid" user_owner "schema_ok E"
  "store_user E" u_external_id u_uid for E
proof unfold_locales
  fix s v r s' assume "schema_ok E s" "store_user E v s = (r, s')"
  then show "schema_ok E s'" by (rule keepsD [OF store_user_schema])
next
  fix s v x s' assume "schema_ok E s" "store_user E v s = (Ok x, s')"
  then show "user_owner s' = assign_owner (user_owner s) (u_external_id v) (u_uid v)"
    using store_user_owner by fastforce
qed (use store_user_owner in blast)

interpretation gid_table: id_table "\<lambda>eid c. gid_owner E c eid" group_owner "schema_ok E"
  "store_group E" g_external_id g_gid for E
proof unfold_locales
  fix s v r s' assume "schema_ok E s" "store_group E v s = (r, s')"
  then show "schema_ok E s'" by (rule keepsD [OF store_group_schema])
next
  fix s v x s' assume "schema_ok E s" "store_group E v s = (Ok x, s')"
  then show "group_owner s' = assign_owner (group_owner s) (g_external_id v) (g_gid v)"
    using store_group_owner by fastforce
qed (use store_group_owner in blast)

section \<open>What a lookup finds\<close>

text \<open>The fresh rows of a key, before the order of delivery: the specification of a lookup.\<close>

definition live_user :: "int \<Rightarrow> cache \<Rightarrow> uid_row \<Rightarrow> bool" where
  "live_user bound c r \<longleftrightarrow> r \<in> set (uid_cache c) \<and> bound < ur_cached_at r"

definition live_group :: "int \<Rightarrow> cache \<Rightarrow> gid_row \<Rightarrow> bool" where
  "live_group bound c r \<longleftrightarrow> r \<in> set (gid_cache c) \<and> bound < gr_cached_at r"

lemma get_user_by_uid_Ok:
  assumes "get_user_by_uid E uid c = (Ok v, c')"
  shows "case v of
      None \<Rightarrow> \<not> (\<exists>r. live_user (fresh_bound E c) c r \<and> ur_uid r = uid)
    | Some u \<Rightarrow> \<exists>r. live_user (fresh_bound E c) c r \<and> ur_uid r = uid \<and> u = user_of_row r"
  using assms
  by (auto simp: get_user_by_uid_def prog_inv live_user_def first_row_none filter_empty_conv
      dest!: first_row_in split: option.splits)

lemma cached_user_by_name_Ok:
  assumes "cached_user_by_name E name c = (Ok v, c')"
  shows "case v of
      None \<Rightarrow> \<not> (\<exists>r. live_user (fresh_bound E c) c r \<and> ur_login r = name)
    | Some u \<Rightarrow> \<exists>r. live_user (fresh_bound E c) c r \<and> ur_login r = name \<and> u = user_of_row r"
  using assms
  by (auto simp: cached_user_by_name_def prog_inv live_user_def first_row_none filter_empty_conv
      dest!: first_row_in split: option.splits)

definition members_of :: "string \<Rightarrow> cache \<Rightarrow> string list" where
  "members_of g c =
     map mr_member_name (filter (\<lambda>m. mr_group_external_id m = g) (group_members c))"

lemma get_group_members_Ok:
  "get_group_members E g c = (Ok ms, c') \<Longrightarrow> mset ms = mset (members_of g c)"
  by (auto simp: get_group_members_def prog_inv members_of_def)

lemma group_of_row_Ok:
  assumes "group_of_row E r c = (Ok g, c')"
  shows "g_external_id g = gr_external_id r \<and> g_name g = gr_name r \<and> g_gid g = gr_gid r \<and>
    mset (g_members g) = mset (members_of (gr_external_id r) c)"
  using assms get_group_members_Ok by (auto simp: group_of_row_def prog_inv)

lemma user_of_row_of_user [simp]: "user_of_row (row_of_user u now) = u"
  by (simp add: user_of_row_def row_of_user_def)

lemma store_user_rows:
  assumes "store_user E u c = (Ok x, c1)"
  shows "live_user b c1 r \<longleftrightarrow>
    b < ur_cached_at r \<and> (r = row_of_user u (eng_now E (statements_run c)) \<or>
      r \<in> set (uid_cache c) \<and> ur_external_id r \<noteq> u_external_id u \<and> ur_uid r \<noteq> u_uid u)"
    and "cache_ttl c1 = cache_ttl c" "statements_run c1 = Suc (statements_run c)"
    and "gid_cache c1 = gid_cache c" "group_members c1 = group_members c"
  using assms
  by (auto simp: store_user_Ok live_user_def insert_uid_row_def row_of_user_def)

text \<open>The member rows \<open>store_group\<close> inserts, and when it can.\<close>

abbreviation insert_members :: "engine \<Rightarrow> string \<Rightarrow> string list \<Rightarrow> (cache, unit, cache_error) prog" where
  "insert_members E g ms \<equiv>
     eachp (\<lambda>member. tryp Sqlite (sql_statement E (\<lambda>_. insert_member_row E
       \<lparr>mr_group_external_id = g, mr_member_name = member\<rparr>)) ret) ms"

lemma insert_member_Ok:
  "tryp Sqlite (sql_statement E (\<lambda>_. insert_member_row E m)) ret c = (Ok x, c') \<longleftrightarrow>
     eng_fault E (statements_run c) = None \<and> m \<notin> set (group_members c) \<and>
     (eng_foreign_keys E \<longrightarrow> mr_group_external_id m \<in> gr_external_id ` set (gid_cache c)) \<and>
     c' = c\<lparr>statements_run := Suc (statements_run c), group_members := group_members c @ [m]\<rparr>"
  by (auto simp: prog_inv sql_statement_Ok insert_member_row_def)

lemma member_in_members_of:
  "\<lparr>mr_group_external_id = g, mr_member_name = m\<rparr> \<in> set (group_members c) \<longleftrightarrow> m \<in> set (members_of g c)"
proof
  assume "m \<in> set (members_of g c)"
  then obtain r where r: "r \<in> set (group_members c)" "mr_group_external_id r = g" "mr_member_name r = m"
    by (auto simp: members_of_def)
  then have "r = \<lparr>mr_group_external_id = g, mr_member_name = m\<rparr>" by simp
  with r(1) show "\<lparr>mr_group_external_id = g, mr_member_name = m\<rparr> \<in> set (group_members c)" by simp
qed (auto simp: members_of_def intro!: image_eqI)

lemma insert_members_Ok:
  assumes "insert_members E g ms c = (Ok x, c')" "distinct (members_of g c)"
  shows "members_of g c' = members_of g c @ ms \<and> distinct (members_of g c @ ms) \<and>
    gid_cache c' = gid_cache c \<and> uid_cache c' = uid_cache c \<and> cache_ttl c' = cache_ttl c \<and>
    statements_run c' = statements_run c + length ms \<and>
    (\<forall>h. h \<noteq> g \<longrightarrow> members_of h c' = members_of h c)"
  using assms
proof (induction ms arbitrary: c)
  case Nil
  then show ?case by (simp add: prog_inv)
next
  case (Cons m ms)
  then obtain t where step: "tryp Sqlite (sql_statement E (\<lambda>_. insert_member_row E
       \<lparr>mr_group_external_id = g, mr_member_name = m\<rparr>)) ret c = (Ok (), t)"
    and rest: "insert_members E g ms t = (Ok x, c')"
    by (auto simp: bindp_eq)
  from step have t: "m \<notin> set (members_of g c)" "members_of g t = members_of g c @ [m]"
    "gid_cache t = gid_cache c" "uid_cache t = uid_cache c" "cache_ttl t = cache_ttl c"
    "statements_run t = Suc (statements_run c)" "h \<noteq> g \<Longrightarrow> members_of h t = members_of h c" for h
    by (auto simp: insert_member_Ok member_in_members_of members_of_def)
  with Cons.IH [OF rest] Cons.prems(2) show ?case by auto
qed

end
