(* ===== verification/Serde.thy ===== *)
theory Serde
  imports Prelude
begin

text \<open>
  Documents as serde sees them, and the rules of \<open>#[derive(Deserialize)]\<close> that the structs of
  the repository rely on. The parsers of JSON and TOML (third-party crates) turn text into a
  \<open>doc\<close> and are parameters where they are used; the structs' own decoders are definitions in
  their components. A decoder gives \<open>None\<close> where serde reports an error.
\<close>

datatype doc =
    DNull
  | DBool bool
  | DInt int
  | DFloat string
  | DStr string
  | DArr "doc list"
  | DObj "(string \<times> doc) list"

text \<open>
  A derived struct decoder reads an object by its field names (unknown names are ignored, a
  known name given twice is an error) or an array by position. The flag says which, because an
  absent \<open>Option\<close> field without \<open>default\<close> is \<open>None\<close> in the first and an error in the second.
\<close>

definition struct_fields :: "string list \<Rightarrow> doc \<Rightarrow> (bool \<times> doc option list) option" where
  "struct_fields names d =
     (case d of
        DObj kvs \<Rightarrow>
          (if \<exists>n \<in> set names. 1 < length (filter (\<lambda>(k, _). k = n) kvs) then None
           else Some (False, map (map_of kvs) names))
      | DArr ds \<Rightarrow>
          (if length names < length ds then None
           else Some (True, map Some ds @ replicate (length names - length ds) None))
      | _ \<Rightarrow> None)"

fun as_string :: "doc \<Rightarrow> string option" where
  "as_string (DStr s) = Some s"
| "as_string _ = None"

fun as_bool :: "doc \<Rightarrow> bool option" where
  "as_bool (DBool b) = Some b"
| "as_bool _ = None"

text \<open>An unsigned integer below \<open>limit\<close> (\<open>2^32\<close> for u32, \<open>2^64\<close> for u64 and usize).\<close>

fun as_uint :: "int \<Rightarrow> doc \<Rightarrow> nat option" where
  "as_uint limit (DInt i) = (if 0 \<le> i \<and> i < limit then Some (nat i) else None)"
| "as_uint limit _ = None"

definition as_option :: "(doc \<Rightarrow> 'a option) \<Rightarrow> doc \<Rightarrow> 'a option option" where
  "as_option dec d = (if d = DNull then Some None else map_option Some (dec d))"

fun as_list :: "(doc \<Rightarrow> 'a option) \<Rightarrow> doc \<Rightarrow> 'a list option" where
  "as_list dec (DArr ds) = those (map dec ds)"
| "as_list dec _ = None"

text \<open>The three kinds of field: required, \<open>#[serde(default)]\<close>, and a bare \<open>Option\<close>.\<close>

definition required :: "(doc \<Rightarrow> 'a option) \<Rightarrow> doc option \<Rightarrow> 'a option" where
  "required dec f = (case f of None \<Rightarrow> None | Some d \<Rightarrow> dec d)"

definition defaulted :: "(doc \<Rightarrow> 'a option) \<Rightarrow> 'a \<Rightarrow> doc option \<Rightarrow> 'a option" where
  "defaulted dec dflt f = (case f of None \<Rightarrow> Some dflt | Some d \<Rightarrow> dec d)"

definition bare_option :: "(doc \<Rightarrow> 'a option) \<Rightarrow> bool \<Rightarrow> doc option \<Rightarrow> 'a option option" where
  "bare_option dec from_array f =
     (case f of None \<Rightarrow> if from_array then None else Some None | Some d \<Rightarrow> as_option dec d)"

lemmas decode_simps = struct_fields_def required_def defaulted_def bare_option_def as_option_def

lemma struct_fields_length: "struct_fields names d = Some (b, fs) \<Longrightarrow> length fs = length names"
  by (auto simp: struct_fields_def split: doc.splits if_splits)

end
