(* ===== verification/Http.thy ===== *)
theory Http
  imports Serde
begin

text \<open>
  The HTTP client (\<open>ureq\<close>) as the two clients of the repository use it. Neither configures
  redirects (\<open>scim.rs\<close> and \<open>oidc.rs\<close> set timeouts only), so the agent follows them by its defaults: a
  call is one request of the program and then whatever requests the agent makes on its own, up to
  the reply the call ends with. Agent and network are parameters: the last reply, the requests the
  agent adds and the time that passes may depend on everything sent before. The state records the
  requests of the program, those the agent added, and the monotonic clock in nanoseconds.
\<close>

datatype http_method = Get | Post

record request =
  rq_method :: http_method
  rq_url :: string
  rq_query :: "(string \<times> string) list"
  rq_authorization :: "string option"
  rq_form :: "(string \<times> string) list"

text \<open>
  How a call ends: without an answer (a failure of the connection, a timeout, too many redirects),
  or with the status and the body (which may fail to arrive) of the last answer.
\<close>

datatype reply = NoReply nat | Reply nat "string option"

datatype http_error = StatusCode nat | BadJson | Transport nat

record http_env =
  he_net :: "request list \<Rightarrow> request \<Rightarrow> reply \<times> nat"
  he_redirects :: "request list \<Rightarrow> request \<Rightarrow> request list"
  he_parse :: "string \<Rightarrow> doc option"
  he_percent_encode :: "(char \<Rightarrow> bool) \<Rightarrow> string \<Rightarrow> string"

record wire =
  sent :: "request list"
  redirected :: "request list"
  mono :: nat

text \<open>A request with \<open>http_status_as_error(false)\<close>.\<close>

definition http_send ::
  "http_env \<Rightarrow> request \<Rightarrow> ('z wire_scheme, nat \<times> string option, http_error) prog" where
  "http_send H rq w =
     (case he_net H (sent w) rq of (rep, dt) \<Rightarrow>
        (let w' = w\<lparr>sent := sent w @ [rq], redirected := redirected w @ he_redirects H (sent w) rq,
                   mono := mono w + dt\<rparr>
         in case rep of
              NoReply e \<Rightarrow> (Err (Transport e), w')
            | Reply status body \<Rightarrow> (Ok (status, body), w')))"

text \<open>
  The documented defaults of the agent: at most ten redirects are followed in a call
  (\<open>max_redirects\<close>), and none of these requests carries the \<open>Authorization\<close> header
  (\<open>redirect_auth_headers\<close> is \<open>Never\<close>).
\<close>

definition default_redirects :: "http_env \<Rightarrow> bool" where
  "default_redirects H \<longleftrightarrow>
     (\<forall>log rq. length (he_redirects H log rq) \<le> 10 \<and>
        list_all (\<lambda>r. rq_authorization r = None) (he_redirects H log rq))"

text \<open>By default ureq turns a 4xx or 5xx status into an error.\<close>

definition http_call ::
  "http_env \<Rightarrow> request \<Rightarrow> ('z wire_scheme, nat \<times> string option, http_error) prog" where
  "http_call H rq =
     bindp (http_send H rq) (\<lambda>(status, body).
       if 400 \<le> status \<and> status < 600 then fail (StatusCode status) else ret (status, body))"

definition read_body :: "string option \<Rightarrow> ('s, string, http_error) prog" where
  "read_body body = (case body of None \<Rightarrow> fail (Transport 0) | Some s \<Rightarrow> ret s)"

definition read_json ::
  "http_env \<Rightarrow> (doc \<Rightarrow> 'a option) \<Rightarrow> string option \<Rightarrow> ('s, 'a, http_error) prog" where
  "read_json H decode body =
     bindp (read_body body) (\<lambda>s.
       case Option.bind (he_parse H s) decode of
         None \<Rightarrow> fail BadJson
       | Some x \<Rightarrow> ret x)"

definition get_json ::
  "http_env \<Rightarrow> (doc \<Rightarrow> 'a option) \<Rightarrow> request \<Rightarrow> ('z wire_scheme, 'a, http_error) prog" where
  "get_json H decode rq = bindp (http_call H rq) (\<lambda>(_, body). read_json H decode body)"

section \<open>What a call does to the state\<close>

lemma http_send_keeps [preserved]:
  assumes "\<And>w dt. P w \<Longrightarrow> P (w\<lparr>sent := sent w @ [rq],
    redirected := redirected w @ he_redirects H (sent w) rq, mono := mono w + dt\<rparr>)"
  shows "keeps P (http_send H rq)"
  using assms by (auto simp: keeps_def http_send_def Let_def split: prod.split reply.split)

lemma http_call_keeps [preserved]:
  assumes "\<And>w dt. P w \<Longrightarrow> P (w\<lparr>sent := sent w @ [rq],
    redirected := redirected w @ he_redirects H (sent w) rq, mono := mono w + dt\<rparr>)"
  shows "keeps P (http_call H rq)"
  unfolding http_call_def
  by (intro preserved assms) (auto intro!: preserved split: prod.split)

lemma read_json_keeps [preserved]: "keeps P (read_json H d b)"
  unfolding read_json_def read_body_def by (intro preserved)

lemma get_json_keeps [preserved]:
  assumes "\<And>w dt. P w \<Longrightarrow> P (w\<lparr>sent := sent w @ [rq],
    redirected := redirected w @ he_redirects H (sent w) rq, mono := mono w + dt\<rparr>)"
  shows "keeps P (get_json H d rq)"
  unfolding get_json_def
  by (intro preserved assms) (auto intro!: preserved split: prod.split)

lemma http_send_result:
  "http_send H rq w = (r, w') \<Longrightarrow>
     (\<exists>dt. w' = w\<lparr>sent := sent w @ [rq],
        redirected := redirected w @ he_redirects H (sent w) rq, mono := mono w + dt\<rparr>) \<and> r \<noteq> Panic"
  by (auto simp: http_send_def Let_def split: prod.splits reply.splits)

lemma read_json_state: "read_json H d b w = (r, w') \<Longrightarrow> w' = w \<and> r \<noteq> Panic"
  by (auto simp: read_json_def read_body_def prog_inv split: option.splits)

lemma http_call_result:
  "http_call H rq w = (r, w') \<Longrightarrow>
     (\<exists>dt. w' = w\<lparr>sent := sent w @ [rq],
        redirected := redirected w @ he_redirects H (sent w) rq, mono := mono w + dt\<rparr>) \<and> r \<noteq> Panic"
  by (auto simp: http_call_def prog_inv dest!: http_send_result split: prod.splits if_splits)

lemma get_json_result:
  "get_json H d rq w = (r, w') \<Longrightarrow>
     (\<exists>dt. w' = w\<lparr>sent := sent w @ [rq],
        redirected := redirected w @ he_redirects H (sent w) rq, mono := mono w + dt\<rparr>) \<and> r \<noteq> Panic"
  by (auto simp: get_json_def prog_inv dest!: http_call_result read_json_state split: prod.splits)

lemma http_no_panic [panic_free]:
  "no_panic (http_send H rq)" "no_panic (http_call H rq)" "no_panic (read_body b)"
  "no_panic (read_json H d b)" "no_panic (get_json H d rq)"
proof -
  show send: "no_panic (http_send H rq)"
    by (auto simp: no_panic_def dest: http_send_result) (metis fst_conv http_send_result surj_pair)
  show "no_panic (http_call H rq)"
    unfolding http_call_def by (intro panic_free send)
  show "no_panic (read_body b)" "no_panic (read_json H d b)"
    unfolding read_body_def read_json_def by (intro panic_free)+
  show "no_panic (get_json H d rq)"
    unfolding get_json_def http_call_def read_json_def read_body_def by (intro panic_free send)
qed

end
