(* ===== verification/Scim.thy ===== *)
theory Scim
  imports Http
begin

text \<open>
  \<open>src/scim.rs\<close>: the SCIM 2.0 client. Resources are decoded by the rules of their structs, a
  name goes into a filter with its quotes escaped, an id goes into a path percent-encoded, and
  a listing follows \<open>startIndex\<close> for at most 1000 pages.
\<close>

section \<open>Resources\<close>

record group_ref =
  gref_value :: string
  gref_display :: "string option"

record scim_user =
  su_id :: string
  su_user_name :: string
  su_display_name :: "string option"
  su_active :: "bool option"
  su_groups :: "group_ref list"

record member_ref =
  mref_value :: string
  mref_display :: "string option"

record scim_group =
  sg_id :: string
  sg_display_name :: string
  sg_members :: "member_ref list"

record 'r list_response =
  total_results :: nat
  resources :: "'r list"

datatype scim_error =
    ScimHttp http_error
  | ScimJson nat
  | UserNotFound string
  | GroupNotFound string

definition decode_group_ref :: "doc \<Rightarrow> group_ref option" where
  "decode_group_ref d =
     (case struct_fields [''value'', ''display''] d of
        Some (_, [v, n]) \<Rightarrow>
          Option.bind (required as_string v) (\<lambda>value.
          Option.bind (defaulted (as_option as_string) None n) (\<lambda>display.
            Some \<lparr>gref_value = value, gref_display = display\<rparr>))
      | _ \<Rightarrow> None)"

definition decode_member_ref :: "doc \<Rightarrow> member_ref option" where
  "decode_member_ref d =
     (case struct_fields [''value'', ''display''] d of
        Some (_, [v, n]) \<Rightarrow>
          Option.bind (required as_string v) (\<lambda>value.
          Option.bind (defaulted (as_option as_string) None n) (\<lambda>display.
            Some \<lparr>mref_value = value, mref_display = display\<rparr>))
      | _ \<Rightarrow> None)"

definition decode_scim_user :: "doc \<Rightarrow> scim_user option" where
  "decode_scim_user d =
     (case struct_fields [''id'', ''userName'', ''displayName'', ''active'', ''groups''] d of
        Some (_, [i, u, n, a, g]) \<Rightarrow>
          Option.bind (required as_string i) (\<lambda>ident.
          Option.bind (required as_string u) (\<lambda>user_name.
          Option.bind (defaulted (as_option as_string) None n) (\<lambda>display_name.
          Option.bind (defaulted (as_option as_bool) None a) (\<lambda>active.
          Option.bind (defaulted (as_list decode_group_ref) [] g) (\<lambda>groups.
            Some \<lparr>su_id = ident, su_user_name = user_name, su_display_name = display_name,
                  su_active = active, su_groups = groups\<rparr>)))))
      | _ \<Rightarrow> None)"

definition decode_scim_group :: "doc \<Rightarrow> scim_group option" where
  "decode_scim_group d =
     (case struct_fields [''id'', ''displayName'', ''members''] d of
        Some (_, [i, n, m]) \<Rightarrow>
          Option.bind (required as_string i) (\<lambda>ident.
          Option.bind (required as_string n) (\<lambda>display_name.
          Option.bind (defaulted (as_list decode_member_ref) [] m) (\<lambda>members.
            Some \<lparr>sg_id = ident, sg_display_name = display_name, sg_members = members\<rparr>)))
      | _ \<Rightarrow> None)"

definition decode_list_response :: "(doc \<Rightarrow> 'r option) \<Rightarrow> doc \<Rightarrow> 'r list_response option" where
  "decode_list_response dec d =
     (case struct_fields [''totalResults'', ''Resources''] d of
        Some (_, [t, r]) \<Rightarrow>
          Option.bind (defaulted (as_uint 18446744073709551616) 0 t) (\<lambda>total.
          Option.bind (defaulted (as_list dec) [] r) (\<lambda>rs.
            Some \<lparr>total_results = total, resources = rs\<rparr>))
      | _ \<Rightarrow> None)"

section \<open>Escaping\<close>

text \<open>
  The loop goes over characters; both escaped ones are ASCII, so going over the bytes of the
  UTF-8 string does the same.
\<close>

fun escape_filter_value :: "string \<Rightarrow> string" where
  "escape_filter_value [] = []"
| "escape_filter_value (ch # rest) =
     (if ch = CHR 0x5C then [CHR 0x5C, CHR 0x5C]
      else if ch = CHR 0x22 then [CHR 0x5C, CHR 0x22]
      else [ch]) @ escape_filter_value rest"

text \<open>\<open>PATH_SEGMENT_ENCODE\<close>: the controls (0 to 31 and 127) and the listed characters.\<close>

definition path_segment_encode :: "char \<Rightarrow> bool" where
  "path_segment_encode c \<longleftrightarrow>
     of_char c < (32 :: nat) \<or> of_char c = (127 :: nat) \<or>
     c \<in> set [CHR '' '', CHR 0x22, CHR ''#'', CHR ''%'', CHR ''/'', CHR ''?'', CHR ''['', CHR '']'',
              CHR ''<'', CHR ''>'', CHR ''^'', CHR 0x60, CHR ''{'', CHR ''|'', CHR ''}'']"

section \<open>The client\<close>

record scim_client =
  sc_base_url :: string
  sc_bearer_token :: string

definition scim_client_new :: "string \<Rightarrow> string \<Rightarrow> scim_client" where
  "scim_client_new base_url bearer_token =
     \<lparr>sc_base_url = trim_end_char CHR ''/'' base_url, sc_bearer_token = bearer_token\<rparr>"

definition auth_header_value :: "scim_client \<Rightarrow> string" where
  "auth_header_value c = ''Bearer '' @ sc_bearer_token c"

text \<open>\<open>GET url?query\<close> with the \<open>Authorization\<close> header.\<close>

definition scim_request :: "scim_client \<Rightarrow> string \<Rightarrow> (string \<times> string) list \<Rightarrow> request" where
  "scim_request c url query =
     \<lparr>rq_method = Get, rq_url = url, rq_query = query,
      rq_authorization = Some (auth_header_value c), rq_form = []\<rparr>"

definition name_filter :: "string \<Rightarrow> string \<Rightarrow> string" where
  "name_filter attr name = attr @ '' eq '' @ [CHR 0x22] @ escape_filter_value name @ [CHR 0x22]"

definition scim_get_user_by_name ::
  "http_env \<Rightarrow> scim_client \<Rightarrow> string \<Rightarrow> ('z wire_scheme, scim_user option, scim_error) prog" where
  "scim_get_user_by_name H c name =
     tryp ScimHttp
       (get_json H (decode_list_response decode_scim_user)
          (scim_request c (sc_base_url c @ ''/Users'') [(''filter'', name_filter ''userName'' name)]))
       (\<lambda>resp. ret (case resources resp of [] \<Rightarrow> None | u # _ \<Rightarrow> Some u))"

definition scim_get_group_by_name ::
  "http_env \<Rightarrow> scim_client \<Rightarrow> string \<Rightarrow> ('z wire_scheme, scim_group option, scim_error) prog" where
  "scim_get_group_by_name H c name =
     tryp ScimHttp
       (get_json H (decode_list_response decode_scim_group)
          (scim_request c (sc_base_url c @ ''/Groups'') [(''filter'', name_filter ''displayName'' name)]))
       (\<lambda>resp. ret (case resources resp of [] \<Rightarrow> None | g # _ \<Rightarrow> Some g))"

definition scim_get_user_by_id ::
  "http_env \<Rightarrow> scim_client \<Rightarrow> string \<Rightarrow> ('z wire_scheme, scim_user option, scim_error) prog" where
  "scim_get_user_by_id H c ident =
     matchp
       (http_call H (scim_request c
          (sc_base_url c @ ''/Users/'' @ he_percent_encode H path_segment_encode ident) []))
       (\<lambda>(_, body). tryp ScimHttp (read_json H decode_scim_user body) (\<lambda>u. ret (Some u)))
       (\<lambda>e. if e = StatusCode 404 then ret None else fail (ScimHttp e))"

definition scim_get_group_by_id ::
  "http_env \<Rightarrow> scim_client \<Rightarrow> string \<Rightarrow> ('z wire_scheme, scim_group option, scim_error) prog" where
  "scim_get_group_by_id H c ident =
     matchp
       (http_call H (scim_request c
          (sc_base_url c @ ''/Groups/'' @ he_percent_encode H path_segment_encode ident) []))
       (\<lambda>(_, body). tryp ScimHttp (read_json H decode_scim_group body) (\<lambda>g. ret (Some g)))
       (\<lambda>e. if e = StatusCode 404 then ret None else fail (ScimHttp e))"

definition is_online :: "http_env \<Rightarrow> scim_client \<Rightarrow> ('z wire_scheme, bool, scim_error) prog" where
  "is_online H c =
     matchp (http_call H (scim_request c (sc_base_url c @ ''/Users'') [(''count'', ''0'')]))
       (\<lambda>_. ret True) (\<lambda>_. ret False)"

section \<open>Listings\<close>

definition max_pagination_pages :: nat where
  "max_pagination_pages = 1000"

definition page_count :: nat where
  "page_count = 100"

definition page_request :: "scim_client \<Rightarrow> string \<Rightarrow> nat \<Rightarrow> request" where
  "page_request c resource start_index =
     scim_request c (sc_base_url c @ ''/'' @ resource)
       [(''startIndex'', dec_str start_index), (''count'', dec_str page_count)]"

text \<open>
  The loop over pages. The result also says whether the listing was complete; the source only
  logs a warning when it was not.
\<close>

primrec paginate_pages ::
  "http_env \<Rightarrow> scim_client \<Rightarrow> (doc \<Rightarrow> 'r option) \<Rightarrow> string \<Rightarrow> nat \<Rightarrow> nat \<Rightarrow> 'r list \<Rightarrow>
   ('z wire_scheme, 'r list \<times> bool, scim_error) prog"
where
  "paginate_pages H c dec resource 0 start_index all = ret (all, False)"
| "paginate_pages H c dec resource (Suc pages) start_index all =
     tryp ScimHttp
       (get_json H (decode_list_response dec) (page_request c resource start_index))
       (\<lambda>resp.
          let fetched = length (resources resp); all' = all @ resources resp
          in if total_results resp \<le> length all' \<or> fetched = 0 then ret (all', True)
             else paginate_pages H c dec resource pages (start_index + fetched) all')"

definition paginate_list ::
  "http_env \<Rightarrow> scim_client \<Rightarrow> (doc \<Rightarrow> 'r option) \<Rightarrow> string \<Rightarrow>
   ('z wire_scheme, 'r list, scim_error) prog"
where
  "paginate_list H c dec resource =
     bindp (paginate_pages H c dec resource max_pagination_pages 1 []) (\<lambda>(all, _). ret all)"

definition list_users ::
  "http_env \<Rightarrow> scim_client \<Rightarrow> ('z wire_scheme, scim_user list, scim_error) prog" where
  "list_users H c = paginate_list H c decode_scim_user ''Users''"

definition list_groups ::
  "http_env \<Rightarrow> scim_client \<Rightarrow> ('z wire_scheme, scim_group list, scim_error) prog" where
  "list_groups H c = paginate_list H c decode_scim_group ''Groups''"

end
