(* ===== verification/Scim_Laws.thy ===== *)
theory Scim_Laws
  imports Scim
begin

text \<open>
  What the SCIM client promises: a name cannot leave its quotes in a filter, every request it
  makes goes below the configured base URL with the bearer token (what the agent adds when it follows
  redirects is counted apart), and a listing is bounded and, from a server that pages consistently,
  complete.
\<close>

section \<open>An escaped name is a JSON string\<close>

text \<open>
  The values of a filter are JSON strings (RFC 7644, section 3.4.2.2). The text after the opening
  quote is read by the grammar of RFC 8259, section 7: a quote ends the string, a backslash starts
  one of the named escapes or \<open>u\<close> and hexadecimal digits, no control character may stand as it
  is. What \<open>u\<close> stands for (the bytes, and how much of the text they take) is left to \<open>hex\<close>: the
  client writes no such escape. The result is the value and what follows the string.
\<close>

definition json_escape :: "char \<Rightarrow> char option" where
  "json_escape = map_of [(CHR 0x22, CHR 0x22), (CHR 0x5C, CHR 0x5C), (CHR ''/'', CHR ''/''),
     (CHR ''b'', CHR 0x08), (CHR ''f'', CHR 0x0C), (CHR ''n'', CHR 0x0A), (CHR ''r'', CHR 0x0D), (CHR ''t'', CHR 0x09)]"

definition control_char :: "char \<Rightarrow> bool" where
  "control_char c \<longleftrightarrow> of_char c < (32 :: nat)"

abbreviation (input) preceded :: "string \<Rightarrow> (string \<times> string) option \<Rightarrow> (string \<times> string) option" where
  "preceded bytes \<equiv> map_option (\<lambda>(v, rest). (bytes @ v, rest))"

fun read_json_string :: "(string \<Rightarrow> (string \<times> nat) option) \<Rightarrow> string \<Rightarrow> (string \<times> string) option" where
  "read_json_string hex [] = None"
| "read_json_string hex [c] = (if c = CHR 0x22 then Some ([], []) else None)"
| "read_json_string hex (c # d # s) =
     (if c = CHR 0x22 then Some ([], d # s)
      else if control_char c then None
      else if c = CHR 0x5C then
        (case json_escape d of
           Some e \<Rightarrow> preceded [e] (read_json_string hex s)
         | None \<Rightarrow>
             (if d = CHR ''u'' then
                (case hex s of
                   None \<Rightarrow> None
                 | Some (bytes, n) \<Rightarrow> preceded bytes (read_json_string hex (drop n s)))
              else None))
      else preceded [c] (read_json_string hex (d # s)))"

lemma read_json_plain:
  assumes "c \<noteq> CHR 0x22" "c \<noteq> CHR 0x5C"
  shows "read_json_string hex (c # s) = (if control_char c then None else preceded [c] (read_json_string hex s))"
  using assms by (cases s) simp_all

lemma read_json_escaped:
  "read_json_string hex (escape_filter_value s @ [CHR 0x22]) =
     (if list_ex control_char s then None else Some (s, []))"
proof (induction s)
  case (Cons ch s)
  consider "ch = CHR 0x5C" | "ch = CHR 0x22" | "ch \<noteq> CHR 0x5C" "ch \<noteq> CHR 0x22" by blast
  then show ?case
    by cases (simp_all add: Cons.IH read_json_plain json_escape_def control_char_def)
qed simp

lemma escape_filter_value_inj: "escape_filter_value s = escape_filter_value t \<Longrightarrow> s = t"
proof (induction s arbitrary: t)
  case Nil
  then show ?case by (cases t) (auto split: if_splits)
next
  case (Cons c s)
  then show ?case by (cases t) (auto split: if_splits)
qed

section \<open>Where requests go\<close>

text \<open>A request the client may send: to its base URL, with its token.\<close>

definition own_request :: "scim_client \<Rightarrow> request \<Rightarrow> bool" where
  "own_request c rq \<longleftrightarrow>
     rq_method rq = Get \<and> rq_form rq = [] \<and>
     (\<exists>path. rq_url rq = sc_base_url c @ ''/'' @ path) \<and>
     rq_authorization rq = Some (''Bearer '' @ sc_bearer_token c)"

lemma own_scim_request [simp]: "own_request c (scim_request c (sc_base_url c @ CHR ''/'' # path) q)"
  by (simp add: own_request_def scim_request_def auth_header_value_def)

text \<open>A point in the traffic: how many requests the program and the agent have made by then.\<close>

definition wire_mark :: "'z wire_scheme \<Rightarrow> nat \<times> nat" where
  "wire_mark w = (length (sent w), length (redirected w))"

text \<open>
  Since a point, all requests of the program satisfy a predicate, and the agent has added at most
  ten for each of them, none with an \<open>Authorization\<close> header, if it follows redirects as documented.
\<close>

definition agent_since :: "nat \<times> nat \<Rightarrow> 'z wire_scheme \<Rightarrow> bool" where
  "agent_since p w \<longleftrightarrow>
     list_all (\<lambda>r. rq_authorization r = None) (drop (snd p) (redirected w)) \<and>
     length (redirected w) - snd p \<le> 10 * (length (sent w) - fst p)"

definition sent_since :: "http_env \<Rightarrow> nat \<times> nat \<Rightarrow> (request \<Rightarrow> bool) \<Rightarrow> 'z wire_scheme \<Rightarrow> bool" where
  "sent_since H p Q w \<longleftrightarrow>
     fst p \<le> length (sent w) \<and> snd p \<le> length (redirected w) \<and>
     list_all Q (drop (fst p) (sent w)) \<and> (default_redirects H \<longrightarrow> agent_since p w)"

lemma sent_since_step:
  assumes "sent_since H p Q w" "Q rq"
  shows "sent_since H p Q
    (w\<lparr>sent := sent w @ [rq], redirected := redirected w @ he_redirects H (sent w) rq, mono := t\<rparr>)"
proof -
  have "length (he_redirects H (sent w) rq) \<le> 10" if "default_redirects H"
    using that by (simp add: default_redirects_def)
  then show ?thesis
    using assms by (fastforce simp: sent_since_def agent_since_def default_redirects_def)
qed

text \<open>
  The token stays with the directory: the program makes own requests only, and if the agent follows
  redirects as documented, it adds at most ten requests for each, all without the token.
\<close>

definition token_confined :: "scim_client \<Rightarrow> 'z wire_scheme \<Rightarrow> 'z wire_scheme \<Rightarrow> bool" where
  "token_confined c w w' \<longleftrightarrow>
     (\<forall>rq \<in> set (drop (length (sent w)) (sent w')). own_request c rq) \<and>
     (\<forall>rq \<in> set (drop (length (redirected w)) (redirected w')). rq_authorization rq = None) \<and>
     length (redirected w') - length (redirected w) \<le> 10 * (length (sent w') - length (sent w))"

lemma token_confinedI:
  "sent_since H (wire_mark w) (own_request c) w' \<Longrightarrow> default_redirects H \<Longrightarrow> token_confined c w w'"
  by (auto simp: sent_since_def agent_since_def wire_mark_def token_confined_def list_all_iff)

lemma sent_since_mark [simp]: "sent_since H (wire_mark w) Q w"
  by (simp add: sent_since_def wire_mark_def agent_since_def)

lemma scim_user_by_name_own: "keeps (sent_since H p (own_request c)) (scim_get_user_by_name H c x)"
  unfolding scim_get_user_by_name_def by (intro preserved sent_since_step) simp_all

lemma scim_group_by_name_own: "keeps (sent_since H p (own_request c)) (scim_get_group_by_name H c x)"
  unfolding scim_get_group_by_name_def by (intro preserved sent_since_step) simp_all

lemma scim_by_id_own:
  "keeps (sent_since H p (own_request c)) (scim_get_user_by_id H c x)"
  "keeps (sent_since H p (own_request c)) (scim_get_group_by_id H c x)"
  unfolding scim_get_user_by_id_def scim_get_group_by_id_def
  by (intro preserved sent_since_step; auto intro!: preserved split: prod.split)+

lemma is_online_own: "keeps (sent_since H p (own_request c)) (is_online H c)"
  unfolding is_online_def by (intro preserved sent_since_step) simp_all

lemma page_request_own [simp]: "own_request c (page_request c r i)"
  by (simp add: page_request_def own_request_def scim_request_def auth_header_value_def)

lemma paginate_pages_own:
  "keeps (sent_since H p (own_request c)) (paginate_pages H c dec r pages i all)"
  by (induction pages arbitrary: i all)
    (auto simp: Let_def intro!: preserved sent_since_step)

lemma paginate_list_own: "keeps (sent_since H p (own_request c)) (paginate_list H c dec r)"
  unfolding paginate_list_def
  by (intro preserved paginate_pages_own)

lemmas scim_own_requests = scim_user_by_name_own scim_group_by_name_own scim_by_id_own
  is_online_own paginate_list_own

section \<open>Listings\<close>

lemma paginate_pages_result:
  assumes "paginate_pages H c dec r pages i all w = (res, w')"
  shows "res \<noteq> Panic \<and> length (sent w') \<le> length (sent w) + pages"
  using assms
proof (induction pages arbitrary: i all w)
  case 0
  then show ?case by (simp add: prog_inv)
next
  case (Suc pages)
  obtain g t where call: "get_json H (decode_list_response dec) (page_request c r i) w = (g, t)"
    by (cases "get_json H (decode_list_response dec) (page_request c r i) w")
  then have t: "length (sent t) = Suc (length (sent w))" "g \<noteq> Panic"
    by (auto dest: get_json_result)
  show ?case
  proof (cases g)
    case (Ok resp)
    with Suc.prems call have "(if total_results resp \<le> length (all @ resources resp) \<or> resources resp = []
        then ret (all @ resources resp, True)
        else paginate_pages H c dec r pages (i + length (resources resp)) (all @ resources resp)) t = (res, w')"
      by (simp add: prog_simps Let_def)
    with Suc.IH t(1) show ?thesis by (fastforce simp: prog_inv split: if_splits)
  next
    case (Err e)
    with Suc.prems call t show ?thesis by (auto simp: prog_simps)
  next
    case Panic
    with t show ?thesis by simp
  qed
qed

text \<open>
  A server that pages a list consistently: asked from any index the client can reach, it
  reports the whole length and gives the next \<open>p\<close> entries, or what is left of them.
\<close>

definition serves_pages ::
  "http_env \<Rightarrow> scim_client \<Rightarrow> (doc \<Rightarrow> 'r option) \<Rightarrow> string \<Rightarrow> 'r list \<Rightarrow> nat \<Rightarrow> bool" where
  "serves_pages H c dec resource xs p \<longleftrightarrow>
     0 < p \<and>
     (\<forall>log i. i = 1 \<or> 1 \<le> i \<and> i \<le> length xs \<longrightarrow>
        (\<exists>status body d dt.
           he_net H log (page_request c resource i) = (Reply status (Some body), dt) \<and>
           status < 400 \<and> he_parse H body = Some d \<and>
           decode_list_response dec d =
             Some \<lparr>total_results = length xs, resources = take p (drop (i - 1) xs)\<rparr>))"

lemma serves_page:
  assumes "serves_pages H c dec resource xs p" "i = 1 \<or> 1 \<le> i \<and> i \<le> length xs"
  shows "\<exists>w'. get_json H (decode_list_response dec) (page_request c resource i) w =
      (Ok \<lparr>total_results = length xs, resources = take p (drop (i - 1) xs)\<rparr>, w') \<and>
    sent w' = sent w @ [page_request c resource i]"
proof -
  from assms(1) have "\<forall>log i. i = 1 \<or> 1 \<le> i \<and> i \<le> length xs \<longrightarrow>
        (\<exists>status body d dt.
           he_net H log (page_request c resource i) = (Reply status (Some body), dt) \<and>
           status < 400 \<and> he_parse H body = Some d \<and>
           decode_list_response dec d =
             Some \<lparr>total_results = length xs, resources = take p (drop (i - 1) xs)\<rparr>)"
    unfolding serves_pages_def by (rule conjunct2)
  from this [rule_format, OF assms(2), of "sent w"] obtain status body d dt where
    "he_net H (sent w) (page_request c resource i) = (Reply status (Some body), dt)"
    "status < 400" "he_parse H body = Some d"
    "decode_list_response dec d = Some \<lparr>total_results = length xs, resources = take p (drop (i - 1) xs)\<rparr>"
    by (elim exE conjE)
  note server = this
  define rq where "rq = page_request c resource i"
  define w' where "w' = w\<lparr>sent := sent w @ [rq], redirected := redirected w @ he_redirects H (sent w) rq, mono := mono w + dt\<rparr>"
  have "http_send H rq w = (Ok (status, Some body), w')"
    using server(1) by (simp add: http_send_def rq_def w'_def Let_def)
  then have "http_call H rq w = (Ok (status, Some body), w')"
    using server(2) by (simp add: http_call_def prog_simps)
  moreover have "read_json H (decode_list_response dec) (Some body) w' =
      (Ok \<lparr>total_results = length xs, resources = take p (drop (i - 1) xs)\<rparr>, w')"
    using server(3,4) by (simp add: read_json_def read_body_def prog_simps)
  ultimately have "get_json H (decode_list_response dec) rq w =
      (Ok \<lparr>total_results = length xs, resources = take p (drop (i - 1) xs)\<rparr>, w')"
    by (simp add: get_json_def prog_simps)
  then show ?thesis unfolding rq_def w'_def by simp
qed

text \<open>The loop, entered with the first \<open>k\<close> entries in hand and enough pages left.\<close>

lemma paginate_pages_complete:
  assumes serves: "serves_pages H c dec resource xs p"
    and "k < length xs \<or> k = 0" "length xs \<le> k + pages * p" "0 < pages"
  shows "\<exists>w'. paginate_pages H c dec resource pages (k + 1) (take k xs) w = (Ok (xs, True), w')"
  using assms(2-)
proof (induction pages arbitrary: k w)
  case (Suc pages)
  have p: "0 < p" using serves by (simp add: serves_pages_def)
  have idx: "k + 1 = 1 \<or> 1 \<le> k + 1 \<and> k + 1 \<le> length xs" using Suc.prems(1) by auto
  obtain t where call: "get_json H (decode_list_response dec) (page_request c resource (k + 1)) w =
      (Ok \<lparr>total_results = length xs, resources = take p (drop k xs)\<rparr>, t)"
    using serves_page [OF serves idx, of w] by auto
  have got: "take k xs @ take p (drop k xs) = take (k + p) xs" by (simp add: take_add)
  show ?case
  proof (cases "k + p < length xs")
    case False
    then have "take (k + p) xs = xs" by simp
    with call got show ?thesis by (auto simp: prog_simps Let_def)
  next
    case True
    then have len: "length (take p (drop k xs)) = p" "\<not> length xs \<le> length (take (k + p) xs)"
      by auto
    from True Suc.prems(2) have "0 < pages" by (cases pages) auto
    then obtain w' where "paginate_pages H c dec resource pages (k + p + 1) (take (k + p) xs) t =
        (Ok (xs, True), w')"
      using Suc.IH [of "k + p" t] True Suc.prems(2) by (auto simp: algebra_simps)
    with call got len p show ?thesis by (simp add: prog_simps Let_def ac_simps)
  qed
qed simp

lemma paginate_list_complete:
  assumes "serves_pages H c dec resource xs p" "length xs \<le> 1000 * p"
  shows "fst (paginate_list H c dec resource w) = Ok xs"
  using paginate_pages_complete [OF assms(1), of 0 max_pagination_pages w] assms(2)
  by (auto simp: paginate_list_def max_pagination_pages_def prog_simps)

lemma paginate_list_run:
  "fst (paginate_list H c dec resource w) \<noteq> Panic \<and>
   length (sent (snd (paginate_list H c dec resource w))) \<le> length (sent w) + 1000"
proof -
  obtain r w' where run: "paginate_pages H c dec resource max_pagination_pages 1 [] w = (r, w')"
    by (cases "paginate_pages H c dec resource max_pagination_pages 1 [] w")
  from paginate_pages_result [OF run] show ?thesis
    unfolding paginate_list_def bindp_def matchp_def run
    by (cases r) (auto simp: ret_def fail_def max_pagination_pages_def)
qed

section \<open>What the client promises\<close>

text \<open>C20: A name put in a filter is the JSON string the standard asks for, and a reader of JSON strings gets
  back exactly the name with nothing of the filter left over: no name can end its string early. This is
  so exactly for the names without control characters; with one, the value is no JSON string at all.\<close>

theorem name_filter_is_json_string:
  "\<exists>text. name_filter attr name = attr @ '' eq '' @ [CHR 0x22] @ text \<and>
     read_json_string hex text = (if list_ex control_char name then None else Some (name, []))"
  using read_json_escaped [of hex name] by (simp add: name_filter_def)

text \<open>A listing sends at most 1000 requests, whatever the server answers, and never panics.\<close>

theorem paginate_list_bounded:
  "fst (paginate_list H c dec resource w) \<noteq> Panic \<and>
   length (sent (snd (paginate_list H c dec resource w))) \<le> length (sent w) + 1000"
  by (rule paginate_list_run)

text \<open>C21: from a server that pages its list consistently, in pages of any size of which 1000 are
  enough, a listing returns the whole list, in order, nothing twice and nothing missing.\<close>

theorem listing_complete:
  assumes "serves_pages H c dec resource xs p" "length xs \<le> 1000 * p"
  shows "fst (paginate_list H c dec resource w) = Ok xs"
  using paginate_list_complete [OF assms] .

text \<open>A server with three users, two to a page; the body is the index asked for.\<close>

definition sample_scim_user :: "string \<Rightarrow> scim_user" where
  "sample_scim_user x = \<lparr>su_id = x, su_user_name = x, su_display_name = None, su_active = None, su_groups = []\<rparr>"

definition sample_page :: "string list \<Rightarrow> (string \<times> doc) list" where
  "sample_page ids = [(''totalResults'', DInt 3),
     (''Resources'', DArr (map (\<lambda>x. DObj [(''id'', DStr x), (''userName'', DStr x)]) ids))]"

definition sample_http :: http_env where
  "sample_http = \<lparr>
     he_net = (\<lambda>log rq. (Reply 200 (Some (snd (hd (rq_query rq)))), 1)),
     he_redirects = (\<lambda>_ _. []),
     he_parse = (\<lambda>s. if s = ''1'' then Some (DObj (sample_page [''a'', ''b'']))
                      else if s = ''2'' then Some (DObj (sample_page [''b'', ''c'']))
                      else Some (DObj (sample_page [''c'']))),
     he_percent_encode = (\<lambda>_ s. s)\<rparr>"

lemma sample_serves:
  "serves_pages sample_http (scim_client_new ''https://idp/'' ''t'') decode_scim_user ''Users''
     (map sample_scim_user [''a'', ''b'', ''c'']) 2"
proof -
  have dec: "dec_str (Suc 0) = ''1''" "dec_str 2 = ''2''" "dec_str 3 = ''3''" by code_simp+
  have pages: "decode_list_response decode_scim_user (DObj (sample_page [''a'', ''b''])) =
      Some \<lparr>total_results = 3, resources = map sample_scim_user [''a'', ''b'']\<rparr>"
    "decode_list_response decode_scim_user (DObj (sample_page [''b'', ''c''])) =
      Some \<lparr>total_results = 3, resources = map sample_scim_user [''b'', ''c'']\<rparr>"
    "decode_list_response decode_scim_user (DObj (sample_page [''c''])) =
      Some \<lparr>total_results = 3, resources = map sample_scim_user [''c'']\<rparr>"
    by code_simp+
  have one: "\<exists>status body d dt.
      he_net sample_http log (page_request cl ''Users'' i) = (Reply status (Some body), dt) \<and>
      status < 400 \<and> he_parse sample_http body = Some d \<and>
      decode_list_response decode_scim_user d = Some \<lparr>total_results = 3,
        resources = take 2 (drop (i - 1) (map sample_scim_user [''a'', ''b'', ''c'']))\<rparr>"
    if "i = 1 \<or> i = 2 \<or> i = 3" for log i cl
    using that
    by (elim disjE) (simp_all add: sample_http_def page_request_def scim_request_def dec pages)
  show ?thesis
    unfolding serves_pages_def
  proof (intro conjI allI impI, simp)
    fix log :: "request list" and i :: nat
    assume "i = 1 \<or> 1 \<le> i \<and> i \<le> length (map sample_scim_user [''a'', ''b'', ''c''])"
    then have "i = 1 \<or> i = 2 \<or> i = 3" by (simp, arith)
    from one [OF this, of log "scim_client_new ''https://idp/'' ''t''"]
    show "\<exists>status body d dt.
      he_net sample_http log (page_request (scim_client_new ''https://idp/'' ''t'') ''Users'' i) =
        (Reply status (Some body), dt) \<and>
      status < 400 \<and> he_parse sample_http body = Some d \<and>
      decode_list_response decode_scim_user d = Some \<lparr>total_results = length (map sample_scim_user [''a'', ''b'', ''c'']),
        resources = take 2 (drop (i - 1) (map sample_scim_user [''a'', ''b'', ''c'']))\<rparr>"
      by (simp add: numeral_3_eq_3)
  qed
qed

theorem listing_complete_witness:
  "fst (paginate_list sample_http (scim_client_new ''https://idp/'' ''t'') decode_scim_user ''Users''
     \<lparr>sent = [], redirected = [], mono = 0\<rparr>) = Ok (map sample_scim_user [''a'', ''b'', ''c''])"
  by (rule listing_complete [OF sample_serves]) simp

end
