(* ===== verification/Config.thy ===== *)
theory Config
  imports Serde Os_Files
begin

unbundle bit_operations_syntax

text \<open>
  \<open>src/config.rs\<close>: the configuration structs with their serde defaults, loading the file and
  the bearer token, and the permission check on the token file (its Linux variant). The TOML
  parser is the parameter \<open>parse_toml\<close>; the state is the file system.
\<close>

datatype config_error =
    ConfigRead string io_error
  | ConfigParse
  | ConfigInsecurePermissions string perm_detail

datatype offline_auth_policy = CachedStatus | Deny

record security_config =
  offline_policy :: offline_auth_policy

record scim_config =
  cs_base_url :: string
  cs_bearer_token_file :: string
  cs_bearer_token :: string

record oidc_config =
  co_issuer_url :: string
  co_client_id :: string
  co_client_secret :: "string option"
  co_allow_insecure :: bool

record mapping_config =
  uid_range_min :: u32
  uid_range_size :: u32
  gid_range_min :: u32
  gid_range_size :: u32

record user_defaults_config =
  ud_shell :: string
  ud_home_template :: string

record cache_config =
  cc_db_path :: string
  cc_ttl_seconds :: u64

record config =
  cfg_scim :: scim_config
  cfg_oidc :: oidc_config
  cfg_mapping :: mapping_config
  cfg_user_defaults :: user_defaults_config
  cfg_cache :: cache_config
  cfg_security :: security_config

section \<open>Defaults\<close>

definition default_config_path :: string where
  "default_config_path = ''/etc/sssd-oidc/config.toml''"

definition config_env_var :: string where
  "config_env_var = ''SSSD_OIDC_CONFIG''"

definition default_bearer_token_file :: string where
  "default_bearer_token_file = ''/etc/sssd-oidc/scim-token''"

definition default_range_min :: u32 where
  "default_range_min = 200000"

definition default_range_size :: u32 where
  "default_range_size = 200000"

definition default_shell :: string where
  "default_shell = ''/bin/bash''"

definition default_home_template :: string where
  "default_home_template = ''/home/{user}''"

definition default_cache_ttl :: u64 where
  "default_cache_ttl = 3600"

definition default_cache_path :: string where
  "default_cache_path = ''/var/lib/sssd-oidc/cache.db''"

definition default_mapping :: mapping_config where
  "default_mapping =
     \<lparr>uid_range_min = default_range_min, uid_range_size = default_range_size,
      gid_range_min = default_range_min, gid_range_size = default_range_size\<rparr>"

definition default_user_defaults :: user_defaults_config where
  "default_user_defaults = \<lparr>ud_shell = default_shell, ud_home_template = default_home_template\<rparr>"

definition default_cache :: cache_config where
  "default_cache = \<lparr>cc_db_path = default_cache_path, cc_ttl_seconds = default_cache_ttl\<rparr>"

definition default_security :: security_config where
  "default_security = \<lparr>offline_policy = CachedStatus\<rparr>"

section \<open>Decoding\<close>

definition as_u32 :: "doc \<Rightarrow> u32 option" where
  "as_u32 d = map_option word_of_nat (as_uint 4294967296 d)"

definition as_u64 :: "doc \<Rightarrow> u64 option" where
  "as_u64 d = map_option word_of_nat (as_uint 18446744073709551616 d)"

fun decode_offline_policy :: "doc \<Rightarrow> offline_auth_policy option" where
  "decode_offline_policy (DStr s) =
     (if s = ''cached_status'' then Some CachedStatus
      else if s = ''deny'' then Some Deny
      else None)"
| "decode_offline_policy _ = None"

definition decode_security :: "doc \<Rightarrow> security_config option" where
  "decode_security d =
     (case struct_fields [''offline_auth_policy''] d of
        Some (_, [p]) \<Rightarrow>
          Option.bind (defaulted decode_offline_policy CachedStatus p) (\<lambda>policy.
            Some \<lparr>offline_policy = policy\<rparr>)
      | _ \<Rightarrow> None)"

definition decode_scim_config :: "doc \<Rightarrow> scim_config option" where
  "decode_scim_config d =
     (case struct_fields [''base_url'', ''bearer_token_file''] d of
        Some (_, [b, f]) \<Rightarrow>
          Option.bind (required as_string b) (\<lambda>base_url.
          Option.bind (defaulted as_string default_bearer_token_file f) (\<lambda>file.
            Some \<lparr>cs_base_url = base_url, cs_bearer_token_file = file, cs_bearer_token = []\<rparr>))
      | _ \<Rightarrow> None)"

definition decode_oidc_config :: "doc \<Rightarrow> oidc_config option" where
  "decode_oidc_config d =
     (case struct_fields [''issuer_url'', ''client_id'', ''client_secret'', ''allow_insecure''] d of
        Some (_, [i, c, s, a]) \<Rightarrow>
          Option.bind (required as_string i) (\<lambda>issuer_url.
          Option.bind (required as_string c) (\<lambda>client_id.
          Option.bind (defaulted (as_option as_string) None s) (\<lambda>client_secret.
          Option.bind (defaulted as_bool False a) (\<lambda>allow_insecure.
            Some \<lparr>co_issuer_url = issuer_url, co_client_id = client_id,
                  co_client_secret = client_secret, co_allow_insecure = allow_insecure\<rparr>))))
      | _ \<Rightarrow> None)"

definition decode_mapping :: "doc \<Rightarrow> mapping_config option" where
  "decode_mapping d =
     (case struct_fields [''uid_range_min'', ''uid_range_size'', ''gid_range_min'', ''gid_range_size''] d of
        Some (_, [a, b, c, e]) \<Rightarrow>
          Option.bind (defaulted as_u32 default_range_min a) (\<lambda>umin.
          Option.bind (defaulted as_u32 default_range_size b) (\<lambda>usize.
          Option.bind (defaulted as_u32 default_range_min c) (\<lambda>gmin.
          Option.bind (defaulted as_u32 default_range_size e) (\<lambda>gsize.
            Some \<lparr>uid_range_min = umin, uid_range_size = usize,
                  gid_range_min = gmin, gid_range_size = gsize\<rparr>))))
      | _ \<Rightarrow> None)"

definition decode_user_defaults :: "doc \<Rightarrow> user_defaults_config option" where
  "decode_user_defaults d =
     (case struct_fields [''shell'', ''home_template''] d of
        Some (_, [s, h]) \<Rightarrow>
          Option.bind (defaulted as_string default_shell s) (\<lambda>shell.
          Option.bind (defaulted as_string default_home_template h) (\<lambda>home.
            Some \<lparr>ud_shell = shell, ud_home_template = home\<rparr>))
      | _ \<Rightarrow> None)"

definition decode_cache_config :: "doc \<Rightarrow> cache_config option" where
  "decode_cache_config d =
     (case struct_fields [''db_path'', ''ttl_seconds''] d of
        Some (_, [p, t]) \<Rightarrow>
          Option.bind (defaulted as_string default_cache_path p) (\<lambda>path.
          Option.bind (defaulted as_u64 default_cache_ttl t) (\<lambda>ttl.
            Some \<lparr>cc_db_path = path, cc_ttl_seconds = ttl\<rparr>))
      | _ \<Rightarrow> None)"

definition decode_config :: "doc \<Rightarrow> config option" where
  "decode_config d =
     (case struct_fields [''scim'', ''oidc'', ''mapping'', ''user_defaults'', ''cache'', ''security''] d of
        Some (_, [s, i, m, u, c, y]) \<Rightarrow>
          Option.bind (required decode_scim_config s) (\<lambda>scim.
          Option.bind (required decode_oidc_config i) (\<lambda>oidc.
          Option.bind (defaulted decode_mapping default_mapping m) (\<lambda>mapping.
          Option.bind (defaulted decode_user_defaults default_user_defaults u) (\<lambda>defaults.
          Option.bind (defaulted decode_cache_config default_cache c) (\<lambda>cache.
          Option.bind (defaulted decode_security default_security y) (\<lambda>security.
            Some \<lparr>cfg_scim = scim, cfg_oidc = oidc, cfg_mapping = mapping,
                  cfg_user_defaults = defaults, cfg_cache = cache, cfg_security = security\<rparr>))))))
      | _ \<Rightarrow> None)"

section \<open>Loading\<close>

definition check_secret_file_permissions :: "string \<Rightarrow> (fsys, unit, config_error) prog" where
  "check_secret_file_permissions path =
     tryp (ConfigRead path) (symlink_metadata path) (\<lambda>meta.
       if \<not> fm_is_file meta then fail (ConfigInsecurePermissions path NotRegularFile)
       else if fm_mode meta AND mode_077 \<noteq> 0
         then fail (ConfigInsecurePermissions path (TooOpen (fm_mode meta AND mode_777)))
       else (\<lambda>fs.
         if fs_euid fs = 0 \<and> fm_uid meta \<noteq> 0
         then fail (ConfigInsecurePermissions path (NotOwnedByRoot (fm_uid meta))) fs
         else ret () fs))"

text \<open>
  \<open>str::trim\<close> drops the characters with the Unicode property \<open>White_Space\<close> at both ends;
  these are their UTF-8 encodings.
\<close>

definition white_space :: "string list" where
  "white_space =
     map (\<lambda>n. [char_of n]) [9, 10, 11, 12, 13, 32 :: nat] @
     map (map char_of)
       ([[0xC2, 0x85], [0xC2, 0xA0], [0xE1, 0x9A, 0x80]] @
        map (\<lambda>n. [0xE2, 0x80, n]) [0x80 ..< 0x8B] @
        [[0xE2, 0x80, 0xA8], [0xE2, 0x80, 0xA9], [0xE2, 0x80, 0xAF], [0xE2, 0x81, 0x9F],
         [0xE3, 0x80, 0x80 :: nat]])"

function strip_prefixes :: "string list \<Rightarrow> string \<Rightarrow> string" where
  "strip_prefixes ws s =
     (case find (\<lambda>w. w \<noteq> [] \<and> starts_with w s) ws of
        None \<Rightarrow> s
      | Some w \<Rightarrow> strip_prefixes ws (drop (length w) s))"
  by pat_completeness auto
termination
proof (relation "measure (\<lambda>(ws, s). length s)")
  fix ws :: "string list" and s w :: string
  assume "find (\<lambda>w. w \<noteq> [] \<and> starts_with w s) ws = Some w"
  then have "w \<noteq> []" "starts_with w s" by (auto simp: find_Some_iff)
  then have "0 < length w" "w = take (length w) s" by (auto simp: starts_with_def)
  then have "0 < length w" "length w \<le> length s" by (metis, metis length_take min.cobounded1)
  then have "length s - length w < length s" by linarith
  then show "((ws, drop (length w) s), ws, s) \<in> measure (\<lambda>(ws, s). length s)" by simp
qed simp

declare strip_prefixes.simps [simp del]

definition trim :: "string \<Rightarrow> string" where
  "trim s = rev (strip_prefixes (map rev white_space) (rev (strip_prefixes white_space s)))"

definition load_from ::
  "(string \<Rightarrow> doc option) \<Rightarrow> string \<Rightarrow> (fsys, config, config_error) prog" where
  "load_from parse_toml path =
     tryp (ConfigRead path) (read_to_string path) (\<lambda>contents.
       case Option.bind (parse_toml contents) decode_config of
         None \<Rightarrow> fail ConfigParse
       | Some config \<Rightarrow>
           (let token_path = cs_bearer_token_file (cfg_scim config) in
            bindp (check_secret_file_permissions token_path) (\<lambda>_.
            tryp (ConfigRead token_path) (read_to_string token_path) (\<lambda>token.
              ret (config\<lparr>cfg_scim := (cfg_scim config)\<lparr>cs_bearer_token := trim token\<rparr>\<rparr>)))))"

text \<open>\<open>Config::load\<close>; \<open>env_var\<close> is \<open>std::env::var(...).ok()\<close>.\<close>

definition config_load ::
  "(string \<Rightarrow> string option) \<Rightarrow> (string \<Rightarrow> doc option) \<Rightarrow> (fsys, config, config_error) prog" where
  "config_load env_var parse_toml =
     load_from parse_toml
       (case env_var config_env_var of Some p \<Rightarrow> p | None \<Rightarrow> default_config_path)"

section \<open>What the permission check accepts\<close>

lemma check_secret_Ok:
  "check_secret_file_permissions path fs = (Ok u, fs') \<longleftrightarrow>
     fs' = fs \<and> (\<exists>m. fs_stat fs path = Ok m \<and> fm_is_file m \<and> fm_mode m AND mode_077 = 0 \<and>
       (fs_euid fs = 0 \<longrightarrow> fm_uid m = 0))"
  by (auto simp: check_secret_file_permissions_def prog_inv symlink_metadata_def split: if_splits)

lemma load_from_Ok:
  assumes "load_from parse_toml path fs = (Ok cfg, fs')"
  shows "fs' = fs \<and> (\<exists>text d cfg0 token m.
    fs_text fs path = Ok text \<and> parse_toml text = Some d \<and> decode_config d = Some cfg0 \<and>
    fs_stat fs (cs_bearer_token_file (cfg_scim cfg0)) = Ok m \<and>
    fm_is_file m \<and> fm_mode m AND mode_077 = 0 \<and> (fs_euid fs = 0 \<longrightarrow> fm_uid m = 0) \<and>
    fs_text fs (cs_bearer_token_file (cfg_scim cfg0)) = Ok token \<and>
    cfg = cfg0\<lparr>cfg_scim := (cfg_scim cfg0)\<lparr>cs_bearer_token := trim token\<rparr>\<rparr>)"
  using assms
  by (auto simp: load_from_def prog_inv read_to_string_def Let_def check_secret_Ok bind_eq_Some_conv
      split: option.splits)

section \<open>What loading promises\<close>

text \<open>A file that may hold a secret: regular, closed to group and others, and root's if we are root.\<close>

definition secret_file_ok :: "fsys \<Rightarrow> string \<Rightarrow> bool" where
  "secret_file_ok fs path \<longleftrightarrow>
     (case fs_stat fs path of
        Ok m \<Rightarrow> fm_is_file m \<and> fm_mode m AND mode_077 = 0 \<and> (fs_euid fs \<noteq> 0 \<or> fm_uid m = 0)
      | _ \<Rightarrow> False)"

text \<open>C34: a configuration is loaded only together with a bearer token from a file that passed the
  permission check, and the token used is the text of that file without surrounding white space;
  everything else is as the TOML document says, and no file is changed.\<close>

theorem load_from_secure:
  assumes "load_from parse_toml path fs = (Ok cfg, fs')"
  shows "fs' = fs \<and> secret_file_ok fs (cs_bearer_token_file (cfg_scim cfg)) \<and>
    (\<exists>text d cfg0 token. fs_text fs path = Ok text \<and> parse_toml text = Some d \<and>
       decode_config d = Some cfg0 \<and>
       fs_text fs (cs_bearer_token_file (cfg_scim cfg)) = Ok token \<and>
       cfg = cfg0\<lparr>cfg_scim := (cfg_scim cfg0)\<lparr>cs_bearer_token := trim token\<rparr>\<rparr>)"
  using load_from_Ok [OF assms] by (elim conjE exE, simp add: secret_file_ok_def)

definition sample_doc :: doc where
  "sample_doc = DObj
     [(''scim'', DObj [(''base_url'', DStr ''https://idp/scim'')]),
      (''oidc'', DObj [(''issuer_url'', DStr ''https://idp''), (''client_id'', DStr ''c'')])]"

definition sample_fs :: "u32 \<Rightarrow> u32 \<Rightarrow> u32 \<Rightarrow> fsys" where
  "sample_fs mode uid euid =
     \<lparr>fs_stat = (\<lambda>_. Ok \<lparr>fm_is_file = True, fm_mode = mode, fm_uid = uid\<rparr>),
      fs_text = (\<lambda>_. Ok '' t ''), fs_chmod_error = (\<lambda>_. None), fs_euid = euid\<rparr>"

theorem load_from_secure_witness:
  "secret_file_ok (sample_fs 33152 0 0) ''/etc/sssd-oidc/scim-token''"
proof -
  have "map_option (cs_bearer_token_file \<circ> cfg_scim) (decode_config sample_doc) = Some ''/etc/sssd-oidc/scim-token''"
    by code_simp
  then obtain cfg0 where dec: "decode_config sample_doc = Some cfg0"
    "cs_bearer_token_file (cfg_scim cfg0) = ''/etc/sssd-oidc/scim-token''" by auto
  have "(33152 :: u32) AND mode_077 = 0" by code_simp
  then obtain cfg fs' where run: "load_from (\<lambda>_. Some sample_doc) ''/c'' (sample_fs 33152 0 0) = (Ok cfg, fs')"
    by (simp add: load_from_def Let_def prog_inv read_to_string_def check_secret_Ok sample_fs_def dec)
  then have "cs_bearer_token_file (cfg_scim cfg) = ''/etc/sssd-oidc/scim-token''"
    using load_from_Ok [OF run] dec by auto
  then show ?thesis using load_from_secure [OF run] by simp
qed

text \<open>The permission check of the bearer token accepts more than the documentation asks for (owned
  by root, mode 0600 or 0400): a file of any owner when the process is not root, and an executable one.\<close>

theorem check_secret_accepts_0700:
  "fst (check_secret_file_permissions path (sample_fs 33216 1000 1000)) = Ok ()"
proof -
  have "(33216 :: u32) AND mode_077 = 0" by code_simp
  then show ?thesis
    by (simp add: check_secret_file_permissions_def sample_fs_def symlink_metadata_def prog_simps)
qed

end
