(* ===== verification/Service.thy ===== *)
theory Service
  imports Cache_Laws Scim_Laws Config
begin

text \<open>
  \<open>src/service.rs\<close>: the facade both modules use. A service is its SCIM client and its
  configuration; the cache, which the source keeps in the same struct, is the state, together
  with the wire. A cache operation runs on its part of the state (\<open>on_cache\<close>).
\<close>

record world = wire +
  w_cache :: cache

record env =
  env_http :: http_env
  env_db :: engine
  env_hash :: "string \<Rightarrow> u32"

record service =
  sv_scim :: scim_client
  sv_config :: config

datatype service_error =
    SvcScim scim_error
  | SvcCache cache_error
  | SvcRangeExhausted

definition on_cache :: "(cache, 'a, cache_error) prog \<Rightarrow> ('z world_scheme, 'a, cache_error) prog" where
  "on_cache m = zoomp w_cache (\<lambda>c w. w\<lparr>w_cache := c\<rparr>) m"

definition max_name_len :: nat where
  "max_name_len = 256"

text \<open>\<open>Service::new\<close> purges the cache; a failure is only logged.\<close>

definition service_new :: "env \<Rightarrow> config \<Rightarrow> scim_client \<Rightarrow> ('z world_scheme, service, 'e) prog" where
  "service_new V cfg scim =
     matchp (on_cache (purge_expired (env_db V) (cc_ttl_seconds (cfg_cache cfg))))
       (\<lambda>_. ret \<lparr>sv_scim = scim, sv_config = cfg\<rparr>)
       (\<lambda>_. ret \<lparr>sv_scim = scim, sv_config = cfg\<rparr>)"

section \<open>From SCIM resources to models\<close>

definition scim_user_to_model ::
  "env \<Rightarrow> service \<Rightarrow> scim_user \<Rightarrow> ('z world_scheme, user, service_error) prog" where
  "scim_user_to_model V S su =
     (let mc = cfg_mapping (sv_config S); defaults = cfg_user_defaults (sv_config S) in
      tryp SvcCache
        (on_cache (resolve_uid (env_db V) (env_hash V) (su_id su) (uid_range_min mc) (uid_range_size mc)))
        (\<lambda>uid.
      tryp SvcCache
        (on_cache (resolve_gid (env_db V) (env_hash V)
           (case su_groups su of first_group # _ \<Rightarrow> gref_value first_group | [] \<Rightarrow> su_id su)
           (gid_range_min mc) (gid_range_size mc)))
        (\<lambda>gid.
      ret \<lparr>u_external_id = su_id su, u_name = su_user_name su, u_uid = uid, u_gid = gid,
           u_gecos = (case su_display_name su of Some n \<Rightarrow> n | None \<Rightarrow> []),
           u_home = replace_str ''{user}'' (su_user_name su) (ud_home_template defaults),
           u_shell = ud_shell defaults,
           u_active = (case su_active su of Some a \<Rightarrow> a | None \<Rightarrow> True)\<rparr>)))"

definition scim_group_to_model ::
  "env \<Rightarrow> service \<Rightarrow> scim_group \<Rightarrow> ('z world_scheme, group, service_error) prog" where
  "scim_group_to_model V S sg =
     (let mc = cfg_mapping (sv_config S) in
      tryp SvcCache
        (on_cache (resolve_gid (env_db V) (env_hash V) (sg_id sg) (gid_range_min mc) (gid_range_size mc)))
        (\<lambda>gid.
      ret \<lparr>g_external_id = sg_id sg, g_name = sg_display_name sg, g_gid = gid,
           g_members = List.map_filter mref_display (sg_members sg)\<rparr>))"

section \<open>Lookups\<close>

definition lookup_user_by_name ::
  "env \<Rightarrow> service \<Rightarrow> string \<Rightarrow> ('z world_scheme, user option, service_error) prog" where
  "lookup_user_by_name V S name =
     (if max_name_len < length name then ret None
      else matchp (scim_get_user_by_name (env_http V) (sv_scim S) name)
        (\<lambda>found. case found of
           Some su \<Rightarrow>
             bindp (scim_user_to_model V S su) (\<lambda>u.
             tryp SvcCache (on_cache (store_user (env_db V) u)) (\<lambda>_.
             ret (Some u)))
         | None \<Rightarrow> tryp SvcCache (on_cache (cached_user_by_name (env_db V) name)) ret)
        (\<lambda>_. tryp SvcCache (on_cache (cached_user_by_name (env_db V) name)) ret))"

definition lookup_user_by_uid ::
  "env \<Rightarrow> service \<Rightarrow> u32 \<Rightarrow> ('z world_scheme, user option, service_error) prog" where
  "lookup_user_by_uid V S uid =
     tryp SvcCache (on_cache (get_user_by_uid (env_db V) uid)) (\<lambda>cached.
       case cached of Some u \<Rightarrow> ret (Some u) | None \<Rightarrow> ret None)"

definition lookup_group_by_name ::
  "env \<Rightarrow> service \<Rightarrow> string \<Rightarrow> ('z world_scheme, group option, service_error) prog" where
  "lookup_group_by_name V S name =
     (if max_name_len < length name then ret None
      else matchp (scim_get_group_by_name (env_http V) (sv_scim S) name)
        (\<lambda>found. case found of
           Some sg \<Rightarrow>
             bindp (scim_group_to_model V S sg) (\<lambda>g.
             tryp SvcCache (on_cache (store_group (env_db V) g)) (\<lambda>_.
             ret (Some g)))
         | None \<Rightarrow> tryp SvcCache (on_cache (cached_group_by_name (env_db V) name)) ret)
        (\<lambda>_. tryp SvcCache (on_cache (cached_group_by_name (env_db V) name)) ret))"

definition lookup_group_by_gid ::
  "env \<Rightarrow> service \<Rightarrow> u32 \<Rightarrow> ('z world_scheme, group option, service_error) prog" where
  "lookup_group_by_gid V S gid =
     tryp SvcCache (on_cache (get_group_by_gid (env_db V) gid)) (\<lambda>cached.
       case cached of Some g \<Rightarrow> ret (Some g) | None \<Rightarrow> ret None)"

section \<open>Enumeration\<close>

definition import_user ::
  "env \<Rightarrow> service \<Rightarrow> scim_user \<Rightarrow> ('z world_scheme, user, service_error) prog" where
  "import_user V S su =
     bindp (scim_user_to_model V S su) (\<lambda>u.
     tryp SvcCache (on_cache (store_user (env_db V) u)) (\<lambda>_. ret u))"

definition list_all_users ::
  "env \<Rightarrow> service \<Rightarrow> ('z world_scheme, user list, service_error) prog" where
  "list_all_users V S =
     tryp SvcScim (list_users (env_http V) (sv_scim S)) (collectp (import_user V S))"

definition import_group ::
  "env \<Rightarrow> service \<Rightarrow> scim_group \<Rightarrow> ('z world_scheme, group, service_error) prog" where
  "import_group V S sg =
     bindp (scim_group_to_model V S sg) (\<lambda>g.
     tryp SvcCache (on_cache (store_group (env_db V) g)) (\<lambda>_. ret g))"

definition list_all_groups ::
  "env \<Rightarrow> service \<Rightarrow> ('z world_scheme, group list, service_error) prog" where
  "list_all_groups V S =
     tryp SvcScim (list_groups (env_http V) (sv_scim S)) (collectp (import_group V S))"

section \<open>Account status and group membership\<close>

definition check_user_active ::
  "env \<Rightarrow> service \<Rightarrow> string \<Rightarrow> ('z world_scheme, bool, service_error) prog" where
  "check_user_active V S name =
     (if max_name_len < length name then ret False
      else matchp (scim_get_user_by_name (env_http V) (sv_scim S) name)
        (\<lambda>found. case found of
           Some su \<Rightarrow>
             bindp (scim_user_to_model V S su) (\<lambda>u.
             tryp SvcCache (on_cache (store_user (env_db V) u)) (\<lambda>_.
             ret (u_active u)))
         | None \<Rightarrow> ret False)
        (\<lambda>_. case offline_policy (cfg_security (sv_config S)) of
           CachedStatus \<Rightarrow>
             tryp SvcCache (on_cache (cached_user_by_name (env_db V) name)) (\<lambda>cached.
               case cached of Some u \<Rightarrow> ret (u_active u) | None \<Rightarrow> ret False)
         | Deny \<Rightarrow> ret False))"

definition service_is_online :: "env \<Rightarrow> service \<Rightarrow> ('z world_scheme, bool, scim_error) prog" where
  "service_is_online V S = is_online (env_http V) (sv_scim S)"

definition lookup_groups_for_user ::
  "env \<Rightarrow> service \<Rightarrow> string \<Rightarrow> ('z world_scheme, u32 list, service_error) prog" where
  "lookup_groups_for_user V S name =
     (if max_name_len < length name then ret []
      else let mc = cfg_mapping (sv_config S) in
        matchp (scim_get_user_by_name (env_http V) (sv_scim S) name)
        (\<lambda>found. case found of
           Some su \<Rightarrow>
             bindp (scim_user_to_model V S su) (\<lambda>u.
             tryp SvcCache (on_cache (store_user (env_db V) u)) (\<lambda>_.
             collectp (\<lambda>g.
                 tryp SvcCache
                   (on_cache (resolve_gid (env_db V) (env_hash V) (gref_value g)
                      (gid_range_min mc) (gid_range_size mc))) ret)
               (su_groups su)))
         | None \<Rightarrow> ret [])
        (\<lambda>_. tryp SvcCache (on_cache (get_groups_for_member (env_db V) name)) (\<lambda>cached.
               ret (map g_gid cached))))"

end
