(* ===== verification/Cache_Spec.thy ===== *)
theory Cache_Spec
  imports Cache_Laws
begin

text \<open>
  The contract of the cache, stated over an abstract directory (a map from external ids to
  rows) that the three tables implement: what a store, a lookup and an expiry mean there, the
  round trips through the tables, and the permissions an opened cache file has.
\<close>

section \<open>The directory behind the table of users\<close>

definition directory :: "cache \<Rightarrow> string \<Rightarrow> uid_row option" where
  "directory c k = find (\<lambda>r. ur_external_id r = k) (uid_cache c)"

text \<open>A store takes the uid from whoever holds it; an expiry forgets the old entries.\<close>

definition dir_put :: "uid_row \<Rightarrow> (string \<Rightarrow> uid_row option) \<Rightarrow> string \<Rightarrow> uid_row option" where
  "dir_put r d k =
     (if k = ur_external_id r then Some r
      else case d k of None \<Rightarrow> None | Some x \<Rightarrow> if ur_uid x = ur_uid r then None else Some x)"

definition dir_expire :: "int \<Rightarrow> (string \<Rightarrow> uid_row option) \<Rightarrow> string \<Rightarrow> uid_row option" where
  "dir_expire bound d k =
     (case d k of None \<Rightarrow> None | Some x \<Rightarrow> if ur_cached_at x \<le> bound then None else Some x)"

definition dir_serves :: "int \<Rightarrow> (string \<Rightarrow> uid_row option) \<Rightarrow> u32 \<Rightarrow> user \<Rightarrow> bool" where
  "dir_serves bound d uid u \<longleftrightarrow>
     (\<exists>k r. d k = Some r \<and> ur_uid r = uid \<and> bound < ur_cached_at r \<and> u = user_of_row r)"

lemma find_filter:
  assumes "distinct (map e xs)"
  shows "find (\<lambda>r. e r = k) (filter P xs) =
     (case find (\<lambda>r. e r = k) xs of None \<Rightarrow> None | Some x \<Rightarrow> if P x then Some x else None)"
  using assms
proof (induction xs)
  case (Cons x xs)
  show ?case
  proof (cases "e x = k")
    case True
    then have "\<forall>y \<in> set xs. e y \<noteq> k" using Cons.prems by (auto simp: image_iff)
    then have "find (\<lambda>r. e r = k) (filter P xs) = None" by (simp add: find_none)
    with True show ?thesis by simp
  next
    case False
    with Cons show ?thesis by simp
  qed
qed simp

lemma directory_mem:
  assumes "schema_ok E c"
  shows "directory c k = Some r \<longleftrightarrow> r \<in> set (uid_cache c) \<and> ur_external_id r = k"
proof
  assume "r \<in> set (uid_cache c) \<and> ur_external_id r = k"
  with assms show "directory c k = Some r"
    unfolding directory_def by (intro find_unique [where k = ur_external_id]) (auto simp: schema_defs)
qed (auto simp: directory_def dest: find_in)

lemma directory_insert:
  assumes "schema_ok E c"
  shows "directory (insert_uid_row r c) = dir_put r (directory c)"
proof
  fix k
  have d: "distinct (map ur_external_id (uid_cache c))" using assms by (simp add: schema_defs)
  show "directory (insert_uid_row r c) k = dir_put r (directory c) k"
    by (auto simp: directory_def dir_put_def insert_uid_row_def find_append find_filter [OF d]
        split: option.splits dest: find_in)
qed

lemma directory_expire:
  assumes "schema_ok E c"
  shows "directory (delete_expired_users b c) = dir_expire b (directory c)"
proof
  fix k
  have d: "distinct (map ur_external_id (uid_cache c))" using assms by (simp add: schema_defs)
  show "directory (delete_expired_users b c) k = dir_expire b (directory c) k"
    by (simp add: directory_def dir_expire_def delete_expired_users_def find_filter [OF d]
        split: option.splits)
qed

lemma directory_counter [simp]: "directory (c\<lparr>statements_run := n\<rparr>) = directory c"
  by (simp add: directory_def [abs_def])

lemma store_user_directory:
  assumes "schema_ok E c" "store_user E u c = (Ok x, c')"
  shows "directory c' = dir_put (row_of_user u (eng_now E (statements_run c))) (directory c)"
  using assms by (simp add: store_user_Ok directory_insert [of E])

lemma same_tables_directory: "same_tables c d \<Longrightarrow> directory d = directory c"
  by (simp add: same_tables_def directory_def [abs_def])

lemma get_user_by_uid_serves:
  assumes "schema_ok E c" "get_user_by_uid E uid c = (Ok v, c')"
  shows "v = Some u \<longleftrightarrow> dir_serves (fresh_bound E c) (directory c) uid u"
proof -
  have d: "distinct (map ur_uid (uid_cache c))" using assms(1) by (simp add: schema_defs)
  have dir: "dir_serves b (directory c) uid u \<longleftrightarrow>
      (\<exists>r. live_user b c r \<and> ur_uid r = uid \<and> u = user_of_row r)" for b
    using directory_mem [OF assms(1)] by (auto simp: dir_serves_def live_user_def)
  have one: "r = r'" if "live_user b c r" "live_user b c r'" "ur_uid r = ur_uid r'" for b r r'
    using that d by (auto simp: live_user_def distinct_map inj_on_def)
  from get_user_by_uid_Ok [OF assms(2)] show ?thesis
    unfolding dir using one by (cases v) fastforce+
qed

section \<open>Round trips\<close>

lemma get_user_after_store:
  assumes "schema_ok E c" "store_user E u c = (Ok x, c1)"
    and "fresh_bound E c1 < eng_now E (statements_run c)"
    and "get_user_by_uid E (u_uid u) c1 = (Ok v, c2)"
  shows "v = Some u"
proof -
  have "schema_ok E c1" using keepsD [OF store_user_schema assms(1,2)] .
  moreover have "dir_serves (fresh_bound E c1) (directory c1) (u_uid u) u"
    unfolding store_user_directory [OF assms(1,2)] dir_serves_def
    by (rule exI [of _ "u_external_id u"], rule exI [of _ "row_of_user u (eng_now E (statements_run c))"])
      (simp add: dir_put_def assms(3), simp add: row_of_user_def assms(3))
  ultimately show ?thesis using get_user_by_uid_serves assms(4) by blast
qed

lemma members_of_counter [simp]: "members_of g (c\<lparr>statements_run := n\<rparr>) = members_of g c"
  by (simp add: members_of_def)

lemma members_of_delete:
  "members_of h (delete_members_of g c) = (if h = g then [] else members_of h c)"
  by (auto simp: members_of_def delete_members_of_def filter_empty_conv intro!: arg_cong [where f = "map mr_member_name"] filter_cong)

abbreviation group_row :: "group \<Rightarrow> int \<Rightarrow> gid_row" where
  "group_row g now \<equiv> \<lparr>gr_external_id = g_external_id g, gr_name = g_name g, gr_gid = g_gid g, gr_cached_at = now\<rparr>"

lemma store_group_Ok:
  assumes "store_group E g c = (Ok x, c')"
  shows "members_of (g_external_id g) c' = g_members g \<and> distinct (g_members g) \<and>
    gid_cache c' = filter (\<lambda>r. gr_external_id r \<noteq> g_external_id g \<and> gr_gid r \<noteq> g_gid g) (gid_cache c) @
      [group_row g (eng_now E (statements_run c))] \<and>
    uid_cache c' = uid_cache c \<and> cache_ttl c' = cache_ttl c"
proof -
  define c1 where "c1 = insert_gid_row E (group_row g (eng_now E (statements_run c)))
    (c\<lparr>statements_run := Suc (statements_run c)\<rparr>)"
  define c2 where "c2 = delete_members_of (g_external_id g) (c1\<lparr>statements_run := Suc (statements_run c1)\<rparr>)"
  from assms have ins: "insert_members E (g_external_id g) (g_members g) c2 = (Ok x, c')"
    by (simp add: store_group_def prog_inv c1_def c2_def)
  have none: "members_of (g_external_id g) c2 = []" by (simp add: c2_def members_of_delete)
  have c1: "gid_cache c1 = filter (\<lambda>r. gr_external_id r \<noteq> g_external_id g \<and> gr_gid r \<noteq> g_gid g) (gid_cache c) @
      [group_row g (eng_now E (statements_run c))]" "uid_cache c1 = uid_cache c" "cache_ttl c1 = cache_ttl c"
    by (simp_all add: c1_def insert_gid_row_def delete_gid_rows_def Let_def)
  have "gid_cache c2 = gid_cache c1" "uid_cache c2 = uid_cache c1" "cache_ttl c2 = cache_ttl c1"
    by (simp_all add: c2_def delete_members_of_def)
  with insert_members_Ok [OF ins] none c1 show ?thesis by simp
qed

lemma get_group_by_gid_Ok:
  assumes "get_group_by_gid E gid c = (Ok v, c')"
  shows "case v of
      None \<Rightarrow> \<not> (\<exists>r. live_group (fresh_bound E c) c r \<and> gr_gid r = gid)
    | Some g \<Rightarrow> \<exists>r. live_group (fresh_bound E c) c r \<and> gr_gid r = gid \<and>
        g_external_id g = gr_external_id r \<and> g_name g = gr_name r \<and> g_gid g = gid \<and>
        mset (g_members g) = mset (members_of (gr_external_id r) c)"
proof -
  define rows where "rows = sort_key (eng_group_rank E (statements_run c))
    (filter (\<lambda>r. gr_gid r = gid \<and> fresh_bound E c < gr_cached_at r) (gid_cache c))"
  define t where "t = c\<lparr>statements_run := Suc (statements_run c)\<rparr>"
  from assms have run: "(case first_row rows of None \<Rightarrow> ret None
      | Some r \<Rightarrow> bindp (group_of_row E r) (\<lambda>g. ret (Some g))) t = (Ok v, c')"
    by (simp add: get_group_by_gid_def prog_inv rows_def t_def)
  show ?thesis
  proof (cases "first_row rows")
    case None
    then have "rows = []" by (simp add: rows_def first_row_none)
    with run None show ?thesis
      by (auto simp: prog_inv live_group_def rows_def filter_empty_conv dest: arg_cong [where f = set])
  next
    case (Some r)
    then have r: "live_group (fresh_bound E c) c r" "gr_gid r = gid"
      using first_row_in [OF Some [unfolded rows_def]] by (auto simp: live_group_def)
    from run Some obtain g where g: "group_of_row E r t = (Ok g, c')" "v = Some g"
      by (auto simp: prog_inv)
    from group_of_row_Ok [OF g(1)] r g(2) show ?thesis by (auto simp: t_def)
  qed
qed

lemma get_group_after_store:
  assumes "schema_ok E c" "store_group E g c = (Ok x, c1)"
    and "fresh_bound E c1 < eng_now E (statements_run c)"
    and "get_group_by_gid E (g_gid g) c1 = (Ok v, c2)"
  shows "\<exists>h. v = Some h \<and> g_external_id h = g_external_id g \<and> g_name h = g_name g \<and>
    g_gid h = g_gid g \<and> mset (g_members h) = mset (g_members g)"
proof -
  note st = store_group_Ok [OF assms(2)]
  have only: "r = group_row g (eng_now E (statements_run c))" if "live_group b c1 r" "gr_gid r = g_gid g" for b r
    using that st by (auto simp: live_group_def)
  have live: "live_group (fresh_bound E c1) c1 (group_row g (eng_now E (statements_run c)))"
    using assms(3) st by (simp add: live_group_def)
  note found = get_group_by_gid_Ok [OF assms(4)]
  show ?thesis
  proof (cases v)
    case None
    with found live show ?thesis by fastforce
  next
    case (Some h)
    with found st show ?thesis by (auto dest!: only)
  qed
qed

text \<open>Members are keyed by name: the insertion that meets a name twice fails, and leaves the rest.\<close>

lemma eachp_append:
  "eachp f (xs @ ys) = bindp (eachp f xs) (\<lambda>_. eachp f ys)"
  by (induction xs) (auto simp: fun_eq_iff bindp_def matchp_def ret_def fail_def split: prod.split outcome.split)

lemma insert_members_run:
  assumes "\<forall>n. eng_fault E n = None" "g \<in> gr_external_id ` set (gid_cache c)"
    and "distinct (members_of g c @ ms)"
  shows "insert_members E g ms c = (Ok (), c\<lparr>statements_run := statements_run c + length ms,
      group_members := group_members c @ map (member_row.make g) ms\<rparr>)"
  using assms(2-)
proof (induction ms arbitrary: c)
  case Nil
  then show ?case by (simp add: prog_simps)
next
  case (Cons m ms)
  define t where "t = c\<lparr>statements_run := Suc (statements_run c),
    group_members := group_members c @ [\<lparr>mr_group_external_id = g, mr_member_name = m\<rparr>]\<rparr>"
  have "tryp Sqlite (sql_statement E (\<lambda>_. insert_member_row E
       \<lparr>mr_group_external_id = g, mr_member_name = m\<rparr>)) ret c = (Ok (), t)"
    using Cons.prems assms(1) by (simp add: insert_member_Ok t_def member_in_members_of)
  moreover have "insert_members E g ms t = (Ok (), t\<lparr>statements_run := statements_run t + length ms,
      group_members := group_members t @ map (member_row.make g) ms\<rparr>)"
    by (rule Cons.IH) (use Cons.prems in \<open>auto simp: t_def members_of_def\<close>)
  ultimately have "insert_members E g (m # ms) c = (Ok (), t\<lparr>statements_run := statements_run t + length ms,
      group_members := group_members t @ map (member_row.make g) ms\<rparr>)"
    by (simp only: eachp.simps bindp_run)
  then show ?case by (simp add: t_def member_row.make_def)
qed

lemma store_group_duplicate:
  assumes "\<forall>n. eng_fault E n = None" "schema_ok E c"
    and "g_members g = ms @ m # rest" "distinct ms" "m \<in> set ms"
  shows "\<exists>c'. store_group E g c = (Err (Sqlite ConstraintViolation), c') \<and>
    group_owner c' (g_gid g) = Some (g_external_id g) \<and> members_of (g_external_id g) c' = ms"
proof -
  define c1 where "c1 = insert_gid_row E (group_row g (eng_now E (statements_run c)))
    (c\<lparr>statements_run := Suc (statements_run c)\<rparr>)"
  define c2 where "c2 = delete_members_of (g_external_id g) (c1\<lparr>statements_run := Suc (statements_run c1)\<rparr>)"
  define c3 where "c3 = c2\<lparr>statements_run := statements_run c2 + length ms,
      group_members := group_members c2 @ map (member_row.make (g_external_id g)) ms\<rparr>"
  have none: "members_of (g_external_id g) c2 = []" by (simp add: c2_def members_of_delete)
  have row: "g_external_id g \<in> gr_external_id ` set (gid_cache c2)"
    by (simp add: c2_def c1_def delete_members_of_def insert_gid_row_def Let_def)
  have run: "insert_members E (g_external_id g) ms c2 = (Ok (), c3)"
    unfolding c3_def by (rule insert_members_run) (use none row assms in auto)
  have mem3: "members_of (g_external_id g) c3 = ms"
    using none by (simp add: c3_def members_of_def member_row.make_def o_def filter_map)
  have "\<lparr>mr_group_external_id = g_external_id g, mr_member_name = m\<rparr> \<in> set (group_members c3)"
    using assms(5) mem3 by (simp add: member_in_members_of)
  then have stop: "tryp Sqlite (sql_statement E (\<lambda>_. insert_member_row E
       \<lparr>mr_group_external_id = g_external_id g, mr_member_name = m\<rparr>)) ret c3 =
       (Err (Sqlite ConstraintViolation), c3\<lparr>statements_run := Suc (statements_run c3)\<rparr>)"
    using assms(1) by (simp add: sql_statement_def insert_member_row_def prog_simps)
  have ups: "sql_update E (\<lambda>n. insert_gid_row E (group_row g (eng_now E n))) c = (Ok (), c1)"
      "sql_update E (\<lambda>_. delete_members_of (g_external_id g)) c1 = (Ok (), c2)"
    using assms(1) by (simp_all add: prog_inv c1_def c2_def)
  have "insert_members E (g_external_id g) (g_members g) c2 =
      (Err (Sqlite ConstraintViolation), c3\<lparr>statements_run := Suc (statements_run c3)\<rparr>)"
    by (simp only: assms(3) eachp_append eachp.simps run stop bindp_run)
  with ups have "store_group E g c =
      (Err (Sqlite ConstraintViolation), c3\<lparr>statements_run := Suc (statements_run c3)\<rparr>)"
    by (simp add: store_group_def prog_simps)
  moreover have "group_owner c3 (g_gid g) = Some (g_external_id g)"
    using group_owner_insert [OF assms(2), of "group_row g (eng_now E (statements_run c))"]
    by (simp add: c3_def c2_def c1_def group_owner_def delete_members_of_def insert_gid_row_def
        delete_gid_rows_def Let_def assign_owner_def fun_eq_iff)
  ultimately show ?thesis using mem3 by simp
qed

section \<open>Expiry and group membership\<close>

lemma purge_expired_Ok:
  assumes "purge_expired E ttl c = (Ok x, c')"
  shows "\<exists>b. (\<forall>i. b i = eng_now E (statements_run c + i) - int (unat ttl)) \<and>
    uid_cache c' = filter (\<lambda>r. \<not> ur_cached_at r \<le> b 2) (uid_cache c) \<and>
    gid_cache c' = filter (\<lambda>r. \<not> gr_cached_at r \<le> b 1) (gid_cache c) \<and>
    set (group_members c') \<subseteq> set (group_members c) \<and>
    (b 0 \<le> b 1 \<longrightarrow> distinct (map gr_external_id (gid_cache c)) \<longrightarrow>
       (\<forall>r \<in> set (gid_cache c'). members_of (gr_external_id r) c' = members_of (gr_external_id r) c))"
proof -
  define b where "b i = eng_now E (statements_run c + i) - int (unat ttl)" for i
  define c1 where "c1 = delete_expired_members (b 0) (c\<lparr>statements_run := Suc (statements_run c)\<rparr>)"
  define c2 where "c2 = delete_expired_groups E (b 1) (c1\<lparr>statements_run := Suc (statements_run c1)\<rparr>)"
  have run: "statements_run c1 = Suc (statements_run c)" "statements_run c2 = statements_run c + 2"
    by (simp_all add: c1_def c2_def table_defs)
  have c': "c' = delete_expired_users (b 2) (c2\<lparr>statements_run := Suc (statements_run c2)\<rparr>)"
    using assms run by (auto simp: purge_expired_def prog_inv c1_def c2_def b_def)
  have rows: "uid_cache c' = filter (\<lambda>r. \<not> ur_cached_at r \<le> b 2) (uid_cache c)"
    "gid_cache c' = filter (\<lambda>r. \<not> gr_cached_at r \<le> b 1) (gid_cache c)"
    "group_members c' = group_members c2"
    by (simp_all add: c' c2_def c1_def table_defs)
  have "set (group_members c') \<subseteq> set (group_members c)"
    by (auto simp: rows(3) c2_def c1_def table_defs)
  moreover have "members_of (gr_external_id r) c' = members_of (gr_external_id r) c"
    if mono: "b 0 \<le> b 1" and d: "distinct (map gr_external_id (gid_cache c))" and r: "r \<in> set (gid_cache c')" for r
  proof -
    have "x = r" if "x \<in> set (gid_cache c)" "gr_external_id x = gr_external_id r" for x
      using d that r by (auto simp: rows distinct_map inj_on_def)
    then have stays: "\<not> gr_cached_at x \<le> b 1" "\<not> gr_cached_at x \<le> b 0"
      if "x \<in> set (gid_cache c)" "gr_external_id x = gr_external_id r" for x
      using that r mono by (fastforce simp: rows)+
    show ?thesis
      unfolding members_of_def rows(3)
      by (rule arg_cong [where f = "map mr_member_name"])
        (auto simp: c2_def c1_def table_defs stays intro!: filter_cong dest: stays)
  qed
  ultimately show ?thesis using rows by (intro exI [of _ b]) (auto simp: b_def)
qed

lemma collectp_group_rows:
  assumes "collectp (group_of_row E) rows c = (Ok gs, c')"
  shows "map g_gid gs = map gr_gid rows \<and> map g_name gs = map gr_name rows"
  using assms
proof (induction rows arbitrary: c gs)
  case (Cons r rows)
  then obtain g t hs where "group_of_row E r c = (Ok g, t)" "collectp (group_of_row E) rows t = (Ok hs, c')"
    "gs = g # hs" by (auto simp: prog_inv)
  with Cons.IH show ?case by (auto dest: group_of_row_Ok)
qed (simp add: prog_inv)

lemma get_groups_for_member_Ok:
  assumes "get_groups_for_member E name c = (Ok gs, c')"
  shows "gid \<in> g_gid ` set gs \<longleftrightarrow>
    (\<exists>r. live_group (fresh_bound E c) c r \<and> gr_gid r = gid \<and> name \<in> set (members_of (gr_external_id r) c))"
proof -
  define rows where "rows = concat (map (\<lambda>g. map (\<lambda>_. g)
      (filter (\<lambda>m. mr_group_external_id m = gr_external_id g \<and> mr_member_name m = name) (group_members c)))
    (filter (\<lambda>g. fresh_bound E c < gr_cached_at g) (gid_cache c)))"
  have "collectp (group_of_row E) (sort_key (eng_group_rank E (statements_run c)) rows)
      (c\<lparr>statements_run := Suc (statements_run c)\<rparr>) = (Ok gs, c')"
    using assms by (simp add: get_groups_for_member_def prog_inv rows_def)
  then have "g_gid ` set gs = gr_gid ` set rows"
    by (metis collectp_group_rows list.set_map set_sort)
  moreover have "set rows = {r. live_group (fresh_bound E c) c r \<and> name \<in> set (members_of (gr_external_id r) c)}"
    by (auto simp: rows_def live_group_def members_of_def)
  ultimately show ?thesis by auto
qed

section \<open>The file of the cache\<close>

lemma chmod_600: "chmod_mode mode_600 m AND mode_777 = mode_600"
proof -
  have "(m AND NOT 4095) AND (511 :: u32) = m AND (NOT 4095 AND 511)" by (simp only: and.assoc)
  then show ?thesis by (simp add: chmod_mode_def mode_600_def mode_777_def bit.conj_disj_distrib2)
qed

definition private_root_file :: "fsys \<Rightarrow> string \<Rightarrow> bool" where
  "private_root_file fs path \<longleftrightarrow>
     (\<exists>m. fs_stat fs path = Ok m \<and> fm_is_file m \<and> fm_uid m = 0 \<and> fm_mode m AND mode_777 = mode_600)"

lemma harden_Ok:
  assumes "harden_cache_file path fs = (Ok x, fs')"
  shows "private_root_file fs' path"
  using assms
  by (auto simp: harden_cache_file_def prog_inv Let_def symlink_metadata_def set_permissions_def
      private_root_file_def chmod_600 split: if_splits option.splits outcome.splits)

lemma cache_open_Ok:
  assumes "cache_open E conn_open path ttl fs = (Ok c, fs')"
  shows "cache_ttl c = ttl" "path \<noteq> '':memory:'' \<Longrightarrow> private_root_file fs' path"
  using assms
  by (auto simp: cache_open_def prog_inv dest!: harden_Ok split: if_splits)

section \<open>The mapping of external ids\<close>

lemma uid_owner_answers:
  "\<forall>n. eng_fault E n = None \<Longrightarrow> \<exists>v t'. uid_owner E c eid t = (Ok v, t')"
  by (auto simp: uid_owner_def prog_inv)

text \<open>A store with no entry, and an engine that never fails, for concrete runs.\<close>

definition empty_cache :: cache where
  "empty_cache = \<lparr>uid_cache = [], gid_cache = [], group_members = [], index_names = [], statements_run = 0, cache_ttl = 3600\<rparr>"

definition quiet_engine :: engine where
  "quiet_engine = \<lparr>eng_fault = (\<lambda>_. None), eng_now = (\<lambda>n. 1000 + int n), eng_user_rank = (\<lambda>_ _. 0),
     eng_group_rank = (\<lambda>_ _. 0), eng_member_rank = (\<lambda>_ _. 0), eng_name_rank = (\<lambda>_ _. 0), eng_foreign_keys = True\<rparr>"

definition sample_user :: "string \<Rightarrow> u32 \<Rightarrow> user" where
  "sample_user eid uid = \<lparr>u_external_id = eid, u_name = eid, u_uid = uid, u_gid = 100, u_gecos = [],
     u_home = ''/home/'' @ eid, u_shell = ''/bin/sh'', u_active = True\<rparr>"

definition sample_cache :: cache where
  "sample_cache = empty_cache\<lparr>uid_cache := [row_of_user (sample_user ''b'' 10) 990]\<rparr>"

definition sample_group :: "string \<Rightarrow> u32 \<Rightarrow> string list \<Rightarrow> group" where
  "sample_group eid gid ms = \<lparr>g_external_id = eid, g_name = eid, g_gid = gid, g_members = ms\<rparr>"

definition sample_groups :: cache where
  "sample_groups = empty_cache\<lparr>gid_cache := [group_row (sample_group ''g'' 10 []) 990],
     group_members := [\<lparr>mr_group_external_id = ''g'', mr_member_name = ''x''\<rparr>]\<rparr>"

lemmas sample_defs = empty_cache_def quiet_engine_def sample_user_def sample_cache_def row_of_user_def

lemma sample_ok: "schema_ok quiet_engine sample_cache" "schema_ok quiet_engine sample_groups"
  by code_simp+

lemma sample_resolve:
  "resolve_uid quiet_engine (\<lambda>_. 0) ''a'' 10 5 sample_cache = (Ok 11, sample_cache\<lparr>statements_run := 2\<rparr>)"
  by code_simp

lemma quiet_engine_quiet: "\<forall>n. eng_fault quiet_engine n = None"
  by (simp add: quiet_engine_def)

text \<open>C2: the uid a cache gives an external id lies in the configured range, and is the first slot of
  the probe sequence that is free or already the id's own: no other account holds it.\<close>

theorem resolve_uid_first_free:
  assumes "schema_ok E c" "unat lo + unat rs \<le> 4294967296"
    and "resolve_uid E hash eid lo rs c = (Ok u, c')"
  shows "in_range lo rs u \<and> user_owner c u \<in> {None, Some eid} \<and> same_tables c c' \<and>
    (\<exists>j < unat rs. u = slot hash eid lo rs j \<and>
       (\<forall>i < j. user_owner c (slot hash eid lo rs i) \<notin> {None, Some eid}))"
  using uid_slots.resolve_id_Ok [OF assms(1) assms(3) [unfolded resolve_uid_def]]
    slot_in_range [OF _ assms(2)] keepsD [OF resolve_uid_reads _ assms(3), of c] same_tables_refl by blast

theorem resolve_uid_first_free_witness:
  "in_range 10 5 (11 :: u32) \<and> user_owner sample_cache 11 \<in> {None, Some ''a''}"
  using resolve_uid_first_free [OF sample_ok(1) _ sample_resolve] by simp

text \<open>C36: on a range that fits, and with a database that answers, resolving a uid fails exactly when
  every id of the range is held by another account; then the error says the range is exhausted, and
  otherwise the answer is an id of the range that no other account holds.\<close>

theorem resolve_uid_fails_iff_full:
  assumes "schema_ok E c" "range_ok lo rs" "\<forall>n. eng_fault E n = None"
  shows "if \<exists>u. in_range lo rs u \<and> user_owner c u \<in> {None, Some eid}
    then \<exists>u. fst (resolve_uid E hash eid lo rs c) = Ok u \<and> in_range lo rs u \<and> user_owner c u \<in> {None, Some eid}
    else fst (resolve_uid E hash eid lo rs c) = Err RangeExhausted"
proof -
  have fits: "unat lo + unat rs \<le> 4294967296" using assms(2) by (simp add: range_ok_def)
  have rs: "rs \<noteq> 0" using assms(2) by (auto simp: range_ok_def)
  obtain u t where "resolve_uid E hash eid lo rs c \<in> {(Ok u, t), (Err RangeExhausted, t)}"
    using uid_slots.resolve_id_total [OF assms(1) uid_owner_answers [OF assms(3)] rs]
    unfolding resolve_uid_def by blast
  then consider "resolve_uid E hash eid lo rs c = (Ok u, t)"
    | "resolve_uid E hash eid lo rs c = (Err RangeExhausted, t)" by blast
  then show ?thesis
  proof cases
    case 1
    have "in_range lo rs u" "user_owner c u \<in> {None, Some eid}"
      using uid_slots.resolve_id_Ok [OF assms(1) 1 [unfolded resolve_uid_def]] slot_in_range [OF _ fits] by auto
    with 1 show ?thesis by auto
  next
    case 2
    have "user_owner c u \<notin> {None, Some eid}" if "in_range lo rs u" for u
      using slots_cover_range [OF assms(2) that, of hash eid]
        uid_slots.resolve_id_exhausted [OF assms(1) 2 [unfolded resolve_uid_def] owner_not_exhausted(1)]
      by blast
    with 2 show ?thesis by auto
  qed
qed

theorem resolve_uid_fails_iff_full_witness:
  "\<not> (\<exists>u. in_range 10 1 u \<and> user_owner sample_cache u \<in> {None, Some ''a''})"
proof -
  have "range_ok 10 1" by (simp add: range_ok_def)
  moreover have "fst (resolve_uid quiet_engine (\<lambda>_. 0) ''a'' 10 1 sample_cache) = Err RangeExhausted"
    by code_simp
  ultimately show ?thesis
    using resolve_uid_fails_iff_full
      [OF sample_ok(1) _ quiet_engine_quiet, where lo = 10 and rs = 1 and hash = "\<lambda>_. 0" and eid = "''a''"]
    by (auto split: if_splits)
qed

text \<open>C6: resolving a uid for a user and storing the user takes no id away from anybody: every other
  account keeps the uid it had.\<close>

theorem store_resolved_user_keeps_others:
  assumes "schema_ok E c" "resolve_uid E hash (u_external_id u) lo rs c = (Ok (u_uid u), t)"
    and "store_user E u t = (r, c')" "user_owner c i = Some k" "k \<noteq> u_external_id u"
  shows "user_owner c' i = Some k"
  using uid_table.allocate_keeps_others [where v = u, OF assms(1) assms(2) [unfolded resolve_uid_def] assms(3-5)] .

theorem store_resolved_user_keeps_others_witness:
  "user_owner (snd (store_user quiet_engine (sample_user ''a'' 11) (sample_cache\<lparr>statements_run := 2\<rparr>))) 10
     = Some ''b''"
proof -
  have run: "resolve_uid quiet_engine (\<lambda>_. 0) (u_external_id (sample_user ''a'' 11)) 10 5 sample_cache =
      (Ok (u_uid (sample_user ''a'' 11)), sample_cache\<lparr>statements_run := 2\<rparr>)"
    using sample_resolve by (simp add: sample_user_def)
  have held: "user_owner sample_cache 10 = Some ''b''" by code_simp
  show ?thesis
    by (rule store_resolved_user_keeps_others [OF sample_ok(1) run _ held])
      (simp_all add: sample_user_def prod_eq_iff)
qed

text \<open>The same for groups: storing a group under the gid the cache resolved for it takes no gid
  away from another group, even when inserting its members fails.\<close>

theorem store_resolved_group_keeps_others:
  assumes "schema_ok E c" "resolve_gid E hash (g_external_id g) lo rs c = (Ok (g_gid g), t)"
    and "store_group E g t = (r, c')" "group_owner c i = Some k" "k \<noteq> g_external_id g"
  shows "group_owner c' i = Some k"
  using gid_table.allocate_keeps_others [where v = g, OF assms(1) assms(2) [unfolded resolve_gid_def] assms(3-5)] .

theorem store_resolved_group_keeps_others_witness:
  "group_owner (snd (store_group quiet_engine (sample_group ''h'' 11 [''x'', ''x''])
     (sample_groups\<lparr>statements_run := 2\<rparr>))) 10 = Some ''g''"
proof -
  have run: "resolve_gid quiet_engine (\<lambda>_. 0) (g_external_id (sample_group ''h'' 11 [''x'', ''x''])) 10 5 sample_groups =
      (Ok (g_gid (sample_group ''h'' 11 [''x'', ''x''])), sample_groups\<lparr>statements_run := 2\<rparr>)"
    by code_simp
  have held: "group_owner sample_groups 10 = Some ''g''" by code_simp
  show ?thesis
    by (rule store_resolved_group_keeps_others [OF sample_ok(2) run _ held])
      (simp_all add: sample_group_def prod_eq_iff)
qed

text \<open>Once a user is stored under the uid it resolved to, the next resolution of the same external
  id gives the same uid.\<close>

theorem resolve_uid_stable:
  assumes "schema_ok E c" "resolve_uid E hash (u_external_id u) lo rs c = (Ok (u_uid u), t)"
    and "store_user E u t = (Ok x, c1)" "resolve_uid E hash (u_external_id u) lo rs c1 = (Ok v, c2)"
  shows "v = u_uid u"
  using uid_table.allocate_stable [where v = u, OF assms(1) assms(2) [unfolded resolve_uid_def] assms(3)
      assms(4) [unfolded resolve_uid_def]] .

theorem resolve_uid_stable_witness:
  "fst (resolve_uid quiet_engine (\<lambda>_. 0) ''a'' 10 5
     (snd (store_user quiet_engine (sample_user ''a'' 11) (sample_cache\<lparr>statements_run := 2\<rparr>)))) = Ok 11"
proof -
  define c1 where "c1 = snd (store_user quiet_engine (sample_user ''a'' 11) (sample_cache\<lparr>statements_run := 2\<rparr>))"
  have run: "resolve_uid quiet_engine (\<lambda>_. 0) (u_external_id (sample_user ''a'' 11)) 10 5 sample_cache =
      (Ok (u_uid (sample_user ''a'' 11)), sample_cache\<lparr>statements_run := 2\<rparr>)"
    using sample_resolve by (simp add: sample_user_def)
  have st: "store_user quiet_engine (sample_user ''a'' 11) (sample_cache\<lparr>statements_run := 2\<rparr>) = (Ok (), c1)"
    unfolding c1_def by code_simp
  have again: "\<exists>v c2. resolve_uid quiet_engine (\<lambda>_. 0) (u_external_id (sample_user ''a'' 11)) 10 5 c1 = (Ok v, c2)"
    unfolding c1_def by (rule runs_Ok) code_simp
  then show ?thesis
    using resolve_uid_stable [OF sample_ok(1) run st]
    unfolding c1_def [symmetric] by (auto simp: sample_user_def)
qed

text \<open>The cache does not look for the uid it recorded: an account whose first slot is free gets
  that slot, whatever uid its row holds.\<close>

theorem resolve_uid_ignores_recorded:
  assumes "schema_ok E c" "\<forall>n. eng_fault E n = None" "0 < rs"
    and "user_owner c (slot hash eid lo rs 0) = None"
  shows "fst (resolve_uid E hash eid lo rs c) = Ok (slot hash eid lo rs 0)"
proof -
  define u where "u = slot hash eid lo rs 0"
  have u: "candidate lo rs (lo + hash eid mod rs) 0 = u" by (simp add: u_def candidate_slot)
  obtain v t where run: "uid_owner E u eid c = (Ok v, t)" using uid_owner_answers [OF assms(2)] by blast
  from uid_owner_Ok [OF assms(1) run] have "v = None" using assms(4) by (simp add: u_def)
  with run have "probe lo rs (lo + hash eid mod rs) RangeExhausted (\<lambda>i. uid_owner E i eid) 0 c = (Ok u, t)"
    using assms(3) by (simp add: probe.simps [where offset = 0] u unat_gt_0)
  then show ?thesis using assms(3) by (auto simp: resolve_uid_def resolve_id_def id_to_uid_def u_def)
qed

theorem resolve_uid_ignores_recorded_witness:
  "fst (resolve_uid quiet_engine (\<lambda>_. 0) ''b'' 9 5 sample_cache) = Ok 9 \<and>
   user_owner sample_cache 10 = Some ''b''"
proof -
  have "user_owner sample_cache (slot (\<lambda>_. 0) ''b'' 9 5 0) = None" by code_simp
  moreover have "slot (\<lambda>_. 0) ''b'' 9 5 0 = 9" by code_simp
  moreover have "user_owner sample_cache 10 = Some ''b''" by code_simp
  ultimately show ?thesis
    using resolve_uid_ignores_recorded [OF sample_ok(1) quiet_engine_quiet, of 5 "\<lambda>_. 0" "''b''" 9] by simp
qed

end
