(* ===== verification/Example_Directory.thy ===== *)
theory Example_Directory
  imports Service Cache_Spec
begin

text \<open>
  A small directory for the concrete runs: two users, two groups, and a hash that sends every
  identifier to the first slot, so that ids collide.
\<close>

section \<open>A concrete directory\<close>

definition demo_http :: "bool \<Rightarrow> http_env" where
  "demo_http up = \<lparr>
     he_net = (\<lambda>log rq. (if up then Reply 200 (Some (rq_url rq)) else NoReply 7, 5)),
     he_redirects = (\<lambda>log rq. if rq_url rq = ''https://idp/Groups''
       then [rq\<lparr>rq_url := ''http://mirror/Groups'', rq_authorization := None\<rparr>] else []),
     he_parse = (\<lambda>body.
       if body = ''https://idp/Users'' then Some (DObj [(''totalResults'', DInt 2), (''Resources'', DArr
         [DObj [(''id'', DStr ''a''), (''userName'', DStr ''ann''),
            (''groups'', DArr [DObj [(''value'', DStr ''g'')], DObj [(''value'', DStr ''h'')]])],
          DObj [(''id'', DStr ''b''), (''userName'', DStr ''bob''), (''active'', DBool False)]])])
       else if body = ''https://idp/Groups'' then Some (DObj [(''totalResults'', DInt 2), (''Resources'', DArr
         [DObj [(''id'', DStr ''g''), (''displayName'', DStr ''staff'')],
          DObj [(''id'', DStr ''h''), (''displayName'', DStr ''ops''),
            (''members'', DArr [DObj [(''value'', DStr ''a''), (''display'', DStr ''ann'')]])]])])
       else None),
     he_percent_encode = (\<lambda>_ s. s)\<rparr>"

definition demo_env :: "bool \<Rightarrow> env" where
  "demo_env up = \<lparr>env_http = demo_http up, env_db = quiet_engine\<lparr>eng_now := (\<lambda>_. 1000)\<rparr>, env_hash = (\<lambda>_. 0)\<rparr>"

definition demo_config :: "offline_auth_policy \<Rightarrow> config" where
  "demo_config policy = \<lparr>
     cfg_scim = \<lparr>cs_base_url = ''https://idp'', cs_bearer_token_file = ''/t'', cs_bearer_token = ''t''\<rparr>,
     cfg_oidc = \<lparr>co_issuer_url = ''https://idp'', co_client_id = ''c'', co_client_secret = None,
                 co_allow_insecure = False\<rparr>,
     cfg_mapping = \<lparr>uid_range_min = 1000, uid_range_size = 5, gid_range_min = 2000, gid_range_size = 5\<rparr>,
     cfg_user_defaults = \<lparr>ud_shell = ''/bin/sh'', ud_home_template = ''/home/{user}''\<rparr>,
     cfg_cache = \<lparr>cc_db_path = ''/c.db'', cc_ttl_seconds = 3600\<rparr>,
     cfg_security = \<lparr>offline_policy = policy\<rparr>\<rparr>"

definition demo_service :: "offline_auth_policy \<Rightarrow> service" where
  "demo_service policy = \<lparr>sv_scim = scim_client_new ''https://idp/'' ''t'', sv_config = demo_config policy\<rparr>"

definition demo_world :: world where
  "demo_world = \<lparr>sent = [], redirected = [], mono = 0, w_cache = empty_cache\<rparr>"

lemma demo_tables: "schema_ok (env_db (demo_env up)) (w_cache demo_world)"
  by (simp add: demo_env_def demo_world_def empty_cache_def schema_defs)

end
