(* ===== verification/Logging.thy ===== *)
theory Logging
  imports Prelude
begin

text \<open>
  \<open>src/logging.rs\<close>: the level read from the environment, the layer that turns an event into a call
  of \<open>syslog(3)\<close>, the visitor that collects the fields of an event, and the set-up. The registry of
  tracing hands an event to the layer when its level passes the filter.
\<close>

datatype log_level = ERROR | WARN | INFO | DEBUG | TRACE

text \<open>A level is below another when it is less verbose, as in tracing; a filter is a level or off.\<close>

primrec verbosity :: "log_level \<Rightarrow> nat" where
  "verbosity ERROR = 1" | "verbosity WARN = 2" | "verbosity INFO = 3" | "verbosity DEBUG = 4" | "verbosity TRACE = 5"

instantiation log_level :: linorder
begin

definition less_eq_log_level :: "log_level \<Rightarrow> log_level \<Rightarrow> bool" where
  "less_eq_log_level a b \<longleftrightarrow> verbosity a \<le> verbosity b"

definition less_log_level :: "log_level \<Rightarrow> log_level \<Rightarrow> bool" where
  "less_log_level a b \<longleftrightarrow> verbosity a < verbosity b"

instance
proof
  fix a b :: log_level
  show "a \<le> b \<Longrightarrow> b \<le> a \<Longrightarrow> a = b"
    by (cases a; cases b) (simp_all add: less_eq_log_level_def)
qed (auto simp: less_eq_log_level_def less_log_level_def)

end

type_synonym level_filter = "log_level option"

definition facility_authpriv :: int where "facility_authpriv = 80"
definition facility_daemon :: int where "facility_daemon = 24"

text \<open>
  \<open>to_lowercase\<close> on the letters of the names below; no other character has a lower case in them.
\<close>

definition to_lower :: "string \<Rightarrow> string" where
  "to_lower = map (\<lambda>c. if 65 \<le> (of_char c :: nat) \<and> (of_char c :: nat) \<le> 90 then char_of ((of_char c :: nat) + 32) else c)"

definition parse_level :: "(string \<Rightarrow> string option) \<Rightarrow> level_filter" where
  "parse_level env_var =
     (let v = to_lower (case env_var ''SSSD_OIDC_LOG'' of Some s \<Rightarrow> s | None \<Rightarrow> []) in
      if v = ''error'' then Some ERROR
      else if v = ''warn'' then Some WARN
      else if v = ''info'' then Some INFO
      else if v = ''debug'' then Some DEBUG
      else if v = ''trace'' then Some TRACE
      else if v = ''off'' then None
      else Some WARN)"

section \<open>Events\<close>

text \<open>
  A recorded value comes as a string (\<open>record_str\<close>) or formatted with \<open>Debug\<close> (\<open>record_debug\<close>);
  both are treated alike, with the text of the value.
\<close>

record log_field =
  lf_name :: string
  lf_value :: string

record log_event =
  le_level :: log_level
  le_module :: "string option"
  le_fields :: "log_field list"

record message_visitor =
  mv_message :: "string option"
  mv_fields :: string

definition record_field :: "log_field \<Rightarrow> message_visitor \<Rightarrow> message_visitor" where
  "record_field f v =
     (if lf_name f = ''message'' then v\<lparr>mv_message := Some (lf_value f)\<rparr>
      else let sep = (if mv_fields v = [] then [] else '' '')
           in v\<lparr>mv_fields := mv_fields v @ sep @ lf_name f @ ''='' @ lf_value f\<rparr>)"

primrec syslog_priority :: "log_level \<Rightarrow> int" where
  "syslog_priority ERROR = 3"
| "syslog_priority WARN = 4"
| "syslog_priority INFO = 6"
| "syslog_priority DEBUG = 7"
| "syslog_priority TRACE = 7"

definition event_line :: "log_event \<Rightarrow> string" where
  "event_line ev =
     (let v = fold record_field (le_fields ev) \<lparr>mv_message = None, mv_fields = []\<rparr>;
          modpath = (case le_module ev of Some m \<Rightarrow> m | None \<Rightarrow> ''sssd_oidc'')
      in case mv_message v of
           Some m \<Rightarrow> if mv_fields v = [] then ''['' @ modpath @ ''] '' @ m
                     else ''['' @ modpath @ ''] '' @ m @ '' '' @ mv_fields v
         | None \<Rightarrow> if mv_fields v = [] then ''['' @ modpath @ ''] (event)''
                   else ''['' @ modpath @ ''] '' @ mv_fields v)"

text \<open>\<open>on_event\<close>: the calls of \<open>syslog\<close>, with their priority and text.\<close>

definition on_event :: "log_event \<Rightarrow> (int \<times> string) list" where
  "on_event ev =
     (let msg = event_line ev in
      if NUL \<in> set msg then [] else [(syslog_priority (le_level ev), msg)])"

definition passes :: "level_filter \<Rightarrow> log_level \<Rightarrow> bool" where
  "passes flt l = (case flt of None \<Rightarrow> False | Some m \<Rightarrow> l \<le> m)"

definition logged :: "level_filter \<Rightarrow> log_event \<Rightarrow> (int \<times> string) list" where
  "logged flt ev = (if passes flt (le_level ev) then on_event ev else [])"

section \<open>Set-up\<close>

text \<open>What the process may have as its tracing subscriber: none, one of its own, or the registry with a
  level and the layer of this module.\<close>

datatype subscriber = NoSubscriber | OtherSubscriber | SyslogSubscriber level_filter

text \<open>The statics \<open>INIT\<close> and \<open>IDENT\<close> of the module, and of the process the subscriber and the
  calls of \<open>openlog\<close> so far, with their ident, options and facility.\<close>

record log_state =
  ls_init :: bool
  ls_ident :: "string option"
  ls_openlog :: "(string \<times> int \<times> int) list"
  ls_subscriber :: subscriber

definition log_pid :: int where "log_pid = 1"
definition log_ndelay :: int where "log_ndelay = 8"

text \<open>\<open>IDENT.get_or_init\<close>: an ident with a zero byte is replaced.\<close>

definition ident_or_init :: "string \<Rightarrow> log_state \<Rightarrow> string" where
  "ident_or_init ident s =
     (case ls_ident s of
        Some i \<Rightarrow> i
      | None \<Rightarrow> if NUL \<in> set ident then ''sssd_oidc'' else ident)"

text \<open>\<open>try_init\<close> changes nothing where the process has a subscriber.\<close>

definition try_init :: "level_filter \<Rightarrow> subscriber \<Rightarrow> subscriber" where
  "try_init level sub = (case sub of NoSubscriber \<Rightarrow> SyslogSubscriber level | _ \<Rightarrow> sub)"

definition log_init :: "(string \<Rightarrow> string option) \<Rightarrow> string \<Rightarrow> int \<Rightarrow> log_state \<Rightarrow> log_state" where
  "log_init env_var ident facility s =
     (if ls_init s then s
      else let ident_c = ident_or_init ident s in
        s\<lparr>ls_init := True,
          ls_ident := Some ident_c,
          ls_openlog := ls_openlog s @ [(ident_c, log_pid + log_ndelay, facility)],
          ls_subscriber := try_init (parse_level env_var) (ls_subscriber s)\<rparr>)"

text \<open>What an event of the process makes of it.\<close>

definition emitted :: "log_state \<Rightarrow> log_event \<Rightarrow> (int \<times> string) list" where
  "emitted s ev =
     (case ls_subscriber s of
        SyslogSubscriber flt \<Rightarrow> logged flt ev
      | _ \<Rightarrow> [])"

section \<open>What reaches the log\<close>

fun spaced :: "string list \<Rightarrow> string" where
  "spaced [] = []"
| "spaced [x] = x"
| "spaced (x # y # zs) = x @ '' '' @ spaced (y # zs)"

definition pairs_of :: "log_field list \<Rightarrow> string list" where
  "pairs_of fs = map (\<lambda>f. lf_name f @ ''='' @ lf_value f) (filter (\<lambda>f. lf_name f \<noteq> ''message'') fs)"

lemma spaced_empty: "[] \<notin> set xs \<Longrightarrow> spaced xs = [] \<longleftrightarrow> xs = []"
  by (induction xs rule: spaced.induct) auto

lemma spaced_snoc: "xs \<noteq> [] \<Longrightarrow> spaced (xs @ [y]) = spaced xs @ '' '' @ y"
  by (induction xs rule: spaced.induct) auto

lemma pairs_nonempty: "[] \<notin> set (pairs_of fs)"
  by (auto simp: pairs_of_def)

lemma visited_fields:
  "mv_fields (fold record_field fs \<lparr>mv_message = None, mv_fields = []\<rparr>) = spaced (pairs_of fs)"
proof (induction fs rule: rev_induct)
  case (snoc f fs)
  show ?case
    using snoc spaced_snoc [of "pairs_of fs" "lf_name f @ ''='' @ lf_value f"] spaced_empty [OF pairs_nonempty, of fs]
    by (auto simp: record_field_def pairs_of_def Let_def)
qed (simp add: pairs_of_def)

lemma visited_message:
  "mv_message (fold record_field fs \<lparr>mv_message = None, mv_fields = []\<rparr>) =
     (case filter (\<lambda>f. lf_name f = ''message'') (rev fs) of f # _ \<Rightarrow> Some (lf_value f) | [] \<Rightarrow> None)"
  by (induction fs rule: rev_induct) (auto simp: record_field_def Let_def split: list.splits)

text \<open>The words of a log line: the module in brackets, the last message, the other fields in order.\<close>

definition log_words :: "log_event \<Rightarrow> string list" where
  "log_words ev =
     (let msgs = map lf_value (filter (\<lambda>f. lf_name f = ''message'') (le_fields ev));
          said = (if msgs = [] then [] else [last msgs]) @ pairs_of (le_fields ev)
      in (''['' @ (case le_module ev of Some m \<Rightarrow> m | None \<Rightarrow> ''sssd_oidc'') @ '']'') #
         (if said = [] then [''(event)''] else said))"

lemma spaced_Cons: "xs \<noteq> [] \<Longrightarrow> spaced (x # xs) = x @ '' '' @ spaced xs"
  by (cases xs) simp_all

lemma event_line_words: "event_line ev = spaced (log_words ev)"
proof (cases "filter (\<lambda>f. lf_name f = ''message'') (le_fields ev)" rule: rev_cases)
  case Nil
  then show ?thesis
    by (simp add: event_line_def log_words_def Let_def visited_fields visited_message rev_filter [symmetric]
        spaced_empty [OF pairs_nonempty] spaced_Cons)
next
  case (snoc fs f)
  then show ?thesis
    by (simp add: event_line_def log_words_def Let_def visited_fields visited_message rev_filter [symmetric]
        spaced_empty [OF pairs_nonempty] spaced_Cons)
qed

text \<open>An event that passes the filter is logged once, with the priority of its level, as its module
  in brackets, its last message if it has one, and all its other fields in order, one space between
  any two of these; it is lost when this text has a zero byte.\<close>

theorem event_logged_whole:
  "logged flt ev =
     (if passes flt (le_level ev) \<and> NUL \<notin> set (spaced (log_words ev))
      then [(syslog_priority (le_level ev), spaced (log_words ev))] else [])"
  by (simp add: logged_def on_event_def event_line_words)

text \<open>Only the first call takes effect, in whatever environment and with whatever ident the later ones
  come: the log is opened once, and what is logged depends on the first call alone.\<close>

fun inits :: "((string \<Rightarrow> string option) \<times> string \<times> int) list \<Rightarrow> log_state \<Rightarrow> log_state" where
  "inits [] s = s"
| "inits ((env_var, ident, facility) # cs) s = inits cs (log_init env_var ident facility s)"

lemma inits_done: "ls_init s \<Longrightarrow> inits cs s = s"
  by (induction cs s rule: inits.induct) (simp_all add: log_init_def)

theorem first_init_counts:
  assumes "\<not> ls_init s" "ls_ident s = None" "NUL \<notin> set ident"
  shows "inits ((env_var, ident, facility) # cs) s = log_init env_var ident facility s \<and>
    ls_openlog (inits ((env_var, ident, facility) # cs) s) = ls_openlog s @ [(ident, 9, facility)] \<and>
    emitted (inits ((env_var, ident, facility) # cs) s) ev =
      (if ls_subscriber s = NoSubscriber then logged (parse_level env_var) ev else emitted s ev)"
proof -
  have "ls_init (log_init env_var ident facility s)" by (simp add: log_init_def Let_def)
  with assms show ?thesis
    by (cases "ls_subscriber s")
      (simp_all add: inits_done log_init_def Let_def ident_or_init_def log_pid_def log_ndelay_def emitted_def try_init_def)
qed

text \<open>Where the process has a subscriber the module logs nothing, but it has opened the log all the same:
  from then on the messages the process itself sends to \<open>syslog\<close> carry the ident and the facility
  of the module.\<close>

lemma skipped_init_opens_log:
  assumes "\<not> ls_init s" "ls_ident s = None" "ls_subscriber s = OtherSubscriber"
  shows "ls_subscriber (log_init env_var ''sssd_oidc'' facility_daemon s) = OtherSubscriber \<and>
    last (ls_openlog (log_init env_var ''sssd_oidc'' facility_daemon s)) = (''sssd_oidc'', 9, facility_daemon)"
  using assms
  by (simp add: log_init_def Let_def ident_or_init_def try_init_def log_pid_def log_ndelay_def)

end
