(* ===== verification/Process.thy ===== *)
theory Process
  imports Service Logging
begin

text \<open>
  The process a module is loaded into: besides the wire and the cache it has a file system and its
  log. Both modules load their configuration and open the cache in the same environment.
\<close>

record process = world +
  p_fs :: fsys
  p_log :: log_state

record proc_env =
  pe_env :: env
  pe_env_var :: "string \<Rightarrow> string option"
  pe_parse_toml :: "string \<Rightarrow> doc option"
  pe_conn_open :: "string \<Rightarrow> (fsys, cache, sql_error) prog"

definition on_fs :: "(fsys, 'a, 'e) prog \<Rightarrow> ('z process_scheme, 'a, 'e) prog" where
  "on_fs m = zoomp p_fs (\<lambda>fs w. w\<lparr>p_fs := fs\<rparr>) m"

text \<open>\<open>logging::init\<close>, with the statics of the module.\<close>

definition start_log :: "proc_env \<Rightarrow> string \<Rightarrow> int \<Rightarrow> 'z process_scheme \<Rightarrow> 'z process_scheme" where
  "start_log N ident facility w = w\<lparr>p_log := log_init (pe_env_var N) ident facility (p_log w)\<rparr>"

definition init_logging :: "proc_env \<Rightarrow> string \<Rightarrow> int \<Rightarrow> ('z process_scheme, unit, 'e) prog" where
  "init_logging N ident facility w = ret () (start_log N ident facility w)"

text \<open>\<open>Config::load()\<close> in this environment.\<close>

definition load_config :: "proc_env \<Rightarrow> ('z process_scheme, config, config_error) prog" where
  "load_config N = on_fs (config_load (pe_env_var N) (pe_parse_toml N))"

text \<open>
  \<open>Cache::open\<close>, \<open>Service::new\<close>: the opened cache becomes the cache of the process; without one
  there is no service.
\<close>

definition open_service :: "proc_env \<Rightarrow> config \<Rightarrow> scim_client \<Rightarrow> ('z process_scheme, service option, unit) prog" where
  "open_service N cfg scim =
     matchp (on_fs (cache_open (env_db (pe_env N)) (pe_conn_open N)
               (cc_db_path (cfg_cache cfg)) (cc_ttl_seconds (cfg_cache cfg))))
       (\<lambda>cache.
          bindp (\<lambda>w. ret () (w\<lparr>w_cache := cache\<rparr>)) (\<lambda>_.
          bindp (service_new (pe_env N) cfg scim) (\<lambda>svc. ret (Some svc))))
       (\<lambda>_. ret None)"

text \<open>A process that logs nothing yet.\<close>

definition silent_log :: log_state where
  "silent_log = \<lparr>ls_init = False, ls_ident = None, ls_openlog = [], ls_subscriber = NoSubscriber\<rparr>"

lemma start_log_sel [simp]:
  "sent (start_log N i f w) = sent w" "mono (start_log N i f w) = mono w"
  "w_cache (start_log N i f w) = w_cache w" "p_fs (start_log N i f w) = p_fs w"
  "p_log (start_log N i f w) = log_init (pe_env_var N) i f (p_log w)"
  by (simp_all add: start_log_def)

text \<open>Only the first set-up counts, and nothing but the log depends on it.\<close>

lemma start_log_again [simp]: "start_log N i f (start_log M j g w) = start_log M j g w"
  by (simp add: start_log_def log_init_def Let_def)

lemma load_config_log [simp]: "fst (load_config N (start_log M i f w)) = fst (load_config N w)"
  by (simp add: load_config_def on_fs_def zoomp_def split: prod.split)

lemma http_send_log: "http_send H rq (start_log N i f w) = map_prod id (start_log N i f) (http_send H rq w)"
  by (auto simp: http_send_def Let_def start_log_def split: prod.split reply.split)

lemma scim_log:
  "scim_get_user_by_name H c n (start_log N i f w) = map_prod id (start_log N i f) (scim_get_user_by_name H c n w)"
  by (auto simp: scim_get_user_by_name_def get_json_def http_call_def read_json_def read_body_def tryp_def bindp_def
      matchp_def ret_def fail_def http_send_log split: prod.split outcome.split option.split if_splits)

lemma init_logging_eq [prog_inv]: "init_logging N i f w = (r, w') \<longleftrightarrow> r = Ok () \<and> w' = start_log N i f w"
  by (auto simp: init_logging_def ret_def)

lemma init_logging_keeps [preserved]:
  "(\<And>w l. P w \<Longrightarrow> P (w\<lparr>p_log := l\<rparr>)) \<Longrightarrow> keeps P (init_logging N i f)"
  by (simp add: keeps_def init_logging_def ret_def start_log_def)

lemma init_logging_no_panic [panic_free]: "no_panic (init_logging N i f)"
  by (simp add: no_panic_def init_logging_def ret_def)

end
