(* ===== verification/Nss_Buffer.thy ===== *)
theory Nss_Buffer
  imports Model
begin

text \<open>
  \<open>crates/nss_oidc/src/passwd.rs\<close> and \<open>group.rs\<close>, the part that fills the caller's struct and
  buffer. The memory of the process is a map from addresses to bytes, a pointer is an address;
  pointers are eight bytes, little endian, as on the supported 64-bit targets.
\<close>

type_synonym memory = "nat \<Rightarrow> char"

datatype nss_status = TryAgain | Unavail | NotFound | Success

fun status_code :: "nss_status \<Rightarrow> int" where
  "status_code TryAgain = -2"
| "status_code Unavail = -1"
| "status_code NotFound = 0"
| "status_code Success = 1"

definition erange :: int where "erange = 34"

record passwd =
  pw_name :: nat
  pw_passwd :: nat
  pw_uid :: u32
  pw_gid :: u32
  pw_gecos :: nat
  pw_dir :: nat
  pw_shell :: nat

record group_struct =
  cgr_name :: nat
  cgr_passwd :: nat
  cgr_gid :: u32
  cgr_mem :: nat

text \<open>What the caller's pointers reach: the memory, the two result structs, \<open>errno\<close>.\<close>

record caller =
  mem :: memory
  out_passwd :: passwd
  out_group :: group_struct
  errno :: int

definition store_bytes :: "nat \<Rightarrow> string \<Rightarrow> memory \<Rightarrow> memory" where
  "store_bytes p bs m = (\<lambda>a. if p \<le> a \<and> a < p + length bs then bs ! (a - p) else m a)"

text \<open>The result is the pointer, if there was room, with the new offset and memory.\<close>

definition write_str :: "nat \<Rightarrow> nat \<Rightarrow> nat \<Rightarrow> string \<Rightarrow> memory \<Rightarrow> (nat \<times> nat \<times> memory) option" where
  "write_str buf buflen offset s m =
     (let needed = length s + 1 in
      if buflen < offset + needed then None
      else let ptr = buf + offset in
        Some (ptr, offset + needed, store_bytes (ptr + length s) [NUL] (store_bytes ptr s m)))"

text \<open>
  Consecutive \<open>write_str\<close> calls, stopping at the first that fails: the pointers, the offset and
  the memory, and whether all fitted.
\<close>

fun write_strs :: "nat \<Rightarrow> nat \<Rightarrow> nat \<Rightarrow> string list \<Rightarrow> memory \<Rightarrow> (nat list \<times> nat) option \<times> memory" where
  "write_strs buf buflen offset [] m = (Some ([], offset), m)"
| "write_strs buf buflen offset (s # ss) m =
     (case write_str buf buflen offset s m of
        None \<Rightarrow> (None, m)
      | Some (p, offset', m') \<Rightarrow>
          (case write_strs buf buflen offset' ss m' of
             (None, m'') \<Rightarrow> (None, m'')
           | (Some (ps, offset''), m'') \<Rightarrow> (Some (p # ps, offset''), m'')))"

definition buffer_too_small :: "caller \<Rightarrow> nss_status \<times> caller" where
  "buffer_too_small c = (TryAgain, c\<lparr>errno := erange\<rparr>)"

definition fill_passwd_buf :: "user \<Rightarrow> nat \<Rightarrow> nat \<Rightarrow> caller \<Rightarrow> nss_status \<times> caller" where
  "fill_passwd_buf u buf buflen c =
     (case write_strs buf buflen 0 [u_name u, ''x'', u_gecos u, u_home u, u_shell u] (mem c) of
        (Some ([name, pass, gecos, dir, shell], _), m) \<Rightarrow>
          (Success, c\<lparr>mem := m,
             out_passwd := \<lparr>pw_name = name, pw_passwd = pass, pw_uid = u_uid u, pw_gid = u_gid u,
                            pw_gecos = gecos, pw_dir = dir, pw_shell = shell\<rparr>,
             errno := 0\<rparr>)
      | (_, m) \<Rightarrow> buffer_too_small (c\<lparr>mem := m\<rparr>))"

definition ptr_size :: nat where "ptr_size = 8"

definition ptr_bytes :: "nat \<Rightarrow> string" where
  "ptr_bytes p = map (\<lambda>i. char_of (p div 256 ^ i mod 256)) [0 ..< ptr_size]"

definition align_ptr :: "nat \<Rightarrow> nat" where
  "align_ptr offset =
     (let misalign = offset mod ptr_size in
      if misalign \<noteq> 0 then offset + (ptr_size - misalign) else offset)"

fun write_ptrs :: "nat \<Rightarrow> nat list \<Rightarrow> memory \<Rightarrow> memory" where
  "write_ptrs at_p [] m = m"
| "write_ptrs at_p (p # ps) m = write_ptrs (at_p + ptr_size) ps (store_bytes at_p (ptr_bytes p) m)"

definition fill_group_buf :: "group \<Rightarrow> nat \<Rightarrow> nat \<Rightarrow> caller \<Rightarrow> nss_status \<times> caller" where
  "fill_group_buf g buf buflen c =
     (case write_strs buf buflen 0 (g_name g # ''x'' # g_members g) (mem c) of
        (Some (name # pass # member_ptrs, offset), m) \<Rightarrow>
          (let offset' = align_ptr offset;
               ptrs_needed = (length member_ptrs + 1) * ptr_size
           in if buflen < offset' + ptrs_needed then buffer_too_small (c\<lparr>mem := m\<rparr>)
              else let gr_mem = buf + offset' in
                (Success, c\<lparr>mem := write_ptrs gr_mem (member_ptrs @ [0]) m,
                   out_group := \<lparr>cgr_name = name, cgr_passwd = pass, cgr_gid = g_gid g, cgr_mem = gr_mem\<rparr>,
                   errno := 0\<rparr>))
      | (_, m) \<Rightarrow> buffer_too_small (c\<lparr>mem := m\<rparr>))"

section \<open>Writes stay in the buffer\<close>

text \<open>Two memories that agree outside an address range.\<close>

definition same_outside :: "nat \<Rightarrow> nat \<Rightarrow> memory \<Rightarrow> memory \<Rightarrow> bool" where
  "same_outside lo hi m m' \<longleftrightarrow> (\<forall>a. a < lo \<or> hi \<le> a \<longrightarrow> m' a = m a)"

lemma same_outside_refl [simp]: "same_outside lo hi m m"
  by (simp add: same_outside_def)

lemma same_outside_trans: "same_outside lo hi m m' \<Longrightarrow> same_outside lo hi m' m'' \<Longrightarrow> same_outside lo hi m m''"
  by (simp add: same_outside_def)

lemma same_outside_mono:
  "same_outside lo hi m m' \<Longrightarrow> lo' \<le> lo \<Longrightarrow> hi \<le> hi' \<Longrightarrow> same_outside lo' hi' m m'"
  by (auto simp: same_outside_def)

lemma store_bytes_outside: "same_outside p (p + length bs) m (store_bytes p bs m)"
  by (auto simp: same_outside_def store_bytes_def)

lemma write_str_Some:
  "write_str buf buflen offset s m = Some (p, offset', m') \<longleftrightarrow>
     offset + length s + 1 \<le> buflen \<and> p = buf + offset \<and> offset' = offset + length s + 1 \<and>
     m' = store_bytes (p + length s) [NUL] (store_bytes p s m)"
  by (auto simp: write_str_def Let_def)

lemma write_str_None: "write_str buf buflen offset s m = None \<longleftrightarrow> buflen < offset + length s + 1"
  by (auto simp: write_str_def Let_def)

lemma write_str_outside:
  assumes "write_str buf buflen offset s m = Some (p, offset', m')"
  shows "same_outside p (buf + offset') m m'"
  using assms by (auto simp: write_str_Some same_outside_def store_bytes_def)

definition strs_size :: "string list \<Rightarrow> nat" where
  "strs_size ss = (\<Sum>s \<leftarrow> ss. length s + 1)"

lemma strs_size_simps [simp]: "strs_size [] = 0" "strs_size (s # ss) = length s + 1 + strs_size ss"
  by (simp_all add: strs_size_def)

lemma write_strs_outside:
  assumes "write_strs buf buflen offset ss m = (r, m')" "offset \<le> buflen"
  shows "same_outside (buf + offset) (buf + buflen) m m'"
  using assms
proof (induction ss arbitrary: offset m r)
  case (Cons s ss)
  show ?case
  proof (cases "write_str buf buflen offset s m")
    case None
    with Cons.prems show ?thesis by simp
  next
    case (Some t)
    obtain p o1 m1 where t: "t = (p, o1, m1)" by (cases t)
    note w = Some [unfolded t]
    then have o1: "o1 \<le> buflen" "offset \<le> o1" "p = buf + offset" by (auto simp: write_str_Some)
    have "same_outside (buf + offset) (buf + buflen) m m1"
      by (rule same_outside_mono [OF write_str_outside [OF w]]) (use o1 in auto)
    moreover obtain r2 where "write_strs buf buflen o1 ss m1 = (r2, m')"
      using Cons.prems(1) w by (auto split: prod.splits option.splits)
    then have "same_outside (buf + offset) (buf + buflen) m1 m'"
      by (rule same_outside_mono [OF Cons.IH [OF _ o1(1)]]) (use o1 in auto)
    ultimately show ?thesis by (rule same_outside_trans)
  qed
qed simp

lemma write_strs_fits:
  "(\<exists>ps offset' m'. write_strs buf buflen offset ss m = (Some (ps, offset'), m')) \<longleftrightarrow>
     ss = [] \<or> offset + strs_size ss \<le> buflen"
proof (induction ss arbitrary: offset m)
  case (Cons s ss)
  show ?case
  proof (cases "write_str buf buflen offset s m")
    case None
    then have "buflen < offset + length s + 1" by (simp only: write_str_None)
    with None show ?thesis by auto
  next
    case (Some t)
    obtain p o1 m1 where t: "t = (p, o1, m1)" by (cases t)
    note w = Some [unfolded t]
    then have o1: "o1 = offset + length s + 1" "o1 \<le> buflen" by (auto simp: write_str_Some)
    have "(\<exists>ps offset' m'. write_strs buf buflen offset (s # ss) m = (Some (ps, offset'), m')) \<longleftrightarrow>
        (\<exists>ps offset' m'. write_strs buf buflen o1 ss m1 = (Some (ps, offset'), m'))"
      using w by (cases "write_strs buf buflen o1 ss m1") (auto split: option.splits)
    then show ?thesis using Cons.IH [of o1 m1] o1 by auto
  qed
qed simp

section \<open>What the strings read back as\<close>

text \<open>The C string at an address, and what a C reader sees of a Rust string: up to its first NUL.\<close>

definition c_string_at :: "memory \<Rightarrow> nat \<Rightarrow> string \<Rightarrow> bool" where
  "c_string_at m p s \<longleftrightarrow> (\<forall>i < length s. m (p + i) = s ! i \<and> s ! i \<noteq> NUL) \<and> m (p + length s) = NUL"

definition c_view :: "string \<Rightarrow> string" where
  "c_view s = takeWhile (\<lambda>c. c \<noteq> NUL) s"

text \<open>A string and its terminator are in memory.\<close>

definition holds_str :: "memory \<Rightarrow> nat \<Rightarrow> string \<Rightarrow> bool" where
  "holds_str m p s \<longleftrightarrow> (\<forall>i < length s. m (p + i) = s ! i) \<and> m (p + length s) = NUL"

lemma holds_str_c_view: "holds_str m p s \<Longrightarrow> c_string_at m p (c_view s)"
proof -
  assume h: "holds_str m p s"
  have "i < length (c_view s) \<Longrightarrow> c_view s ! i = s ! i \<and> c_view s ! i \<noteq> NUL \<and> i < length s" for i
    using takeWhile_nth [of i "\<lambda>c. c \<noteq> NUL" s] nth_mem [of i "c_view s"] length_takeWhile_le [of "\<lambda>c. c \<noteq> NUL" s]
      set_takeWhileD [of "s ! i" "\<lambda>c. c \<noteq> NUL" s]
    by (auto simp: c_view_def)
  moreover have "m (p + length (c_view s)) = NUL"
  proof (cases "length (c_view s) < length s")
    case True
    then have "s ! length (c_view s) = NUL"
      using nth_length_takeWhile [of "\<lambda>c. c \<noteq> NUL" s] by (simp add: c_view_def)
    with True h show ?thesis by (simp add: holds_str_def)
  next
    case False
    then have "length (c_view s) = length s"
      using length_takeWhile_le [of "\<lambda>c. c \<noteq> NUL" s] by (simp add: c_view_def)
    with h show ?thesis by (simp add: holds_str_def)
  qed
  ultimately show ?thesis using h unfolding c_string_at_def holds_str_def by metis
qed

lemma c_view_id: "NUL \<notin> set s \<Longrightarrow> c_view s = s"
  by (auto simp: c_view_def takeWhile_eq_all_conv)

lemma write_str_holds:
  "write_str buf buflen offset s m = Some (p, offset', m') \<Longrightarrow> holds_str m' p s"
  by (auto simp: write_str_Some holds_str_def store_bytes_def)

lemma holds_str_outside:
  assumes "holds_str m p s" "same_outside lo hi m m'" "p + length s < lo"
  shows "holds_str m' p s"
  using assms by (auto simp: holds_str_def same_outside_def)

text \<open>The pointers of consecutive writes: every string lies at its pointer, inside the buffer.\<close>

lemma write_strs_holds:
  assumes "write_strs buf buflen offset ss m = (Some (ps, offset'), m')"
  shows "list_all2 (\<lambda>p s. holds_str m' p s \<and> buf + offset \<le> p \<and> p + length s < buf + offset') ps ss \<and>
    offset' = offset + strs_size ss \<and> (ss \<noteq> [] \<longrightarrow> offset' \<le> buflen)"
  using assms
proof (induction ss arbitrary: offset m ps)
  case (Cons s ss)
  from Cons.prems obtain p o1 m1 qs where w: "write_str buf buflen offset s m = Some (p, o1, m1)"
    and rest: "write_strs buf buflen o1 ss m1 = (Some (qs, offset'), m')" and ps: "ps = p # qs"
    by (auto split: option.splits prod.splits)
  note IH = Cons.IH [OF rest]
  have o1: "o1 = offset + length s + 1" "o1 \<le> buflen" "p = buf + offset" using w by (auto simp: write_str_Some)
  have "holds_str m' p s"
    by (rule holds_str_outside [OF write_str_holds [OF w] write_strs_outside [OF rest o1(2)]]) (use o1 in simp)
  moreover have "list_all2 (\<lambda>q t. holds_str m' q t \<and> buf + offset \<le> q \<and> q + length t < buf + offset') qs ss"
    by (rule list_all2_mono [OF conjunct1 [OF IH]]) (use o1 in auto)
  ultimately show ?case using IH o1 by (auto simp: ps)
qed simp

section \<open>The pointer array\<close>

text \<open>The pointer stored at an address.\<close>

definition ptr_at :: "memory \<Rightarrow> nat \<Rightarrow> nat" where
  "ptr_at m a = (\<Sum>i \<leftarrow> [0 ..< ptr_size]. of_char (m (a + i)) * 256 ^ i)"

lemma ptr_bytes_length [simp]: "length (ptr_bytes p) = ptr_size"
  by (simp add: ptr_bytes_def)

lemma ptr_bytes_nth: "i < ptr_size \<Longrightarrow> ptr_bytes p ! i = char_of (p div 256 ^ i mod 256)"
  by (simp add: ptr_bytes_def)

text \<open>Eight bytes hold any pointer of a 64-bit address space.\<close>

lemma base_256: "(\<Sum>i \<leftarrow> [0 ..< n]. p div 256 ^ i mod 256 * 256 ^ i) = p mod (256 :: nat) ^ n"
proof (induction n)
  case (Suc n)
  have "p mod 256 ^ Suc n = 256 ^ n * (p div 256 ^ n mod 256) + p mod 256 ^ n"
    by (metis mod_mult2_eq power_Suc2)
  with Suc show ?case by simp
qed simp

lemma ptr_at_store:
  assumes "p < 256 ^ ptr_size"
  shows "ptr_at (store_bytes a (ptr_bytes p) m) a = p"
proof -
  have "ptr_at (store_bytes a (ptr_bytes p) m) a =
      (\<Sum>i \<leftarrow> [0 ..< ptr_size]. p div 256 ^ i mod 256 * 256 ^ i)"
    unfolding ptr_at_def
    by (intro arg_cong [where f = sum_list] map_cong refl)
      (simp add: store_bytes_def ptr_bytes_nth)
  with assms show ?thesis by (simp add: base_256)
qed

lemma ptr_at_outside: "same_outside lo hi m m' \<Longrightarrow> a + ptr_size \<le> lo \<Longrightarrow> ptr_at m' a = ptr_at m a"
  unfolding ptr_at_def
  by (intro arg_cong [where f = sum_list] map_cong refl) (auto simp: same_outside_def)

lemma write_ptrs_outside: "same_outside a (a + length ps * ptr_size) m (write_ptrs a ps m)"
proof (induction ps arbitrary: a m)
  case (Cons p ps)
  have "same_outside a (a + length (p # ps) * ptr_size) m (store_bytes a (ptr_bytes p) m)"
    by (rule same_outside_mono [OF store_bytes_outside]) simp_all
  moreover have "same_outside a (a + length (p # ps) * ptr_size) (store_bytes a (ptr_bytes p) m)
      (write_ptrs a (p # ps) m)"
    using same_outside_mono [OF Cons.IH, of a] by (simp add: add.assoc)
  ultimately show ?case by (rule same_outside_trans)
qed simp

lemma write_ptrs_read:
  assumes "\<forall>p \<in> set ps. p < 256 ^ ptr_size" "i < length ps"
  shows "ptr_at (write_ptrs a ps m) (a + i * ptr_size) = ps ! i"
  using assms
proof (induction ps arbitrary: a m i)
  case (Cons p ps)
  show ?case
  proof (cases i)
    case 0
    have "ptr_at (write_ptrs (a + ptr_size) ps (store_bytes a (ptr_bytes p) m)) a =
        ptr_at (store_bytes a (ptr_bytes p) m) a"
      by (rule ptr_at_outside [OF write_ptrs_outside]) simp
    with 0 Cons.prems show ?thesis by (simp add: ptr_at_store)
  next
    case (Suc j)
    have "ptr_at (write_ptrs (a + ptr_size) ps (store_bytes a (ptr_bytes p) m)) (a + ptr_size + j * ptr_size) = ps ! j"
      by (rule Cons.IH) (use Suc Cons.prems in simp_all)
    with Suc show ?thesis by (simp add: add.assoc)
  qed
qed simp

section \<open>Filling the structs\<close>

text \<open>What the caller finds in a \<open>struct passwd\<close> and a \<open>struct group\<close>.\<close>

definition shows_user :: "caller \<Rightarrow> user \<Rightarrow> bool" where
  "shows_user c u \<longleftrightarrow>
     c_string_at (mem c) (pw_name (out_passwd c)) (c_view (u_name u)) \<and>
     c_string_at (mem c) (pw_passwd (out_passwd c)) ''x'' \<and>
     pw_uid (out_passwd c) = u_uid u \<and> pw_gid (out_passwd c) = u_gid u \<and>
     c_string_at (mem c) (pw_gecos (out_passwd c)) (c_view (u_gecos u)) \<and>
     c_string_at (mem c) (pw_dir (out_passwd c)) (c_view (u_home u)) \<and>
     c_string_at (mem c) (pw_shell (out_passwd c)) (c_view (u_shell u))"

definition shows_group :: "caller \<Rightarrow> group \<Rightarrow> bool" where
  "shows_group c g \<longleftrightarrow>
     c_string_at (mem c) (cgr_name (out_group c)) (c_view (g_name g)) \<and>
     c_string_at (mem c) (cgr_passwd (out_group c)) ''x'' \<and>
     cgr_gid (out_group c) = g_gid g \<and>
     (\<forall>i < length (g_members g).
        ptr_at (mem c) (cgr_mem (out_group c) + i * ptr_size) \<noteq> 0 \<and>
        c_string_at (mem c) (ptr_at (mem c) (cgr_mem (out_group c) + i * ptr_size)) (c_view (g_members g ! i))) \<and>
     ptr_at (mem c) (cgr_mem (out_group c) + length (g_members g) * ptr_size) = 0"

lemma c_view_x [simp]: "c_view ''x'' = ''x''"
  by code_simp

definition passwd_size :: "user \<Rightarrow> nat" where
  "passwd_size u = strs_size [u_name u, ''x'', u_gecos u, u_home u, u_shell u]"

lemma fill_passwd_cases:
  obtains (fits) p1 p2 p3 p4 p5 k m where
      "write_strs buf buflen 0 [u_name u, ''x'', u_gecos u, u_home u, u_shell u] (mem c) =
         (Some ([p1, p2, p3, p4, p5], k), m)"
      "passwd_size u \<le> buflen"
      "fill_passwd_buf u buf buflen c = (Success, c\<lparr>mem := m,
         out_passwd := \<lparr>pw_name = p1, pw_passwd = p2, pw_uid = u_uid u, pw_gid = u_gid u,
           pw_gecos = p3, pw_dir = p4, pw_shell = p5\<rparr>, errno := 0\<rparr>)"
    | (small) m where
      "write_strs buf buflen 0 [u_name u, ''x'', u_gecos u, u_home u, u_shell u] (mem c) = (None, m)"
      "buflen < passwd_size u"
      "fill_passwd_buf u buf buflen c = (TryAgain, c\<lparr>mem := m, errno := erange\<rparr>)"
proof -
  let ?ss = "[u_name u, ''x'', u_gecos u, u_home u, u_shell u]"
  obtain r m where w: "write_strs buf buflen 0 ?ss (mem c) = (r, m)"
    by (cases "write_strs buf buflen 0 ?ss (mem c)")
  note iff = write_strs_fits [of buf buflen 0 ?ss "mem c", folded passwd_size_def]
  show thesis
  proof (cases r)
    case None
    have "buflen < passwd_size u" using iff w None by (auto simp: not_le [symmetric])
    then show ?thesis
      using w None by (intro small [of m]) (simp_all add: fill_passwd_buf_def buffer_too_small_def del: write_strs.simps)
  next
    case (Some t)
    then obtain ps k where r: "r = Some (ps, k)" by (cases t) auto
    have "length ps = 5"
      using write_strs_holds [OF w [unfolded r]] by (auto dest: list_all2_lengthD)
    then obtain p1 p2 p3 p4 p5 where ps: "ps = [p1, p2, p3, p4, p5]"
      by (auto simp: numeral_eq_Suc length_Suc_conv)
    have "passwd_size u \<le> buflen" using iff w r by auto
    then show ?thesis
      using w r ps by (intro fits [of p1 p2 p3 p4 p5 k m]) (simp_all add: fill_passwd_buf_def del: write_strs.simps)
  qed
qed

lemma fill_passwd_result:
  "fill_passwd_buf u buf buflen c = (st, c') \<Longrightarrow>
   (if passwd_size u \<le> buflen then st = Success \<and> errno c' = 0 \<and> shows_user c' u
    else st = TryAgain \<and> errno c' = erange \<and> out_passwd c' = out_passwd c)"
proof -
  assume run: "fill_passwd_buf u buf buflen c = (st, c')"
  show ?thesis
  proof (cases rule: fill_passwd_cases [of buf buflen u c])
    case (fits p1 p2 p3 p4 p5 k m)
    then have "holds_str m p1 (u_name u)" "holds_str m p2 ''x''" "holds_str m p3 (u_gecos u)"
      "holds_str m p4 (u_home u)" "holds_str m p5 (u_shell u)"
      using write_strs_holds [OF fits(1)] by auto
    then show ?thesis
      using fits run holds_str_c_view holds_str_c_view [of m p2 "''x''"]
      by (auto simp: shows_user_def)
  next
    case (small m)
    with run show ?thesis by auto
  qed
qed

text \<open>C10: filling a \<open>struct passwd\<close> succeeds exactly when the five strings and their terminators fit the
  buffer; then the struct reads back as the user (each string up to its first NUL byte), and
  otherwise the caller is told to come again with a larger buffer (\<open>TRYAGAIN\<close>, \<open>ERANGE\<close>).\<close>

theorem fill_passwd_exact:
  assumes "fill_passwd_buf u buf buflen c = (st, c')"
  shows "if passwd_size u \<le> buflen then st = Success \<and> errno c' = 0 \<and> shows_user c' u
    else st = TryAgain \<and> errno c' = erange \<and> out_passwd c' = out_passwd c"
  using fill_passwd_result [OF assms] .

text \<open>A buffer of bytes at an address, and a caller with an empty one.\<close>

definition sample_caller :: caller where
  "sample_caller = \<lparr>mem = (\<lambda>_. CHR ''?''),
     out_passwd = \<lparr>pw_name = 0, pw_passwd = 0, pw_uid = 0, pw_gid = 0, pw_gecos = 0, pw_dir = 0, pw_shell = 0\<rparr>,
     out_group = \<lparr>cgr_name = 0, cgr_passwd = 0, cgr_gid = 0, cgr_mem = 0\<rparr>, errno = 7\<rparr>"

definition sample_passwd_user :: user where
  "sample_passwd_user = \<lparr>u_external_id = ''a'', u_name = ''al'', u_uid = 1000, u_gid = 2000, u_gecos = [],
     u_home = ''/h'', u_shell = ''/s'', u_active = True\<rparr>"

theorem fill_passwd_exact_witness:
  "shows_user (snd (fill_passwd_buf sample_passwd_user 64 12 sample_caller)) sample_passwd_user \<and>
   fst (fill_passwd_buf sample_passwd_user 64 11 sample_caller) = TryAgain"
proof -
  obtain st c where r: "fill_passwd_buf sample_passwd_user 64 12 sample_caller = (st, c)"
    by (cases "fill_passwd_buf sample_passwd_user 64 12 sample_caller")
  obtain st' c' where r': "fill_passwd_buf sample_passwd_user 64 11 sample_caller = (st', c')"
    by (cases "fill_passwd_buf sample_passwd_user 64 11 sample_caller")
  have "passwd_size sample_passwd_user = 12" by code_simp
  then show ?thesis
    using fill_passwd_exact [OF r] fill_passwd_exact [OF r'] by (simp add: r r')
qed

lemma align_ptr_props: "offset \<le> align_ptr offset" "align_ptr offset mod ptr_size = 0"
proof -
  show "offset \<le> align_ptr offset" by (simp add: align_ptr_def Let_def)
  have "(offset + (8 - offset mod 8)) mod 8 = 0" by presburger
  then show "align_ptr offset mod ptr_size = 0" by (simp add: align_ptr_def ptr_size_def Let_def)
qed

definition group_size :: "group \<Rightarrow> nat" where
  "group_size g = align_ptr (strs_size (g_name g # ''x'' # g_members g)) + (length (g_members g) + 1) * ptr_size"

lemma fill_group_cases:
  obtains (fits) p1 p2 ps k m where
      "write_strs buf buflen 0 (g_name g # ''x'' # g_members g) (mem c) = (Some (p1 # p2 # ps, k), m)"
      "k = strs_size (g_name g # ''x'' # g_members g)" "length ps = length (g_members g)"
      "group_size g \<le> buflen"
      "fill_group_buf g buf buflen c = (Success, c\<lparr>mem := write_ptrs (buf + align_ptr k) (ps @ [0]) m,
         out_group := \<lparr>cgr_name = p1, cgr_passwd = p2, cgr_gid = g_gid g, cgr_mem = buf + align_ptr k\<rparr>, errno := 0\<rparr>)"
    | (small) r m where
      "write_strs buf buflen 0 (g_name g # ''x'' # g_members g) (mem c) = (r, m)"
      "buflen < group_size g"
      "fill_group_buf g buf buflen c = (TryAgain, c\<lparr>mem := m, errno := erange\<rparr>)"
proof -
  let ?ss = "g_name g # ''x'' # g_members g"
  obtain r m where w: "write_strs buf buflen 0 ?ss (mem c) = (r, m)"
    by (cases "write_strs buf buflen 0 ?ss (mem c)")
  note iff = write_strs_fits [of buf buflen 0 ?ss "mem c"]
  have le: "strs_size ?ss \<le> group_size g" using align_ptr_props(1) [of "strs_size ?ss"] by (simp add: group_size_def del: strs_size_simps)
  show thesis
  proof (cases r)
    case None
    have "\<not> strs_size ?ss \<le> buflen" using iff w None by auto
    then have "buflen < group_size g" using le by linarith
    then show ?thesis
      using w None by (intro small [of r m]) (simp_all add: fill_group_buf_def buffer_too_small_def del: write_strs.simps)
  next
    case (Some t)
    then obtain qs k where r: "r = Some (qs, k)" by (cases t) auto
    note h = write_strs_holds [OF w [unfolded r]]
    have "length qs = length (g_members g) + 2" using h by (auto dest: list_all2_lengthD)
    then obtain p1 p2 ps where qs: "qs = p1 # p2 # ps" "length ps = length (g_members g)"
      by (auto simp: numeral_eq_Suc length_Suc_conv)
    have k: "k = strs_size ?ss" using h by simp
    have gs: "group_size g = align_ptr k + (length ps + 1) * ptr_size"
      unfolding group_size_def k qs(2) ..
    show ?thesis
    proof (cases "group_size g \<le> buflen")
      case True
      then have fill: "fill_group_buf g buf buflen c = (Success, c\<lparr>mem := write_ptrs (buf + align_ptr k) (ps @ [0]) m,
         out_group := \<lparr>cgr_name = p1, cgr_passwd = p2, cgr_gid = g_gid g, cgr_mem = buf + align_ptr k\<rparr>, errno := 0\<rparr>)"
        using w r qs gs by (simp add: fill_group_buf_def Let_def del: write_strs.simps)
      show ?thesis by (rule fits [OF w [unfolded r qs(1)] k qs(2) True fill])
    next
      case False
      then have "buflen < group_size g" by simp
      with w r qs gs show ?thesis
        by (intro small [of r m]) (simp_all add: fill_group_buf_def buffer_too_small_def Let_def del: write_strs.simps)
    qed
  qed
qed

lemma fill_group_result:
  assumes "fill_group_buf g buf buflen c = (st, c')" "0 < buf" "buf + buflen \<le> 256 ^ 8"
  shows "if group_size g \<le> buflen then st = Success \<and> errno c' = 0 \<and> shows_group c' g
    else st = TryAgain \<and> errno c' = erange \<and> out_group c' = out_group c"
proof (cases rule: fill_group_cases [of buf buflen g c])
  case (fits p1 p2 ps k m)
  define gr where "gr = buf + align_ptr k"
  define m' where "m' = write_ptrs gr (ps @ [0]) m"
  from write_strs_holds [OF fits(1)] have h: "holds_str m p1 (g_name g)" "holds_str m p2 ''x''"
    "p1 + length (g_name g) < buf + k" "p2 + 1 < buf + k" "k \<le> buflen"
    "list_all2 (\<lambda>p s. holds_str m p s \<and> buf \<le> p \<and> p + length s < buf + k) ps (g_members g)"
    by auto
  have gr: "buf + k \<le> gr" using align_ptr_props(1) [of k] by (simp add: gr_def)
  have out: "same_outside gr (gr + length (ps @ [0]) * ptr_size) m m'"
    unfolding m'_def by (rule write_ptrs_outside)
  have keep: "holds_str m' p s" if "holds_str m p s" "p + length s < buf + k" for p s
    by (rule holds_str_outside [OF that(1) out]) (use that(2) gr in simp)
  have small: "\<forall>p \<in> set (ps @ [0]). p < 256 ^ ptr_size"
    using h(5,6) assms(3) by (force simp: list_all2_conv_all_nth in_set_conv_nth ptr_size_def)
  have mem: "ptr_at m' (gr + i * ptr_size) \<noteq> 0 \<and> c_string_at m' (ptr_at m' (gr + i * ptr_size)) (c_view (g_members g ! i))"
    if i: "i < length (g_members g)" for i
  proof -
    have p: "ptr_at m' (gr + i * ptr_size) = ps ! i"
      unfolding m'_def using write_ptrs_read [OF small, of i] i fits(3) by (simp add: nth_append)
    have "holds_str m (ps ! i) (g_members g ! i) \<and> buf \<le> ps ! i \<and> ps ! i + length (g_members g ! i) < buf + k"
      using h(6) i by (simp add: list_all2_conv_all_nth)
    then show ?thesis using keep holds_str_c_view assms(2) unfolding p by simp
  qed
  have null: "ptr_at m' (gr + length (g_members g) * ptr_size) = 0"
    unfolding m'_def using write_ptrs_read [OF small, of "length ps"] fits(3) by (simp add: nth_append)
  have fill: "st = Success" "c' = c\<lparr>mem := m',
      out_group := \<lparr>cgr_name = p1, cgr_passwd = p2, cgr_gid = g_gid g, cgr_mem = gr\<rparr>, errno := 0\<rparr>"
    using fits(5) assms(1) by (auto simp: m'_def gr_def)
  have "shows_group c' g"
    using holds_str_c_view [OF keep [OF h(1,3)]] holds_str_c_view [OF keep [OF h(2)]] h(4) mem null
    by (simp add: shows_group_def fill(2))
  with fits(4) fill show ?thesis by simp
next
  case (small r m)
  with assms(1) show ?thesis by auto
qed

text \<open>C11: filling a \<open>struct group\<close> succeeds exactly when the strings, the padding and the array of member
  pointers with its null fit the buffer; then a C reader finds the name, the gid, one pointer per
  member, in order, to the member's name, and the null that ends the array (the buffer lies in a
  64-bit address space and not at address 0).\<close>

theorem fill_group_exact:
  assumes "fill_group_buf g buf buflen c = (st, c')" "0 < buf" "buf + buflen \<le> 256 ^ 8"
  shows "if group_size g \<le> buflen then st = Success \<and> errno c' = 0 \<and> shows_group c' g
    else st = TryAgain \<and> errno c' = erange \<and> out_group c' = out_group c"
  using fill_group_result [OF assms] .

definition sample_struct_group :: group where
  "sample_struct_group = \<lparr>g_external_id = ''g'', g_name = ''ops'', g_gid = 2000, g_members = [''al'', ''bo'']\<rparr>"

theorem fill_group_exact_witness:
  "shows_group (snd (fill_group_buf sample_struct_group 64 40 sample_caller)) sample_struct_group \<and>
   fst (fill_group_buf sample_struct_group 64 39 sample_caller) = TryAgain"
proof -
  obtain st c where r: "fill_group_buf sample_struct_group 64 40 sample_caller = (st, c)"
    by (cases "fill_group_buf sample_struct_group 64 40 sample_caller")
  obtain st' c' where r': "fill_group_buf sample_struct_group 64 39 sample_caller = (st', c')"
    by (cases "fill_group_buf sample_struct_group 64 39 sample_caller")
  have "group_size sample_struct_group = 40" by code_simp
  then show ?thesis
    using fill_group_exact [OF r] fill_group_exact [OF r'] by (simp add: r r')
qed

text \<open>The array of member pointers is aligned relative to the start of the buffer, not to the
  address: in a caller's buffer that does not start at a multiple of eight the array is misaligned.\<close>

theorem group_array_alignment:
  assumes "fill_group_buf g buf buflen c = (Success, c')"
  shows "cgr_mem (out_group c') mod ptr_size = buf mod ptr_size"
proof (cases rule: fill_group_cases [of buf buflen g c])
  case (fits p1 p2 ps k m)
  with assms align_ptr_props(2) [of k] show ?thesis by (auto simp: mod_add_eq [symmetric])
next
  case small
  with assms show ?thesis by simp
qed

theorem group_array_alignment_witness:
  "cgr_mem (out_group (snd (fill_group_buf sample_struct_group 65 40 sample_caller))) mod ptr_size = 1"
proof -
  have "group_size sample_struct_group = 40" by code_simp
  then obtain c' where r: "fill_group_buf sample_struct_group 65 40 sample_caller = (Success, c')"
    using fill_group_result [of sample_struct_group 65 40 sample_caller]
    by (cases "fill_group_buf sample_struct_group 65 40 sample_caller") auto
  from group_array_alignment [OF r] show ?thesis by (simp add: r ptr_size_def)
qed

text \<open>A name with a NUL byte (JSON strings may have one) is not refused: the caller gets the part
  before it, as if that were the account's name.\<close>

theorem name_cut_at_nul:
  assumes "fill_passwd_buf u buf buflen c = (Success, c')" "u_name u = pre @ NUL # rest" "NUL \<notin> set pre"
  shows "c_string_at (mem c') (pw_name (out_passwd c')) pre"
proof -
  have "c_view (u_name u) = pre"
    using assms(2,3) by (auto simp: c_view_def takeWhile_append)
  moreover have "shows_user c' u"
    using fill_passwd_result [OF assms(1)] by (simp split: if_splits)
  ultimately show ?thesis by (simp add: shows_user_def)
qed

theorem name_cut_at_nul_witness:
  "c_string_at (mem (snd (fill_passwd_buf (sample_passwd_user\<lparr>u_name := ''al'' @ NUL # ''z''\<rparr>) 64 20 sample_caller)))
     (pw_name (out_passwd (snd (fill_passwd_buf (sample_passwd_user\<lparr>u_name := ''al'' @ NUL # ''z''\<rparr>) 64 20 sample_caller)))) ''al''"
proof -
  let ?u = "sample_passwd_user\<lparr>u_name := ''al'' @ NUL # ''z''\<rparr>"
  have "passwd_size ?u = 14" by code_simp
  then obtain c' where r: "fill_passwd_buf ?u 64 20 sample_caller = (Success, c')"
    using fill_passwd_result [of ?u 64 20 sample_caller]
    by (cases "fill_passwd_buf ?u 64 20 sample_caller") auto
  have "NUL \<notin> set ''al''" by code_simp
  then show ?thesis using name_cut_at_nul [OF r, of "''al''" "''z''"] unfolding r by simp
qed

lemma fill_passwd_outside:
  "same_outside buf (buf + buflen) (mem c) (mem (snd (fill_passwd_buf u buf buflen c)))"
proof (cases rule: fill_passwd_cases [of buf buflen u c])
  case fits
  with write_strs_outside [OF fits(1)] show ?thesis by simp
next
  case small
  with write_strs_outside [OF small(1)] show ?thesis by simp
qed

lemma fill_group_outside:
  "same_outside buf (buf + buflen) (mem c) (mem (snd (fill_group_buf g buf buflen c)))"
proof (cases rule: fill_group_cases [of buf buflen g c])
  case (fits p1 p2 ps k m)
  have "same_outside buf (buf + buflen) (mem c) m" using write_strs_outside [OF fits(1)] by simp
  moreover have "same_outside buf (buf + buflen) m (write_ptrs (buf + align_ptr k) (ps @ [0]) m)"
    by (rule same_outside_mono [OF write_ptrs_outside])
      (use fits(2-4) in \<open>simp_all add: group_size_def\<close>)
  ultimately show ?thesis using fits(5) same_outside_trans by simp
next
  case small
  with write_strs_outside [OF small(1)] show ?thesis by simp
qed

text \<open>The ids a filled struct has.\<close>

lemma fill_passwd_ids:
  "fst (fill_passwd_buf u buf buflen c) = Success \<Longrightarrow>
   pw_uid (out_passwd (snd (fill_passwd_buf u buf buflen c))) = u_uid u \<and>
   pw_gid (out_passwd (snd (fill_passwd_buf u buf buflen c))) = u_gid u"
  by (cases rule: fill_passwd_cases [of buf buflen u c]) simp_all

lemma fill_group_id:
  "fst (fill_group_buf g buf buflen c) = Success \<Longrightarrow>
   cgr_gid (out_group (snd (fill_group_buf g buf buflen c))) = g_gid g"
  by (cases rule: fill_group_cases [of buf buflen g c]) simp_all

text \<open>Neither call writes a byte outside the caller's buffer, whatever the user or group.\<close>

theorem fills_stay_in_buffer:
  "same_outside buf (buf + buflen) (mem c) (mem (snd (fill_passwd_buf u buf buflen c))) \<and>
   same_outside buf (buf + buflen) (mem c) (mem (snd (fill_group_buf g buf buflen c)))"
  using fill_passwd_outside fill_group_outside by (rule conjI)

end
