(* ===== verification/Utf8.thy ===== *)
theory Utf8
  imports Prelude
begin

text \<open>
  \<open>CStr::to_str\<close>: the bytes of a C string as a Rust string, which is refused unless they are
  well-formed UTF-8 (table 3-7 of the Unicode standard).
\<close>

definition byte_in :: "nat \<Rightarrow> nat \<Rightarrow> char \<Rightarrow> bool" where
  "byte_in lo hi c \<longleftrightarrow> lo \<le> of_char c \<and> of_char c \<le> hi"

definition cont_byte :: "char \<Rightarrow> bool" where
  "cont_byte = byte_in 0x80 0xBF"

text \<open>The length of the well-formed sequence at the head of a string, if there is one.\<close>

definition utf8_head :: "string \<Rightarrow> nat option" where
  "utf8_head s =
     (case s of
        [] \<Rightarrow> None
      | a # r1 \<Rightarrow>
          if byte_in 0 0x7F a then Some 1
          else (case r1 of
            [] \<Rightarrow> None
          | b # r2 \<Rightarrow>
              if byte_in 0xC2 0xDF a then (if cont_byte b then Some 2 else None)
              else (case r2 of
                [] \<Rightarrow> None
              | c # r3 \<Rightarrow>
                  if byte_in 0xE0 0xEF a then
                    (if cont_byte c \<and>
                        (if byte_in 0xE0 0xE0 a then byte_in 0xA0 0xBF b
                         else if byte_in 0xED 0xED a then byte_in 0x80 0x9F b
                         else cont_byte b)
                     then Some 3 else None)
                  else (case r3 of
                    [] \<Rightarrow> None
                  | d # _ \<Rightarrow>
                      if byte_in 0xF0 0xF4 a \<and> cont_byte c \<and> cont_byte d \<and>
                         (if byte_in 0xF0 0xF0 a then byte_in 0x90 0xBF b
                          else if byte_in 0xF4 0xF4 a then byte_in 0x80 0x8F b
                          else cont_byte b)
                      then Some 4 else None))))"

lemma utf8_head_pos: "utf8_head s = Some n \<Longrightarrow> 0 < n \<and> n \<le> length s"
  by (auto simp: utf8_head_def split: list.splits if_splits)

function utf8_valid :: "string \<Rightarrow> bool" where
  "utf8_valid s =
     (s = [] \<or> (case utf8_head s of None \<Rightarrow> False | Some n \<Rightarrow> utf8_valid (drop n s)))"
  by pat_completeness auto
termination
  by (relation "measure length") (auto dest: utf8_head_pos)

declare utf8_valid.simps [simp del]

definition to_str :: "string \<Rightarrow> string option" where
  "to_str bytes = (if utf8_valid bytes then Some bytes else None)"

text \<open>ASCII strings are valid, and so is the concatenation of valid strings.\<close>

lemma utf8_valid_Nil [simp]: "utf8_valid []"
  by (simp add: utf8_valid.simps)

lemma utf8_valid_ascii: "byte_in 0 0x7F c \<Longrightarrow> utf8_valid (c # s) = utf8_valid s"
  by (subst utf8_valid.simps) (simp add: utf8_head_def)

lemma utf8_ascii: "list_all (byte_in 0 0x7F) s \<Longrightarrow> utf8_valid s"
  by (induction s) (simp_all add: utf8_valid_ascii)

end
