(* ===== verification/Nss_Module.thy ===== *)
theory Nss_Module
  imports Process Nss_Buffer Utf8
begin

text \<open>
  The NSS module (\<open>crates/nss_oidc/src\<close>): the state shared by its entry points
  (\<open>state.rs\<close>), the entry points of \<open>ffi.rs\<close> with the lookups of \<open>passwd.rs\<close> and \<open>group.rs\<close>
  behind them. An entry point is a program of the process: it ends with a status, or with a
  panic, which aborts the process at the \<open>extern "C"\<close> boundary. The statics of the source
  (\<open>STATE\<close>, \<open>USER_ENUM\<close>, \<open>GROUP_ENUM\<close>, and whether a mutex is poisoned) are fields of the
  state, and so is what the caller's pointers reach.
\<close>

record nss_state =
  ns_scim :: scim_client
  ns_service :: service

record nss_world = process +
  nw_state :: "nss_state option option"
  service_poisoned :: bool
  user_enum :: "(user list \<times> nat) option"
  user_enum_poisoned :: bool
  group_enum :: "(group list \<times> nat) option"
  group_enum_poisoned :: bool
  nw_caller :: caller

type_synonym 'a nss = "(nss_world, 'a, unit) prog"

section \<open>The shared state\<close>

definition init_state :: "proc_env \<Rightarrow> nss_state option nss" where
  "init_state N =
     bindp (init_logging N ''sssd_oidc'' facility_daemon) (\<lambda>_.
     matchp (load_config N)
       (\<lambda>cfg.
          let scim = scim_client_new (cs_base_url (cfg_scim cfg)) (cs_bearer_token (cfg_scim cfg));
              svc_scim = scim_client_new (cs_base_url (cfg_scim cfg)) (cs_bearer_token (cfg_scim cfg))
          in bindp (open_service N cfg svc_scim) (\<lambda>svc. case svc of
               Some service \<Rightarrow> ret (Some \<lparr>ns_scim = scim, ns_service = service\<rparr>)
             | None \<Rightarrow> ret None))
       (\<lambda>_. ret None))"

text \<open>\<open>OnceLock::get_or_init\<close>: the first call runs the initialiser, every later one reads.\<close>

definition get_state :: "proc_env \<Rightarrow> nss_state option nss" where
  "get_state N w =
     (case nw_state w of
        Some st \<Rightarrow> ret st w
      | None \<Rightarrow> bindp (init_state N) (\<lambda>st w'. ret st (w'\<lparr>nw_state := Some st\<rparr>)) w)"

section \<open>Lookups\<close>

text \<open>\<open>*errnop = 0\<close> and a status.\<close>

definition reply_status :: "nss_status \<Rightarrow> nss_status nss" where
  "reply_status st w = ret st (w\<lparr>nw_caller := (nw_caller w)\<lparr>errno := 0\<rparr>\<rparr>)"

definition on_caller :: "(caller \<Rightarrow> nss_status \<times> caller) \<Rightarrow> nss_status nss" where
  "on_caller f w = (case f (nw_caller w) of (st, c) \<Rightarrow> ret st (w\<lparr>nw_caller := c\<rparr>))"

text \<open>The head of every lookup: get the state, lock the service.\<close>

definition with_service :: "proc_env \<Rightarrow> (service \<Rightarrow> nss_status nss) \<Rightarrow> nss_status nss" where
  "with_service N body =
     bindp (get_state N) (\<lambda>st. case st of
        None \<Rightarrow> reply_status Unavail
      | Some ns \<Rightarrow> (\<lambda>w. if service_poisoned w then reply_status Unavail w else body (ns_service ns) w))"

definition passwd_by_name :: "proc_env \<Rightarrow> string \<Rightarrow> nat \<Rightarrow> nat \<Rightarrow> nss_status nss" where
  "passwd_by_name N name buf buflen =
     (case to_str name of
        None \<Rightarrow> reply_status NotFound
      | Some name_str \<Rightarrow>
          with_service N (\<lambda>svc.
            matchp (lookup_user_by_name (pe_env N) svc name_str)
              (\<lambda>found. case found of
                 Some user \<Rightarrow> on_caller (fill_passwd_buf user buf buflen)
               | None \<Rightarrow> reply_status NotFound)
              (\<lambda>_. reply_status Unavail)))"

definition passwd_by_uid :: "proc_env \<Rightarrow> u32 \<Rightarrow> nat \<Rightarrow> nat \<Rightarrow> nss_status nss" where
  "passwd_by_uid N uid buf buflen =
     with_service N (\<lambda>svc.
       matchp (lookup_user_by_uid (pe_env N) svc uid)
         (\<lambda>found. case found of
            Some user \<Rightarrow> on_caller (fill_passwd_buf user buf buflen)
          | None \<Rightarrow> reply_status NotFound)
         (\<lambda>_. reply_status Unavail))"

definition group_by_name :: "proc_env \<Rightarrow> string \<Rightarrow> nat \<Rightarrow> nat \<Rightarrow> nss_status nss" where
  "group_by_name N name buf buflen =
     (case to_str name of
        None \<Rightarrow> reply_status NotFound
      | Some name_str \<Rightarrow>
          with_service N (\<lambda>svc.
            matchp (lookup_group_by_name (pe_env N) svc name_str)
              (\<lambda>found. case found of
                 Some grp \<Rightarrow> on_caller (fill_group_buf grp buf buflen)
               | None \<Rightarrow> reply_status NotFound)
              (\<lambda>_. reply_status Unavail)))"

definition group_by_gid :: "proc_env \<Rightarrow> u32 \<Rightarrow> nat \<Rightarrow> nat \<Rightarrow> nss_status nss" where
  "group_by_gid N gid buf buflen =
     with_service N (\<lambda>svc.
       matchp (lookup_group_by_gid (pe_env N) svc gid)
         (\<lambda>found. case found of
            Some grp \<Rightarrow> on_caller (fill_group_buf grp buf buflen)
          | None \<Rightarrow> reply_status NotFound)
         (\<lambda>_. reply_status Unavail))"

definition nss_getpwnam_r :: "proc_env \<Rightarrow> string \<Rightarrow> nat \<Rightarrow> nat \<Rightarrow> nss_status nss" where
  "nss_getpwnam_r N name buf buflen = passwd_by_name N name buf buflen"

definition nss_getpwuid_r :: "proc_env \<Rightarrow> u32 \<Rightarrow> nat \<Rightarrow> nat \<Rightarrow> nss_status nss" where
  "nss_getpwuid_r N uid buf buflen = passwd_by_uid N uid buf buflen"

definition nss_getgrnam_r :: "proc_env \<Rightarrow> string \<Rightarrow> nat \<Rightarrow> nat \<Rightarrow> nss_status nss" where
  "nss_getgrnam_r N name buf buflen = group_by_name N name buf buflen"

definition nss_getgrgid_r :: "proc_env \<Rightarrow> u32 \<Rightarrow> nat \<Rightarrow> nat \<Rightarrow> nss_status nss" where
  "nss_getgrgid_r N gid buf buflen = group_by_gid N gid buf buflen"

section \<open>Supplementary groups\<close>

text \<open>
  The array \<open>*groupsp\<close> of \<open>*size\<close> entries, of which the first \<open>*start\<close> are in use; glibc
  passes counts that are not negative.
\<close>

record gid_array =
  ga_start :: nat
  ga_size :: nat
  ga_buf :: "u32 list"

text \<open>The loop over the gids; the flag says whether there was room for all.\<close>

fun add_gids :: "u32 \<Rightarrow> u32 list \<Rightarrow> gid_array \<Rightarrow> bool \<times> gid_array" where
  "add_gids primary [] a = (True, a)"
| "add_gids primary (gid # gids) a =
     (if gid = primary then add_gids primary gids a
      else if gid \<in> set (take (ga_start a) (ga_buf a)) then add_gids primary gids a
      else if ga_size a \<le> ga_start a then (False, a)
      else add_gids primary gids
             (a\<lparr>ga_buf := (ga_buf a)[ga_start a := gid], ga_start := ga_start a + 1\<rparr>))"

definition nss_initgroups_dyn ::
  "proc_env \<Rightarrow> string \<Rightarrow> u32 \<Rightarrow> gid_array \<Rightarrow> int \<Rightarrow> (nss_status \<times> gid_array) nss" where
  "nss_initgroups_dyn N user primary a limit =
     (let with_array = (\<lambda>st. bindp (reply_status st) (\<lambda>s. ret (s, a))) in
      case to_str user of
        None \<Rightarrow> with_array NotFound
      | Some user_str \<Rightarrow>
          bindp (get_state N) (\<lambda>st. case st of
             None \<Rightarrow> with_array Unavail
           | Some ns \<Rightarrow> (\<lambda>w.
               if service_poisoned w then with_array Unavail w
               else matchp (lookup_groups_for_user (pe_env N) (ns_service ns) user_str)
                 (\<lambda>gids. case add_gids primary gids a of
                    (True, a') \<Rightarrow> bindp (reply_status Success) (\<lambda>s. ret (s, a'))
                  | (False, a') \<Rightarrow> (\<lambda>v. ret (TryAgain, a')
                      (v\<lparr>nw_caller := (nw_caller v)\<lparr>errno := erange\<rparr>\<rparr>)))
                 (\<lambda>_. with_array Unavail) w)))"

section \<open>Enumerations\<close>

text \<open>One round of the loop of \<open>setpwent\<close>: a user that cannot be converted is skipped, and the
  result of \<open>store_user\<close> is dropped.\<close>

definition enum_user :: "env \<Rightarrow> service \<Rightarrow> scim_user \<Rightarrow> ('z world_scheme, user option, unit) prog" where
  "enum_user V svc su =
     matchp (scim_user_to_model V svc su)
       (\<lambda>user. matchp (on_cache (store_user (env_db V) user)) (\<lambda>_. ret (Some user)) (\<lambda>_. ret (Some user)))
       (\<lambda>_. ret None)"

definition nss_setpwent :: "proc_env \<Rightarrow> nss_status nss" where
  "nss_setpwent N =
     bindp (get_state N) (\<lambda>st. case st of
        None \<Rightarrow> ret Unavail
      | Some ns \<Rightarrow>
          matchp (list_users (env_http (pe_env N)) (ns_scim ns))
            (\<lambda>scim_users w.
               if service_poisoned w then ret Unavail w
               else bindp (collectp (enum_user (pe_env N) (ns_service ns)) scim_users) (\<lambda>users v.
                 ret Success (if user_enum_poisoned v then v
                              else v\<lparr>user_enum := Some (List.map_filter (\<lambda>u. u) users, 0)\<rparr>)) w)
            (\<lambda>_. ret Unavail))"

definition nss_getpwent_r :: "nat \<Rightarrow> nat \<Rightarrow> nss_status nss" where
  "nss_getpwent_r buf buflen w =
     (if user_enum_poisoned w then reply_status Unavail w
      else case user_enum w of
        None \<Rightarrow> reply_status Unavail w
      | Some (users, idx) \<Rightarrow>
          (if length users \<le> idx then reply_status NotFound w
           else bindp (on_caller (fill_passwd_buf (users ! idx) buf buflen)) (\<lambda>status v.
             ret status (if status = Success then v\<lparr>user_enum := Some (users, idx + 1)\<rparr> else v)) w))"

definition nss_endpwent :: "nss_status nss" where
  "nss_endpwent w = ret Success (if user_enum_poisoned w then w else w\<lparr>user_enum := None\<rparr>)"

definition enum_group :: "env \<Rightarrow> service \<Rightarrow> scim_group \<Rightarrow> ('z world_scheme, group option, unit) prog" where
  "enum_group V svc sg =
     matchp (scim_group_to_model V svc sg)
       (\<lambda>grp. matchp (on_cache (store_group (env_db V) grp)) (\<lambda>_. ret (Some grp)) (\<lambda>_. ret (Some grp)))
       (\<lambda>_. ret None)"

definition nss_setgrent :: "proc_env \<Rightarrow> nss_status nss" where
  "nss_setgrent N =
     bindp (get_state N) (\<lambda>st. case st of
        None \<Rightarrow> ret Unavail
      | Some ns \<Rightarrow>
          matchp (list_groups (env_http (pe_env N)) (ns_scim ns))
            (\<lambda>scim_groups w.
               if service_poisoned w then ret Unavail w
               else bindp (collectp (enum_group (pe_env N) (ns_service ns)) scim_groups) (\<lambda>groups v.
                 ret Success (if group_enum_poisoned v then v
                              else v\<lparr>group_enum := Some (List.map_filter (\<lambda>g. g) groups, 0)\<rparr>)) w)
            (\<lambda>_. ret Unavail))"

definition nss_getgrent_r :: "nat \<Rightarrow> nat \<Rightarrow> nss_status nss" where
  "nss_getgrent_r buf buflen w =
     (if group_enum_poisoned w then reply_status Unavail w
      else case group_enum w of
        None \<Rightarrow> reply_status Unavail w
      | Some (groups, idx) \<Rightarrow>
          (if length groups \<le> idx then reply_status NotFound w
           else bindp (on_caller (fill_group_buf (groups ! idx) buf buflen)) (\<lambda>status v.
             ret status (if status = Success then v\<lparr>group_enum := Some (groups, idx + 1)\<rparr> else v)) w))"

definition nss_endgrent :: "nss_status nss" where
  "nss_endgrent w = ret Success (if group_enum_poisoned w then w else w\<lparr>group_enum := None\<rparr>)"

end
