(* ===== verification/Example_Process.thy ===== *)
theory Example_Process
  imports Example_Directory Nss_Module
begin

text \<open>A process that has loaded the module, for the concrete runs.\<close>

definition demo_nss :: "bool \<Rightarrow> proc_env" where
  "demo_nss up = \<lparr>pe_env = demo_env up, pe_env_var = (\<lambda>_. None), pe_parse_toml = (\<lambda>_. None),
     pe_conn_open = (\<lambda>_. ret empty_cache)\<rparr>"

definition demo_state :: nss_state where
  "demo_state = \<lparr>ns_scim = scim_client_new ''https://idp'' ''t'', ns_service = demo_service Deny\<rparr>"

definition demo_process :: "nss_state option option \<Rightarrow> nss_world" where
  "demo_process st = \<lparr>sent = [], redirected = [], mono = 0, w_cache = empty_cache,
     p_fs = \<lparr>fs_stat = (\<lambda>_. Err (IoError 2)), fs_text = (\<lambda>_. Err (IoError 2)),
              fs_chmod_error = (\<lambda>_. None), fs_euid = 0\<rparr>,
     p_log = silent_log,
     nw_state = st, service_poisoned = False, user_enum = None, user_enum_poisoned = False,
     group_enum = None, group_enum_poisoned = False, nw_caller = sample_caller\<rparr>"

abbreviation demo_running :: nss_world where
  "demo_running \<equiv> demo_process (Some (Some demo_state))"

end
