(* ===== verification/Cache_Ops.thy ===== *)
theory Cache_Ops
  imports Cache_Spec
begin

text \<open>
  The cache as a machine: the operations two processes may send to the database in any order,
  the constraints that hold after every sequence of them, the simulation of the table of users
  by an abstract directory that fixes the effect and the answer of each, and what a store, a lookup
  and an expiry promise.
\<close>

section \<open>Operations\<close>

datatype cache_op =
    ResolveUid string u32 u32
  | ResolveGid string u32 u32
  | StoreUser user
  | StoreGroup group
  | UserByUid u32
  | UserByName string
  | GroupByGid u32
  | GroupByName string
  | GroupsForMember string
  | PurgeExpired u64

text \<open>The tables after an operation, whether it succeeded or not.\<close>

fun run_op :: "engine \<Rightarrow> (string \<Rightarrow> u32) \<Rightarrow> cache_op \<Rightarrow> cache \<Rightarrow> cache" where
  "run_op E hash (ResolveUid eid lo rs) c = snd (resolve_uid E hash eid lo rs c)"
| "run_op E hash (ResolveGid eid lo rs) c = snd (resolve_gid E hash eid lo rs c)"
| "run_op E hash (StoreUser u) c = snd (store_user E u c)"
| "run_op E hash (StoreGroup g) c = snd (store_group E g c)"
| "run_op E hash (UserByUid uid) c = snd (get_user_by_uid E uid c)"
| "run_op E hash (UserByName name) c = snd (cached_user_by_name E name c)"
| "run_op E hash (GroupByGid gid) c = snd (get_group_by_gid E gid c)"
| "run_op E hash (GroupByName name) c = snd (cached_group_by_name E name c)"
| "run_op E hash (GroupsForMember name) c = snd (get_groups_for_member E name c)"
| "run_op E hash (PurgeExpired ttl) c = snd (purge_expired E ttl c)"

text \<open>What the caller learns about the users. The groups have a directory of their own.\<close>

datatype cache_answer =
    Done
  | Failed
  | Aborted
  | GivesId u32
  | GivesUser "user option"

definition answer_of :: "('a \<Rightarrow> cache_answer) \<Rightarrow> ('a, 'e) outcome \<Rightarrow> cache_answer" where
  "answer_of f r = (case r of Ok a \<Rightarrow> f a | Err e \<Rightarrow> Failed | Panic \<Rightarrow> Aborted)"

fun op_answer :: "engine \<Rightarrow> (string \<Rightarrow> u32) \<Rightarrow> cache_op \<Rightarrow> cache \<Rightarrow> cache_answer" where
  "op_answer E hash (ResolveUid eid lo rs) c = answer_of GivesId (fst (resolve_uid E hash eid lo rs c))"
| "op_answer E hash (ResolveGid eid lo rs) c = answer_of GivesId (fst (resolve_gid E hash eid lo rs c))"
| "op_answer E hash (StoreUser u) c = answer_of (\<lambda>_. Done) (fst (store_user E u c))"
| "op_answer E hash (StoreGroup g) c = answer_of (\<lambda>_. Done) (fst (store_group E g c))"
| "op_answer E hash (UserByUid uid) c = answer_of GivesUser (fst (get_user_by_uid E uid c))"
| "op_answer E hash (UserByName name) c = answer_of GivesUser (fst (cached_user_by_name E name c))"
| "op_answer E hash (GroupByGid gid) c = answer_of (\<lambda>_. Done) (fst (get_group_by_gid E gid c))"
| "op_answer E hash (GroupByName name) c = answer_of (\<lambda>_. Done) (fst (cached_group_by_name E name c))"
| "op_answer E hash (GroupsForMember name) c = answer_of (\<lambda>_. Done) (fst (get_groups_for_member E name c))"
| "op_answer E hash (PurgeExpired ttl) c = answer_of (\<lambda>_. Done) (fst (purge_expired E ttl c))"

text \<open>A lookup finds some live entry with a property, or nothing when there is none.\<close>

definition dir_finds :: "int \<Rightarrow> (string \<Rightarrow> uid_row option) \<Rightarrow> (uid_row \<Rightarrow> bool) \<Rightarrow> user option \<Rightarrow> bool" where
  "dir_finds bound d P v \<longleftrightarrow>
     (case v of
        None \<Rightarrow> \<not> (\<exists>k r. d k = Some r \<and> P r \<and> bound < ur_cached_at r)
      | Some u \<Rightarrow> \<exists>r. d (u_external_id u) = Some r \<and> P r \<and> bound < ur_cached_at r \<and> u = user_of_row r)"

fun about_groups :: "cache_op \<Rightarrow> bool" where
  "about_groups (ResolveGid _ _ _) = True"
| "about_groups (StoreGroup _) = True"
| "about_groups (GroupByGid _) = True"
| "about_groups (GroupByName _) = True"
| "about_groups (GroupsForMember _) = True"
| "about_groups _ = False"

text \<open>
  The abstract directory as a machine. \<open>now i\<close> is the time its \<open>i\<close>-th statement reads, \<open>ttl\<close> the
  time to live: an operation has one effect and one answer where it succeeds, and no effect where it
  does not. A purge reads the clock for the users in its third statement.
\<close>

inductive dir_step ::
  "(nat \<Rightarrow> int) \<Rightarrow> int \<Rightarrow> cache_op \<Rightarrow> (string \<Rightarrow> uid_row option) \<Rightarrow> cache_answer \<Rightarrow> (string \<Rightarrow> uid_row option) \<Rightarrow> bool"
  for now ttl
where
  stored: "dir_step now ttl (StoreUser u) d Done (dir_put (row_of_user u (now 0)) d)"
| purged: "dir_step now ttl (PurgeExpired s) d Done (dir_expire (now 2 - int (unat s)) d)"
| by_uid: "dir_finds (now 0 - ttl) d (\<lambda>r. ur_uid r = uid) v \<Longrightarrow> dir_step now ttl (UserByUid uid) d (GivesUser v) d"
| by_name: "dir_finds (now 0 - ttl) d (\<lambda>r. ur_login r = n) v \<Longrightarrow> dir_step now ttl (UserByName n) d (GivesUser v) d"
| resolved: "(\<And>k r. d k = Some r \<Longrightarrow> ur_uid r = i \<Longrightarrow> k = eid) \<Longrightarrow>
    dir_step now ttl (ResolveUid eid lo rs) d (GivesId i) d"
| empty_range: "dir_step now ttl (ResolveUid eid lo 0) d Aborted d"
| failed: "dir_step now ttl op d Failed d"
| of_groups: "about_groups op \<Longrightarrow> dir_step now ttl op d a d"

inductive_cases dir_step_store: "dir_step now ttl (StoreUser u) d a d'"
inductive_cases dir_step_purge: "dir_step now ttl (PurgeExpired s) d a d'"
inductive_cases dir_step_uid: "dir_step now ttl (UserByUid uid) d a d'"

section \<open>Every operation keeps the constraints and simulates the directory\<close>

lemma run_op_schema:
  assumes "schema_ok E c"
  shows "schema_ok E (run_op E hash op c)"
  using assms preserved by (cases op) (simp_all add: keeps_def)

lemma reads_directory:
  assumes "keeps (same_tables c) m"
  shows "directory (snd (m c)) = directory c"
  using assms same_tables_directory by (simp add: keeps_def)

lemma store_group_users: "keeps (\<lambda>s. uid_cache s = us) (store_group E g)"
  unfolding store_group_def
  by (intro preserved)
    (auto simp: keeps_def insert_gid_row_def delete_gid_rows_def delete_members_of_def insert_member_row_def Let_def
      intro!: keeps_statement)

lemma sql_purge_result:
  assumes "sql_purge E ttl f c = (r, c')"
  shows "\<exists>n. c' = c\<lparr>statements_run := n\<rparr> \<or> (\<exists>b. c' = f b (c\<lparr>statements_run := n\<rparr>))"
  using assms by (auto simp: sql_purge_def sql_statement_def Let_def split: option.splits outcome.splits)

lemma directory_untouched:
  "directory (delete_expired_members b s) = directory s"
  "directory (delete_expired_groups E b s) = directory s"
  by (simp_all add: directory_def [abs_def] delete_expired_members_def delete_expired_groups_def delete_gid_rows_def)

lemma sql_purge_exact:
  assumes "sql_purge E ttl f c = (r, c')"
  shows "(r = Ok () \<and> (\<exists>n b. c' = f b (c\<lparr>statements_run := n\<rparr>))) \<or> (r \<noteq> Ok () \<and> (\<exists>n. c' = c\<lparr>statements_run := n\<rparr>))"
  using assms by (auto simp: sql_purge_def sql_statement_def Let_def split: option.splits outcome.splits)

lemma purge_failed:
  assumes "purge_expired E ttl c = (r, c')" "r \<noteq> Ok ()"
  shows "directory c' = directory c"
proof -
  obtain r1 t1 where 1: "sql_purge E ttl delete_expired_members c = (r1, t1)"
    by (cases "sql_purge E ttl delete_expired_members c")
  obtain r2 t2 where 2: "sql_purge E ttl (delete_expired_groups E) t1 = (r2, t2)"
    by (cases "sql_purge E ttl (delete_expired_groups E) t1")
  obtain r3 t3 where 3: "sql_purge E ttl delete_expired_users t2 = (r3, t3)"
    by (cases "sql_purge E ttl delete_expired_users t2")
  have "directory t1 = directory c" "directory t2 = directory t1"
    using sql_purge_result [OF 1] sql_purge_result [OF 2] by (auto simp: directory_untouched)
  moreover have "r3 \<noteq> Ok () \<Longrightarrow> directory t3 = directory t2" using sql_purge_exact [OF 3] by auto
  moreover have "c' = t1 \<or> c' = t2 \<or> (c' = t3 \<and> r3 \<noteq> Ok ())"
    using assms 1 2 3 unfolding purge_expired_def
    by (cases r1; cases r2; cases r3) (auto simp: tryp_run ret_run)
  ultimately show ?thesis by auto
qed

lemma purge_done:
  assumes "schema_ok E c" "purge_expired E ttl c = (Ok x, c')"
  shows "directory c' = dir_expire (eng_now E (statements_run c + 2) - int (unat ttl)) (directory c)"
proof -
  let ?b = "eng_now E (statements_run c + 2) - int (unat ttl)"
  have rows: "uid_cache c' = filter (\<lambda>r. \<not> ur_cached_at r \<le> ?b) (uid_cache c)"
    using purge_expired_Ok [OF assms(2)] by auto
  have "directory c' = directory (delete_expired_users ?b c)"
    by (simp add: directory_def [abs_def] delete_expired_users_def rows)
  then show ?thesis using directory_expire [OF assms(1)] by simp
qed

lemma live_directory:
  assumes "schema_ok E c"
  shows "live_user b c r \<longleftrightarrow> directory c (ur_external_id r) = Some r \<and> b < ur_cached_at r"
  using directory_mem [OF assms] by (auto simp: live_user_def)

lemma lookups_find:
  assumes "schema_ok E c"
  shows "get_user_by_uid E uid c = (Ok v, c') \<Longrightarrow> dir_finds (fresh_bound E c) (directory c) (\<lambda>r. ur_uid r = uid) v"
    "cached_user_by_name E name c = (Ok v, c') \<Longrightarrow> dir_finds (fresh_bound E c) (directory c) (\<lambda>r. ur_login r = name) v"
proof -
  have key: "ur_external_id r = k" if "directory c k = Some r" for k r
    using that directory_mem [OF assms] by blast
  show "dir_finds (fresh_bound E c) (directory c) (\<lambda>r. ur_uid r = uid) v" if "get_user_by_uid E uid c = (Ok v, c')"
    using get_user_by_uid_Ok [OF that]
    by (cases v) (auto simp: dir_finds_def live_directory [OF assms] user_of_row_def dest: key)
  show "dir_finds (fresh_bound E c) (directory c) (\<lambda>r. ur_login r = name) v" if "cached_user_by_name E name c = (Ok v, c')"
    using cached_user_by_name_Ok [OF that]
    by (cases v) (auto simp: dir_finds_def live_directory [OF assms] user_of_row_def dest: key)
qed

lemma resolved_unowned:
  assumes "schema_ok E c" "resolve_uid E hash eid lo rs c = (Ok i, c')" "directory c k = Some r" "ur_uid r = i"
  shows "k = eid"
proof -
  have r: "r \<in> set (uid_cache c)" "ur_external_id r = k" using assms(1,3) directory_mem by blast+
  have "user_owner c i = Some k"
    using assms(1,4) r find_unique [where xs = "uid_cache c" and k = ur_uid and x = r] by (auto simp: user_owner_def schema_defs)
  moreover have "user_owner c i \<in> {None, Some eid}"
    using uid_slots.resolve_id_Ok [OF assms(1) assms(2) [unfolded resolve_uid_def]] by blast
  ultimately show ?thesis by simp
qed

lemma directory_simulated:
  assumes "schema_ok E c"
  shows "dir_step (\<lambda>i. eng_now E (statements_run c + i)) (int (unat (cache_ttl c))) op
    (directory c) (op_answer E hash op c) (directory (run_op E hash op c))"
proof (cases op)
  case (StoreUser u)
  obtain r c' where run: "store_user E u c = (r, c')" by (cases "store_user E u c")
  show ?thesis
  proof (cases "r = Ok ()")
    case True
    show ?thesis
      unfolding StoreUser using run store_user_directory [OF assms, of u "()" c'] True
        stored [of "\<lambda>i. eng_now E (statements_run c + i)" "int (unat (cache_ttl c))" u "directory c"]
      by (simp add: answer_of_def)
  next
    case False
    then have "directory c' = directory c" "\<exists>e. r = Err e"
      using run by (auto simp: store_user_def prog_inv dest!: sql_update_result)
    then show ?thesis unfolding StoreUser using run by (auto simp: answer_of_def failed)
  qed
next
  case (PurgeExpired ttl)
  obtain r c' where run: "purge_expired E ttl c = (r, c')" by (cases "purge_expired E ttl c")
  note no_panic = no_panicD [OF cache_no_panic(11) run]
  show ?thesis
  proof (cases r)
    case (Ok x)
    show ?thesis
      unfolding PurgeExpired run_op.simps op_answer.simps run Ok fst_conv snd_conv answer_of_def outcome.case
        purge_done [OF assms run [unfolded Ok]]
      by (rule purged)
  next
    case (Err e)
    with run purge_failed [OF run] show ?thesis unfolding PurgeExpired by (simp add: answer_of_def failed)
  qed (use no_panic in simp)
next
  case (UserByUid uid)
  obtain r c' where run: "get_user_by_uid E uid c = (r, c')" by (cases "get_user_by_uid E uid c")
  have d: "directory c' = directory c" using reads_directory [OF get_user_by_uid_reads] run by (metis snd_conv)
  show ?thesis
    using run d no_panicD [OF cache_no_panic(4) run] lookups_find(1) [OF assms, of uid]
    unfolding UserByUid by (cases r) (auto simp: answer_of_def failed fresh_bound_def intro: by_uid)
next
  case (UserByName n)
  obtain r c' where run: "cached_user_by_name E n c = (r, c')" by (cases "cached_user_by_name E n c")
  have d: "directory c' = directory c" using reads_directory [OF cached_user_by_name_reads] run by (metis snd_conv)
  show ?thesis
    using run d no_panicD [OF cache_no_panic(5) run] lookups_find(2) [OF assms, of n]
    unfolding UserByName by (cases r) (auto simp: answer_of_def failed fresh_bound_def intro: by_name)
next
  case (ResolveUid eid lo rs)
  obtain r c' where run: "resolve_uid E hash eid lo rs c = (r, c')" by (cases "resolve_uid E hash eid lo rs c")
  have d: "directory c' = directory c" using reads_directory [OF resolve_uid_reads] run by (metis snd_conv)
  have "rs = 0" if "r = Panic" using that no_panicD [OF resolve_no_panic(1) run] by blast
  then show ?thesis
    using run d resolved_unowned [OF assms] unfolding ResolveUid
    by (cases r) (auto simp: answer_of_def failed intro: resolved empty_range)
next
  case (StoreGroup g)
  have "directory (snd (store_group E g c)) = directory c"
    using keepsD [OF store_group_users refl, of E g c]
    by (cases "store_group E g c") (auto simp: directory_def [abs_def])
  then show ?thesis unfolding StoreGroup by (auto intro: of_groups)
next
  case (ResolveGid eid lo rs)
  then show ?thesis using reads_directory [OF resolve_gid_reads, where c = c] by (auto intro: of_groups)
next
  case (GroupByGid gid)
  then show ?thesis using reads_directory [OF get_group_by_gid_reads, where c = c] by (auto intro: of_groups)
next
  case (GroupByName n)
  then show ?thesis using reads_directory [OF cached_group_by_name_reads, where c = c] by (auto intro: of_groups)
next
  case (GroupsForMember n)
  then show ?thesis using reads_directory [OF get_groups_for_member_reads, where c = c] by (auto intro: of_groups)
qed

text \<open>C13: The table of users refines an abstract directory, a map from external identifiers to entries: every
  operation of the cache gives the answer and has the effect of the abstract machine. A store that
  succeeds puts exactly the entry of the user, with the time the statement read, and takes its uid from
  any former holder; a purge that succeeds drops exactly the entries whose age has reached the time to
  live; a lookup answers a live entry of that uid or name, or nothing exactly when there is none; a
  resolution gives an id no other account holds; and an operation that fails, or is about groups,
  changes nothing.\<close>

theorem cache_refines_directory:
  assumes "schema_ok E c"
  shows "dir_step (\<lambda>i. eng_now E (statements_run c + i)) (int (unat (cache_ttl c))) op
    (directory c) (op_answer E hash op c) (directory (run_op E hash op c))"
  by (rule directory_simulated [OF assms])

theorem cache_refines_directory_witness:
  "directory (run_op quiet_engine (\<lambda>_. 0) (StoreUser (sample_user ''a'' 10)) sample_cache) ''a'' =
     Some (row_of_user (sample_user ''a'' 10) 1000)"
proof -
  define u where "u = sample_user ''a'' 10"
  have "dir_step (\<lambda>i. eng_now quiet_engine (statements_run sample_cache + i)) (int (unat (cache_ttl sample_cache)))
      (StoreUser u) (directory sample_cache) Done (directory (run_op quiet_engine (\<lambda>_. 0) (StoreUser u) sample_cache))"
    using cache_refines_directory [OF sample_ok(1), of "StoreUser u" "\<lambda>_. 0"]
    by (simp add: u_def) (simp add: answer_of_def store_user_def sql_update_def sql_statement_def prog_simps sample_defs)
  then have "directory (run_op quiet_engine (\<lambda>_. 0) (StoreUser u) sample_cache) =
      dir_put (row_of_user u (eng_now quiet_engine (statements_run sample_cache))) (directory sample_cache)"
    by (auto elim!: dir_step_store)
  then show ?thesis
    unfolding u_def [symmetric]
    by (simp only:) (simp add: dir_put_def u_def row_of_user_def sample_defs)
qed

text \<open>Whatever operations are sent, in whatever order and with whatever failures of the database,
  the tables keep the constraints of the schema.\<close>

lemma cache_ops_keep_schema:
  assumes "schema_ok E c"
  shows "schema_ok E (fold (run_op E hash) ops c)"
  using assms by (induction ops arbitrary: c) (simp_all add: run_op_schema)

section \<open>Round trips\<close>

text \<open>With a database that answers and a time to live SQLite can hold, every lookup returns.\<close>

definition answering :: "engine \<Rightarrow> cache \<Rightarrow> bool" where
  "answering E c \<longleftrightarrow> (\<forall>n. eng_fault E n = None) \<and> unat (cache_ttl c) < 9223372036854775808"

lemma user_lookups_answer:
  assumes "answering E c"
  shows "\<exists>v c'. get_user_by_uid E uid c = (Ok v, c')" "\<exists>v c'. cached_user_by_name E name c = (Ok v, c')"
  using assms by (auto simp: answering_def get_user_by_uid_def cached_user_by_name_def prog_inv)

lemma group_of_row_answers:
  "answering E c \<Longrightarrow> \<exists>g c'. group_of_row E r c = (Ok g, c') \<and> answering E c'"
  by (auto simp: answering_def group_of_row_def get_group_members_def prog_inv)

lemma group_lookup_answers:
  assumes "answering E c"
  shows "\<exists>v c'. (case x of None \<Rightarrow> ret None | Some r \<Rightarrow> bindp (group_of_row E r) (\<lambda>g. ret (Some g))) c = (Ok v, c')"
  using group_of_row_answers [OF assms] by (cases x) (fastforce simp: prog_inv)+

lemma group_lookups_answer:
  assumes "answering E c"
  shows "\<exists>v c'. get_group_by_gid E gid c = (Ok v, c')" "\<exists>v c'. cached_group_by_name E name c = (Ok v, c')"
proof -
  have "answering E (c\<lparr>statements_run := n\<rparr>)" for n using assms by (simp add: answering_def)
  note runs = group_lookup_answers [OF this]
  show "\<exists>v c'. get_group_by_gid E gid c = (Ok v, c')" "\<exists>v c'. cached_group_by_name E name c = (Ok v, c')"
    using assms unfolding get_group_by_gid_def cached_group_by_name_def
    by (simp_all only: tryp_eq sql_select_fresh_Ok) (use runs in \<open>auto simp: answering_def\<close>)
qed

text \<open>A user just stored is what a lookup of its uid answers, unchanged in every field, as long as
  the clock has not moved on by the time to live.\<close>

theorem stored_user_found_by_uid:
  assumes "schema_ok E c" "store_user E u c = (Ok x, c1)"
    and "fresh_bound E c1 < eng_now E (statements_run c)"
    and "get_user_by_uid E (u_uid u) c1 = (Ok v, c2)"
  shows "v = Some u"
  using get_user_after_store [OF assms] .

theorem stored_user_found_by_uid_witness:
  "fst (get_user_by_uid quiet_engine 10 (snd (store_user quiet_engine (sample_user ''a'' 10) sample_cache)))
     = Ok (Some (sample_user ''a'' 10))"
proof -
  define c1 where "c1 = snd (store_user quiet_engine (sample_user ''a'' 10) sample_cache)"
  have st: "store_user quiet_engine (sample_user ''a'' 10) sample_cache = (Ok (), c1)"
    unfolding c1_def by code_simp
  have now: "fresh_bound quiet_engine c1 < eng_now quiet_engine (statements_run sample_cache)"
    by (simp add: c1_def fresh_bound_def store_user_def sql_update_def sql_statement_def prog_simps
        sample_defs insert_uid_row_def)
  have look: "\<exists>v c2. get_user_by_uid quiet_engine (u_uid (sample_user ''a'' 10)) c1 = (Ok v, c2)"
    by (rule user_lookups_answer) (simp add: answering_def c1_def store_user_def sql_update_def
        sql_statement_def prog_simps sample_defs insert_uid_row_def)
  show ?thesis
    using stored_user_found_by_uid [OF sample_ok(1) st now] look
    unfolding c1_def [symmetric] by (auto simp: sample_user_def)
qed

text \<open>C38: A group just stored is what a lookup of its gid answers, with the same members (in whatever
  order the database delivers them), as long as the clock has not moved on by the time to live.\<close>

theorem stored_group_found_by_gid:
  assumes "schema_ok E c" "store_group E g c = (Ok x, c1)"
    and "fresh_bound E c1 < eng_now E (statements_run c)"
    and "get_group_by_gid E (g_gid g) c1 = (Ok v, c2)"
  shows "\<exists>h. v = Some h \<and> g_external_id h = g_external_id g \<and> g_name h = g_name g \<and>
    g_gid h = g_gid g \<and> mset (g_members h) = mset (g_members g)"
  using get_group_after_store [OF assms] .

theorem stored_group_found_by_gid_witness:
  "\<exists>h. fst (get_group_by_gid quiet_engine 10
      (snd (store_group quiet_engine (sample_group ''h'' 10 [''x'', ''y'']) sample_groups))) = Ok (Some h) \<and>
    mset (g_members h) = {#''x'', ''y''#}"
proof -
  define c1 where "c1 = snd (store_group quiet_engine (sample_group ''h'' 10 [''x'', ''y'']) sample_groups)"
  have c1: "c1 = \<lparr>uid_cache = [], gid_cache = [group_row (sample_group ''h'' 10 []) 1000],
      group_members = [\<lparr>mr_group_external_id = ''h'', mr_member_name = ''x''\<rparr>,
        \<lparr>mr_group_external_id = ''h'', mr_member_name = ''y''\<rparr>], index_names = [], statements_run = 4, cache_ttl = 3600\<rparr>"
    unfolding c1_def by code_simp
  have st: "store_group quiet_engine (sample_group ''h'' 10 [''x'', ''y'']) sample_groups = (Ok (), c1)"
    unfolding c1 by code_simp
  have now: "fresh_bound quiet_engine c1 < eng_now quiet_engine (statements_run sample_groups)"
    by (simp add: c1 fresh_bound_def quiet_engine_def sample_groups_def empty_cache_def)
  have "\<exists>v c2. get_group_by_gid quiet_engine (g_gid (sample_group ''h'' 10 [''x'', ''y''])) c1 = (Ok v, c2)"
    by (rule group_lookups_answer) (simp add: answering_def c1 quiet_engine_def)
  then show ?thesis
    using stored_group_found_by_gid [OF sample_ok(2) st now]
    unfolding c1_def [symmetric] by (auto simp: sample_group_def)
qed

text \<open>C39: A group that names a member twice is not stored as one: the second insertion violates the
  primary key, the call fails, and since no transaction encloses the statements the row of the
  group stays in the table with only the members before the duplicate.\<close>

theorem store_group_duplicate_member_fails:
  assumes "\<forall>n. eng_fault E n = None" "schema_ok E c"
    and "g_members g = ms @ m # rest" "distinct ms" "m \<in> set ms"
  shows "\<exists>c'. store_group E g c = (Err (Sqlite ConstraintViolation), c') \<and>
    group_owner c' (g_gid g) = Some (g_external_id g) \<and> members_of (g_external_id g) c' = ms"
  using store_group_duplicate [OF assms] .

theorem store_group_duplicate_member_fails_witness:
  "fst (store_group quiet_engine (sample_group ''h'' 10 [''x'', ''x'', ''y'']) sample_groups) =
     Err (Sqlite ConstraintViolation)"
  using store_group_duplicate_member_fails
    [OF quiet_engine_quiet sample_ok(2), of "sample_group ''h'' 10 [''x'', ''x'', ''y'']" "[''x'']" "''x''" "[''y'']"]
  by (auto simp: sample_group_def)

section \<open>Expiry, membership, the file\<close>

text \<open>C40: A purge removes from the tables of users and groups exactly the rows whose age reached the
  time to live, and while the clock does not run backwards it leaves every remaining group its
  members.\<close>

theorem purge_removes_expired:
  assumes "purge_expired E ttl c = (Ok x, c')" "schema_ok E c"
    and "\<And>n. eng_now E n \<le> eng_now E (Suc n)"
  shows "\<exists>users_bound groups_bound.
    users_bound = eng_now E (statements_run c + 2) - int (unat ttl) \<and>
    groups_bound = eng_now E (statements_run c + 1) - int (unat ttl) \<and>
    uid_cache c' = filter (\<lambda>r. users_bound < ur_cached_at r) (uid_cache c) \<and>
    gid_cache c' = filter (\<lambda>r. groups_bound < gr_cached_at r) (gid_cache c) \<and>
    (\<forall>r \<in> set (gid_cache c'). members_of (gr_external_id r) c' = members_of (gr_external_id r) c)"
  using purge_expired_Ok [OF assms(1)] assms(2) assms(3) [of "statements_run c"]
  by (auto simp: schema_defs not_le)

theorem purge_removes_expired_witness:
  "gid_cache (snd (purge_expired quiet_engine 5 sample_groups)) = []"
proof -
  obtain c' where run: "purge_expired quiet_engine 5 sample_groups = (Ok (), c')"
    by (simp add: purge_expired_def prog_inv quiet_engine_def)
  have "gid_cache c' = filter (\<lambda>r. 996 < gr_cached_at r) (gid_cache sample_groups)"
    using purge_removes_expired [OF run sample_ok(2)]
    by (simp add: quiet_engine_def sample_groups_def empty_cache_def)
  moreover have "filter (\<lambda>r. 996 < gr_cached_at r) (gid_cache sample_groups) = []" by code_simp
  ultimately show ?thesis by (simp add: run)
qed

text \<open>The cached groups of a member are the live groups whose member list has the name: none is
  missing and none is added.\<close>

theorem groups_for_member_exact:
  assumes "get_groups_for_member E name c = (Ok gs, c')"
  shows "gid \<in> g_gid ` set gs \<longleftrightarrow>
    (\<exists>r. r \<in> set (gid_cache c) \<and> fresh_bound E c < gr_cached_at r \<and> gr_gid r = gid \<and>
       name \<in> set (members_of (gr_external_id r) c))"
  using get_groups_for_member_Ok [OF assms] by (simp add: live_group_def)

theorem groups_for_member_exact_witness:
  "\<exists>gs. fst (get_groups_for_member quiet_engine ''x'' sample_groups) = Ok gs \<and> 10 \<in> g_gid ` set gs"
proof -
  have "\<exists>gs c'. get_groups_for_member quiet_engine ''x'' sample_groups = (Ok gs, c')"
    by (rule runs_Ok) code_simp
  then obtain gs c' where run: "get_groups_for_member quiet_engine ''x'' sample_groups = (Ok gs, c')"
    by blast
  then show ?thesis
    using groups_for_member_exact [OF run, of 10]
    by (simp add: quiet_engine_def sample_groups_def empty_cache_def sample_group_def members_of_def fresh_bound_def)
qed

text \<open>C35: \<open>Cache::open\<close> on a file succeeds only when, at its end, the path is a regular file owned by
  root with mode 0600.\<close>

theorem cache_open_private:
  assumes "cache_open E conn_open path ttl fs = (Ok c, fs')" "path \<noteq> '':memory:''"
  shows "private_root_file fs' path \<and> cache_ttl c = ttl"
  using cache_open_Ok [OF assms(1)] assms(2) by simp

theorem cache_open_private_witness:
  "private_root_file (snd (cache_open quiet_engine (\<lambda>_. ret empty_cache) ''/c.db'' 60
     \<lparr>fs_stat = (\<lambda>_. Ok \<lparr>fm_is_file = True, fm_mode = 33188, fm_uid = 0\<rparr>),
      fs_text = (\<lambda>_. Ok []), fs_chmod_error = (\<lambda>_. None), fs_euid = 0\<rparr>)) ''/c.db''"
proof -
  define fs where "fs = \<lparr>fs_stat = (\<lambda>_. Ok \<lparr>fm_is_file = True, fm_mode = 33188, fm_uid = 0\<rparr>),
      fs_text = (\<lambda>_. Ok []), fs_chmod_error = (\<lambda>_. None), fs_euid = 0\<rparr>"
  have "\<exists>c fs'. cache_open quiet_engine (\<lambda>_. ret empty_cache) ''/c.db'' 60 fs = (Ok c, fs')"
    unfolding fs_def by (rule runs_Ok) code_simp
  then obtain c fs' where run: "cache_open quiet_engine (\<lambda>_. ret empty_cache) ''/c.db'' 60 fs = (Ok c, fs')"
    by blast
  show ?thesis
    using cache_open_private [OF run] unfolding fs_def [symmetric] by (simp add: run)
qed

end
