(* ===== verification/Service_Laws.thy ===== *)
theory Service_Laws
  imports Example_Directory Cache_Ops
begin

text \<open>
  What the service promises: where its requests go, that the tables stay well formed and no
  operation panics, that a listing gives every account an id of its own, what a lookup answers
  online and offline, and when an account counts as active.
\<close>

section \<open>Operations as a machine\<close>

datatype service_op =
    NewService
  | LookupUserByName string
  | LookupUserByUid u32
  | LookupGroupByName string
  | LookupGroupByGid u32
  | ListAllUsers
  | ListAllGroups
  | CheckUserActive string
  | LookupGroupsForUser string
  | IsOnline

definition finish :: "('s, 'a, 'e) prog \<Rightarrow> ('s, unit, unit) prog" where
  "finish m = matchp m (\<lambda>_. ret ()) (\<lambda>_. ret ())"

fun service_prog :: "env \<Rightarrow> service \<Rightarrow> service_op \<Rightarrow> (world, unit, unit) prog" where
  "service_prog V S NewService = finish
     (service_new V (sv_config S) (sv_scim S) :: (world, service, service_error) prog)"
| "service_prog V S (LookupUserByName n) = finish (lookup_user_by_name V S n)"
| "service_prog V S (LookupUserByUid u) = finish (lookup_user_by_uid V S u)"
| "service_prog V S (LookupGroupByName n) = finish (lookup_group_by_name V S n)"
| "service_prog V S (LookupGroupByGid g) = finish (lookup_group_by_gid V S g)"
| "service_prog V S ListAllUsers = finish (list_all_users V S)"
| "service_prog V S ListAllGroups = finish (list_all_groups V S)"
| "service_prog V S (CheckUserActive n) = finish (check_user_active V S n)"
| "service_prog V S (LookupGroupsForUser n) = finish (lookup_groups_for_user V S n)"
| "service_prog V S IsOnline = finish (service_is_online V S)"

definition run_service :: "env \<Rightarrow> service \<Rightarrow> service_op list \<Rightarrow> world \<Rightarrow> world" where
  "run_service V S ops w = fold (\<lambda>op w. snd (service_prog V S op w)) ops w"

lemmas service_defs = finish_def service_new_def lookup_user_by_name_def lookup_user_by_uid_def
  lookup_group_by_name_def lookup_group_by_gid_def list_all_users_def list_all_groups_def
  check_user_active_def lookup_groups_for_user_def service_is_online_def import_user_def [abs_def]
  import_group_def [abs_def] scim_user_to_model_def scim_group_to_model_def Let_def

lemma keeps_policy [preserved]:
  "keeps P m \<Longrightarrow> keeps P n \<Longrightarrow> keeps P (case p of CachedStatus \<Rightarrow> m | Deny \<Rightarrow> n)"
  by (cases p) simp_all

lemma no_panic_policy [panic_free]:
  "no_panic m \<Longrightarrow> no_panic n \<Longrightarrow> no_panic (case p of CachedStatus \<Rightarrow> m | Deny \<Rightarrow> n)"
  by (cases p) simp_all

section \<open>Requests\<close>

lemma on_cache_sent [preserved]: "keeps (sent_since H p Q) (on_cache m)"
  by (auto simp: keeps_def on_cache_def zoomp_def sent_since_def agent_since_def split: prod.split)

lemma service_prog_own: "keeps (sent_since (env_http V) p (own_request (sv_scim S))) (service_prog V S op)"
  by (cases op; simp only: service_prog.simps service_defs list_users_def list_groups_def;
      (intro preserved scim_own_requests)+)

section \<open>The tables stay well formed\<close>

definition tables_ok :: "env \<Rightarrow> 'z world_scheme \<Rightarrow> bool" where
  "tables_ok V w \<longleftrightarrow> schema_ok (env_db V) (w_cache w)"

lemma on_cache_tables [preserved]: "keeps (schema_ok (env_db V)) m \<Longrightarrow> keeps (tables_ok V) (on_cache m)"
  unfolding on_cache_def by (rule keeps_zoomp) (auto simp: tables_ok_def)

lemma get_json_tables: "keeps (tables_ok V) (get_json H d rq)"
  by (rule get_json_keeps) (simp add: tables_ok_def)

lemma paginate_tables: "keeps (tables_ok V) (paginate_list H c dec r)"
proof -
  have "keeps (tables_ok V) (paginate_pages H c dec r pages i all)" for pages i all
    by (induction pages arbitrary: i all) (auto simp: Let_def intro!: preserved get_json_tables)
  then show ?thesis unfolding paginate_list_def by (intro preserved)
qed

lemma is_online_tables: "keeps (tables_ok V) (is_online H c)"
  unfolding is_online_def by (intro preserved) (simp add: tables_ok_def)

lemma scim_lookup_tables:
  "keeps (tables_ok V) (scim_get_user_by_name H c n)" "keeps (tables_ok V) (scim_get_group_by_name H c n)"
  unfolding scim_get_user_by_name_def scim_get_group_by_name_def by (intro preserved get_json_tables)+

lemma service_prog_tables: "keeps (tables_ok V) (service_prog V S op)"
  by (cases op; simp only: service_prog.simps service_defs list_users_def list_groups_def;
      (intro preserved paginate_tables is_online_tables scim_lookup_tables)+)

section \<open>No panic\<close>

definition ranges_nonempty :: "service \<Rightarrow> bool" where
  "ranges_nonempty S \<longleftrightarrow>
     uid_range_size (cfg_mapping (sv_config S)) \<noteq> 0 \<and> gid_range_size (cfg_mapping (sv_config S)) \<noteq> 0"

lemma on_cache_no_panic [panic_free]: "no_panic m \<Longrightarrow> no_panic (on_cache m)"
  unfolding on_cache_def by (rule no_panic_zoomp)

lemma paginate_no_panic: "no_panic (paginate_list H c dec r)"
  by (simp add: no_panic_def paginate_list_run)

lemma scim_no_panic: "no_panic (scim_get_user_by_name H c n)" "no_panic (scim_get_group_by_name H c n)"
  "no_panic (is_online H c)"
  unfolding scim_get_user_by_name_def scim_get_group_by_name_def is_online_def by (intro panic_free)+

lemma service_prog_no_panic:
  assumes "ranges_nonempty S"
  shows "no_panic (service_prog V S op)"
proof -
  have "uid_range_size (cfg_mapping (sv_config S)) \<noteq> 0" "gid_range_size (cfg_mapping (sv_config S)) \<noteq> 0"
    using assms by (simp_all add: ranges_nonempty_def)
  note rules = panic_free paginate_no_panic scim_no_panic this
  show ?thesis
    by (cases op; simp only: service_prog.simps service_defs list_users_def list_groups_def; (intro rules)+)
qed

section \<open>Promises of every operation\<close>

lemma run_service_own: "sent_since (env_http V) (wire_mark w) (own_request (sv_scim S)) (run_service V S ops w)"
proof -
  have "sent_since (env_http V) p (own_request (sv_scim S)) (run_service V S ops v)"
    if "sent_since (env_http V) p (own_request (sv_scim S)) v" for p v
    using that service_prog_own [of V p S]
    by (induction ops arbitrary: v) (simp_all add: run_service_def keeps_def)
  then show ?thesis by simp
qed

text \<open>C26: The token goes nowhere but to the directory: whatever operations a process asks of the service and
  whatever is answered, every request the program makes is a GET below the configured base URL with the
  configured bearer token. A directory that redirects makes the agent send further requests, anywhere:
  at most ten for each of the program's, and none with the token.\<close>

theorem service_requests_own:
  assumes "default_redirects (env_http V)" "run_service V S ops w = w'"
  shows "(\<forall>rq \<in> set (drop (length (sent w)) (sent w')). own_request (sv_scim S) rq) \<and>
    (\<forall>rq \<in> set (drop (length (redirected w)) (redirected w')). rq_authorization rq = None) \<and>
    length (redirected w') - length (redirected w) \<le> 10 * (length (sent w') - length (sent w))"
  using token_confinedI [OF run_service_own [where w = w and S = S and ops = ops] assms(1)]
  unfolding assms(2) token_confined_def .

lemma demo_redirects: "default_redirects (env_http (demo_env up))"
  by (simp add: default_redirects_def demo_env_def demo_http_def)

theorem service_requests_own_witness:
  "map rq_url (redirected (run_service (demo_env True) (demo_service Deny) [ListAllUsers, ListAllGroups] demo_world)) =
     [''http://mirror/Groups''] \<and>
   list_all (\<lambda>rq. rq_authorization rq = None)
     (redirected (run_service (demo_env True) (demo_service Deny) [ListAllUsers, ListAllGroups] demo_world))"
proof -
  have "map rq_url (redirected (run_service (demo_env True) (demo_service Deny) [ListAllUsers, ListAllGroups] demo_world)) =
     [''http://mirror/Groups'']" by code_simp
  moreover have "redirected demo_world = []" by (simp add: demo_world_def)
  ultimately show ?thesis
    using service_requests_own [OF demo_redirects [of True] refl, of demo_world "demo_service Deny" "[ListAllUsers, ListAllGroups]"]
    by (simp add: list_all_iff)
qed

text \<open>Whatever the directory and the database answer, the tables of the cache keep their
  constraints through every sequence of service operations.\<close>

theorem service_keeps_tables:
  assumes "schema_ok (env_db V) (w_cache w)"
  shows "schema_ok (env_db V) (w_cache (run_service V S ops w))"
proof -
  have "tables_ok V (run_service V S ops v)" if "tables_ok V v" for v
    using that service_prog_tables [of V S]
    by (induction ops arbitrary: v) (simp_all add: run_service_def keeps_def)
  then show ?thesis using assms by (simp add: tables_ok_def)
qed

theorem service_keeps_tables_witness:
  "schema_ok (env_db (demo_env True)) (w_cache (run_service (demo_env True) (demo_service Deny)
     [ListAllUsers, LookupUserByName ''ann'', ListAllGroups] demo_world))"
  by (rule service_keeps_tables [OF demo_tables])

text \<open>C27: with id ranges of at least one id, no operation of the service panics, whatever the
  directory and the database answer (a panic would abort the process that loaded the module).\<close>

theorem service_never_panics:
  assumes "ranges_nonempty S"
  shows "fst (service_prog V S op w) \<noteq> Panic"
  using service_prog_no_panic [OF assms] by (simp add: no_panic_def)

theorem service_never_panics_witness:
  "fst (service_prog (demo_env False) (demo_service CachedStatus) ListAllUsers demo_world) \<noteq> Panic"
proof -
  have "ranges_nonempty (demo_service CachedStatus)" by code_simp
  then show ?thesis by (rule service_never_panics)
qed

section \<open>A listing gives every account an id of its own\<close>

text \<open>
  The loop of a listing: every round resolves an id for a key and records it, taking no id
  from another key; a round may also give no result. With distinct keys, nobody recorded in
  the loop loses the id again.
\<close>

locale import_loop =
  fixes import :: "'x \<Rightarrow> ('s, 'y, 'e) prog"
    and result :: "'y \<Rightarrow> 'v option"
    and source :: "'x \<Rightarrow> string"
    and key :: "'v \<Rightarrow> string"
    and ident :: "'v \<Rightarrow> u32"
    and owner :: "'s \<Rightarrow> u32 \<Rightarrow> string option"
    and inv :: "'s \<Rightarrow> bool"
  assumes import_inv: "inv s \<Longrightarrow> import x s = (r, s') \<Longrightarrow> inv s'"
    and import_Ok: "inv s \<Longrightarrow> import x s = (Ok y, s') \<Longrightarrow> result y = Some v \<Longrightarrow>
      key v = source x \<and> owner s' (ident v) = Some (source x)"
    and import_others: "inv s \<Longrightarrow> import x s = (Ok y, s') \<Longrightarrow> owner s i = Some k \<Longrightarrow>
      k \<noteq> source x \<Longrightarrow> owner s' i = Some k"
begin

lemma loop_others:
  "inv s \<Longrightarrow> collectp import xs s = (Ok ys, s') \<Longrightarrow> owner s i = Some k \<Longrightarrow> k \<notin> source ` set xs \<Longrightarrow>
   owner s' i = Some k"
proof (induction xs arbitrary: s ys)
  case (Cons x xs)
  from Cons.prems(2) obtain y t zs where "import x s = (Ok y, t)" "collectp import xs t = (Ok zs, s')"
    by (auto simp: prog_inv)
  with Cons.IH [of t zs] Cons.prems show ?case
    using import_inv import_others by fastforce
qed (simp add: prog_inv)

lemma loop_sources:
  "inv s \<Longrightarrow> collectp import xs s = (Ok ys, s') \<Longrightarrow> key ` set (List.map_filter result ys) \<subseteq> source ` set xs"
proof (induction xs arbitrary: s ys)
  case (Cons x xs)
  from Cons.prems(2) obtain y t zs where run: "import x s = (Ok y, t)" "collectp import xs t = (Ok zs, s')"
    "ys = y # zs" by (auto simp: prog_inv)
  with Cons.IH [of t zs] Cons.prems(1) import_inv have "key ` set (List.map_filter result zs) \<subseteq> source ` set xs"
    by blast
  with run import_Ok [OF Cons.prems(1) run(1)] show ?case
    by (cases "result y") (auto simp: map_filter_simps)
qed (simp add: prog_inv map_filter_simps)

lemma loop_owners:
  assumes "inv s" "collectp import xs s = (Ok ys, s')" "distinct (map source xs)"
  shows "\<forall>v \<in> set (List.map_filter result ys). owner s' (ident v) = Some (key v)"
  using assms
proof (induction xs arbitrary: s ys)
  case (Cons x xs)
  from Cons.prems(2) obtain y t zs where run: "import x s = (Ok y, t)" "collectp import xs t = (Ok zs, s')"
    "ys = y # zs"
    by (auto simp: prog_inv)
  have t: "inv t" using import_inv Cons.prems(1) run(1) by blast
  have "owner s' (ident v) = Some (key v)" if "result y = Some v" for v
    using loop_others [OF t run(2)] import_Ok [OF Cons.prems(1) run(1) that] Cons.prems(3) by simp
  with Cons.IH [OF t run(2)] Cons.prems(3) run(3) show ?case
    by (cases "result y") (auto simp: map_filter_simps)
qed (simp add: prog_inv map_filter_simps)

lemma loop_distinct_keys:
  assumes "inv s" "collectp import xs s = (Ok ys, s')" "distinct (map source xs)"
  shows "distinct (map key (List.map_filter result ys))"
  using assms
proof (induction xs arbitrary: s ys)
  case (Cons x xs)
  from Cons.prems(2) obtain y t zs where run: "import x s = (Ok y, t)" "collectp import xs t = (Ok zs, s')"
    "ys = y # zs"
    by (auto simp: prog_inv)
  have t: "inv t" using import_inv Cons.prems(1) run(1) by blast
  have "key v \<notin> key ` set (List.map_filter result zs)" if "result y = Some v" for v
    using loop_sources [OF t run(2)] import_Ok [OF Cons.prems(1) run(1) that] Cons.prems(3) by auto
  with Cons.IH [OF t run(2)] Cons.prems(3) run(3) show ?case
    by (cases "result y") (auto simp: map_filter_simps)
qed (simp add: prog_inv map_filter_simps)

lemma loop_distinct:
  assumes "inv s" "collectp import xs s = (Ok ys, s')" "distinct (map source xs)"
  shows "distinct (map ident (List.map_filter result ys))"
proof -
  note own = loop_owners [OF assms] and keys = loop_distinct_keys [OF assms]
  have "inj_on ident (set (List.map_filter result ys))"
  proof (rule inj_onI)
    fix a b assume ab: "a \<in> set (List.map_filter result ys)" "b \<in> set (List.map_filter result ys)" "ident a = ident b"
    with own have "Some (key a) = Some (key b)" by metis
    with keys ab(1,2) show "a = b" by (simp add: distinct_map inj_on_def)
  qed
  with keys show ?thesis by (simp add: distinct_map)
qed

end

text \<open>A loop that gives a result in every round keeps the keys in order.\<close>

locale strict_loop = import_loop +
  assumes import_gives: "import x s = (Ok y, s') \<Longrightarrow> result y \<noteq> None"
begin

lemma loop_keys:
  "inv s \<Longrightarrow> collectp import xs s = (Ok ys, s') \<Longrightarrow> map key (List.map_filter result ys) = map source xs"
proof (induction xs arbitrary: s ys)
  case (Cons x xs)
  from Cons.prems(2) obtain y t zs where run: "import x s = (Ok y, t)" "collectp import xs t = (Ok zs, s')"
    "ys = y # zs" by (auto simp: prog_inv)
  obtain v where "result y = Some v" using import_gives [OF run(1)] by blast
  with run Cons.IH [of t zs] Cons.prems(1) import_inv import_Ok show ?case
    by (auto simp: map_filter_simps)
qed (simp add: prog_inv map_filter_simps)

end

lemma map_filter_Some [simp]: "List.map_filter Some xs = xs"
  by (induction xs) (simp_all add: map_filter_simps)

text \<open>A cache operation run on the state of the service.\<close>

lemma on_cache_eq: "on_cache m w = (r, w') \<longleftrightarrow> (\<exists>c. m (w_cache w) = (r, c) \<and> w' = w\<lparr>w_cache := c\<rparr>)"
  by (auto simp: on_cache_def zoomp_eq)

definition users_in :: "'z world_scheme \<Rightarrow> u32 \<Rightarrow> string option" where
  "users_in w = user_owner (w_cache w)"

definition groups_in :: "'z world_scheme \<Rightarrow> u32 \<Rightarrow> string option" where
  "groups_in w = group_owner (w_cache w)"

text \<open>What the conversion to a model resolves.\<close>

lemma scim_user_to_model_Ok:
  assumes "scim_user_to_model V S su w = (Ok u, w')"
  shows "u_external_id u = su_id su \<and> u_name u = su_user_name su \<and>
    u_active u = (su_active su \<noteq> Some False) \<and>
    (\<exists>t. resolve_uid (env_db V) (env_hash V) (su_id su) (uid_range_min (cfg_mapping (sv_config S)))
        (uid_range_size (cfg_mapping (sv_config S))) (w_cache w) = (Ok (u_uid u), t) \<and>
      same_tables t (w_cache w') \<and> same_tables (w_cache w) (w_cache w'))"
proof -
  from assms obtain uid gid t t' where run:
    "resolve_uid (env_db V) (env_hash V) (su_id su) (uid_range_min (cfg_mapping (sv_config S)))
        (uid_range_size (cfg_mapping (sv_config S))) (w_cache w) = (Ok uid, t)"
    "resolve_gid (env_db V) (env_hash V)
        (case su_groups su of first_group # _ \<Rightarrow> gref_value first_group | [] \<Rightarrow> su_id su)
        (gid_range_min (cfg_mapping (sv_config S))) (gid_range_size (cfg_mapping (sv_config S))) t = (Ok gid, t')"
    "w_cache w' = t'" "u_uid u = uid" "u_external_id u = su_id su" "u_name u = su_user_name su"
    "u_active u = (case su_active su of Some a \<Rightarrow> a | None \<Rightarrow> True)"
    by (auto simp: scim_user_to_model_def Let_def prog_inv on_cache_eq)
  have "same_tables (w_cache w) t" using keepsD [OF resolve_uid_reads _ run(1)] by simp
  moreover have "same_tables t t'" using keepsD [OF resolve_gid_reads _ run(2)] by simp
  moreover from calculation have "same_tables (w_cache w) t'" by (simp add: same_tables_def)
  ultimately show ?thesis using run by (auto split: option.splits)
qed

lemma scim_group_to_model_Ok:
  assumes "scim_group_to_model V S sg w = (Ok g, w')"
  shows "g_external_id g = sg_id sg \<and> g_name g = sg_display_name sg \<and>
    g_members g = List.map_filter mref_display (sg_members sg) \<and>
    resolve_gid (env_db V) (env_hash V) (sg_id sg) (gid_range_min (cfg_mapping (sv_config S)))
        (gid_range_size (cfg_mapping (sv_config S))) (w_cache w) = (Ok (g_gid g), w_cache w')"
  using assms by (auto simp: scim_group_to_model_def Let_def prog_inv on_cache_eq)

text \<open>One round of either listing: convert, then store.\<close>

lemma import_user_Ok:
  assumes "tables_ok V w" "import_user V S su w = (Ok u, w')"
  shows "u_external_id u = su_id su" "users_in w' (u_uid u) = Some (su_id su)"
    "users_in w i = Some k \<Longrightarrow> k \<noteq> su_id su \<Longrightarrow> users_in w' i = Some k"
proof -
  from assms(2) obtain t where run: "scim_user_to_model V S su w = (Ok u, t)"
    "store_user (env_db V) u (w_cache t) = (Ok (), w_cache w')"
    by (auto simp: import_user_def prog_inv on_cache_eq)
  from scim_user_to_model_Ok [OF run(1)] obtain c where m: "u_external_id u = su_id su"
    "resolve_uid (env_db V) (env_hash V) (su_id su) (uid_range_min (cfg_mapping (sv_config S)))
        (uid_range_size (cfg_mapping (sv_config S))) (w_cache w) = (Ok (u_uid u), c)"
    "same_tables (w_cache w) (w_cache t)" by blast
  have ok: "schema_ok (env_db V) (w_cache w)" using assms(1) by (simp add: tables_ok_def)
  have t: "schema_ok (env_db V) (w_cache t)" "user_owner (w_cache t) = user_owner (w_cache w)"
    using same_tables_views [OF m(3)] ok by simp_all
  have own: "user_owner (w_cache w') = assign_owner (user_owner (w_cache w)) (su_id su) (u_uid u)"
    using uid_table.store_Ok [OF t(1) run(2)] t(2) m(1) by simp
  have free: "user_owner (w_cache w) (u_uid u) \<in> {None, Some (su_id su)}"
    using uid_slots.resolve_id_Ok [OF ok m(2) [unfolded resolve_uid_def]] by blast
  show "u_external_id u = su_id su" by (fact m(1))
  show "users_in w' (u_uid u) = Some (su_id su)" by (simp add: users_in_def own assign_owner_def)
  show "users_in w' i = Some k" if "users_in w i = Some k" "k \<noteq> su_id su"
    using that free by (auto simp: users_in_def own assign_owner_def)
qed

lemma import_group_Ok:
  assumes "tables_ok V w" "import_group V S sg w = (Ok g, w')"
  shows "g_external_id g = sg_id sg" "groups_in w' (g_gid g) = Some (sg_id sg)"
    "groups_in w i = Some k \<Longrightarrow> k \<noteq> sg_id sg \<Longrightarrow> groups_in w' i = Some k"
proof -
  from assms(2) obtain t where run: "scim_group_to_model V S sg w = (Ok g, t)"
    "store_group (env_db V) g (w_cache t) = (Ok (), w_cache w')"
    by (auto simp: import_group_def prog_inv on_cache_eq)
  from scim_group_to_model_Ok [OF run(1)] have m: "g_external_id g = sg_id sg"
    "resolve_gid (env_db V) (env_hash V) (sg_id sg) (gid_range_min (cfg_mapping (sv_config S)))
        (gid_range_size (cfg_mapping (sv_config S))) (w_cache w) = (Ok (g_gid g), w_cache t)" by blast+
  have ok: "schema_ok (env_db V) (w_cache w)" using assms(1) by (simp add: tables_ok_def)
  have t: "schema_ok (env_db V) (w_cache t)" "group_owner (w_cache t) = group_owner (w_cache w)"
    using gid_slots.resolve_id_keeps [OF ok m(2) [unfolded resolve_gid_def]] by blast+
  have own: "group_owner (w_cache w') = assign_owner (group_owner (w_cache w)) (sg_id sg) (g_gid g)"
    using gid_table.store_Ok [OF t(1) run(2)] t(2) m(1) by simp
  have free: "group_owner (w_cache w) (g_gid g) \<in> {None, Some (sg_id sg)}"
    using gid_slots.resolve_id_Ok [OF ok m(2) [unfolded resolve_gid_def]] by blast
  show "g_external_id g = sg_id sg" by (fact m(1))
  show "groups_in w' (g_gid g) = Some (sg_id sg)" by (simp add: groups_in_def own assign_owner_def)
  show "groups_in w' i = Some k" if "groups_in w i = Some k" "k \<noteq> sg_id sg"
    using that free by (auto simp: groups_in_def own assign_owner_def)
qed

lemma import_tables:
  "keeps (tables_ok V) (import_user V S su)" "keeps (tables_ok V) (import_group V S sg)"
  unfolding import_user_def import_group_def scim_user_to_model_def scim_group_to_model_def Let_def
  by (intro preserved)+

interpretation users_loop: strict_loop "import_user V S" Some su_id u_external_id u_uid users_in "tables_ok V" for V S
proof unfold_locales
  fix s x r s' assume "tables_ok V s" "import_user V S x s = (r, s')"
  then show "tables_ok V s'" by (rule keepsD [OF import_tables(1)])
qed (use import_user_Ok in auto)

interpretation groups_loop: strict_loop "import_group V S" Some sg_id g_external_id g_gid groups_in "tables_ok V" for V S
proof unfold_locales
  fix s x r s' assume "tables_ok V s" "import_group V S x s = (r, s')"
  then show "tables_ok V s'" by (rule keepsD [OF import_tables(2)])
qed (use import_group_Ok in auto)

lemma listed_tables:
  assumes "list_users H c w = (r, w')" "tables_ok V w"
  shows "tables_ok V w'"
  using keepsD [OF paginate_tables assms(2) assms(1) [unfolded list_users_def]] .

lemma listed_groups_tables:
  assumes "list_groups H c w = (r, w')" "tables_ok V w"
  shows "tables_ok V w'"
  using keepsD [OF paginate_tables assms(2) assms(1) [unfolded list_groups_def]] .

text \<open>C9: when a listing of the users succeeds, it has one user for each resource of the directory, in
  order, and no two users share a uid; the cache records each of them under its uid.\<close>

theorem list_all_users_distinct_uids:
  assumes "schema_ok (env_db V) (w_cache w)" "list_users (env_http V) (sv_scim S) w = (Ok sus, w1)"
    and "distinct (map su_id sus)" "list_all_users V S w = (Ok us, w')"
  shows "map u_external_id us = map su_id sus \<and> distinct (map u_uid us) \<and>
    (\<forall>u \<in> set us. user_owner (w_cache w') (u_uid u) = Some (u_external_id u))"
proof -
  have run: "collectp (import_user V S) sus w1 = (Ok us, w')"
    using assms(2,4) by (auto simp: list_all_users_def prog_simps)
  have ok: "tables_ok V w1" using listed_tables [OF assms(2)] assms(1) by (simp add: tables_ok_def)
  show ?thesis
    using users_loop.loop_keys [OF ok run] users_loop.loop_distinct [OF ok run assms(3)]
      users_loop.loop_owners [OF ok run assms(3)] by (simp add: users_in_def)
qed

theorem list_all_users_distinct_uids_witness:
  "case fst (list_all_users (demo_env True) (demo_service Deny) demo_world) of
     Ok us \<Rightarrow> distinct (map u_uid us) \<and> length us = 2 | _ \<Rightarrow> False"
proof -
  let ?V = "demo_env True" and ?S = "demo_service Deny"
  have "case fst (list_users (env_http ?V) (sv_scim ?S) demo_world) of
      Ok sus \<Rightarrow> map su_id sus = [''a'', ''b''] | _ \<Rightarrow> False" by code_simp
  then obtain sus w1 where list: "list_users (env_http ?V) (sv_scim ?S) demo_world = (Ok sus, w1)"
    "map su_id sus = [''a'', ''b'']"
    by (cases "list_users (env_http ?V) (sv_scim ?S) demo_world") (auto split: outcome.splits)
  have "\<exists>us w'. list_all_users ?V ?S demo_world = (Ok us, w')" by (rule runs_Ok) code_simp
  then obtain us w' where run: "list_all_users ?V ?S demo_world = (Ok us, w')" by blast
  have "distinct (map su_id sus)" by (simp add: list(2))
  from list_all_users_distinct_uids [OF demo_tables list(1) this run]
  have "distinct (map u_uid us)" "map u_external_id us = [''a'', ''b'']" by (simp_all add: list(2))
  moreover from this(2) have "length us = 2" using arg_cong [where f = length] by fastforce
  ultimately show ?thesis by (simp add: run)
qed

text \<open>The same for a listing of the groups.\<close>

theorem list_all_groups_distinct_gids:
  assumes "schema_ok (env_db V) (w_cache w)" "list_groups (env_http V) (sv_scim S) w = (Ok sgs, w1)"
    and "distinct (map sg_id sgs)" "list_all_groups V S w = (Ok gs, w')"
  shows "map g_external_id gs = map sg_id sgs \<and> distinct (map g_gid gs) \<and>
    (\<forall>g \<in> set gs. group_owner (w_cache w') (g_gid g) = Some (g_external_id g))"
proof -
  have run: "collectp (import_group V S) sgs w1 = (Ok gs, w')"
    using assms(2,4) by (auto simp: list_all_groups_def prog_simps)
  have ok: "tables_ok V w1" using listed_groups_tables [OF assms(2)] assms(1) by (simp add: tables_ok_def)
  show ?thesis
    using groups_loop.loop_keys [OF ok run] groups_loop.loop_distinct [OF ok run assms(3)]
      groups_loop.loop_owners [OF ok run assms(3)] by (simp add: groups_in_def)
qed

theorem list_all_groups_distinct_gids_witness:
  "case fst (list_all_groups (demo_env True) (demo_service Deny) demo_world) of
     Ok gs \<Rightarrow> distinct (map g_gid gs) \<and> map g_external_id gs = [''g'', ''h''] | _ \<Rightarrow> False"
proof -
  let ?V = "demo_env True" and ?S = "demo_service Deny"
  have "case fst (list_groups (env_http ?V) (sv_scim ?S) demo_world) of
      Ok sgs \<Rightarrow> map sg_id sgs = [''g'', ''h''] | _ \<Rightarrow> False" by code_simp
  then obtain sgs w1 where list: "list_groups (env_http ?V) (sv_scim ?S) demo_world = (Ok sgs, w1)"
    "map sg_id sgs = [''g'', ''h'']"
    by (cases "list_groups (env_http ?V) (sv_scim ?S) demo_world") (auto split: outcome.splits)
  have "\<exists>gs w'. list_all_groups ?V ?S demo_world = (Ok gs, w')" by (rule runs_Ok) code_simp
  then obtain gs w' where run: "list_all_groups ?V ?S demo_world = (Ok gs, w')" by blast
  have "distinct (map sg_id sgs)" by (simp add: list(2))
  from list_all_groups_distinct_gids [OF demo_tables list(1) this run]
  show ?thesis by (simp add: list(2) run)
qed

end
