(* ===== verification/Service_Spec.thy ===== *)
theory Service_Spec
  imports Service_Laws
begin

text \<open>
  What a caller of the service gets: the answers of the lookups when the directory answers and
  when it does not, the account status, and the ids of a user's groups.
\<close>

section \<open>Lookups by name\<close>

text \<open>What a SCIM call leaves of the rest of the state.\<close>

lemma scim_call_cache:
  "scim_get_user_by_name H c n w = (r, w') \<Longrightarrow> w_cache w' = w_cache w \<and> r \<noteq> Panic"
  "scim_get_group_by_name H c n w = (r', w') \<Longrightarrow> w_cache w' = w_cache w \<and> r' \<noteq> Panic"
  by (auto simp: scim_get_user_by_name_def scim_get_group_by_name_def prog_inv dest!: get_json_result)

text \<open>The two ways a lookup of a user answers.\<close>

lemma lookup_user_by_name_Ok:
  assumes "lookup_user_by_name V S name w = (Ok v, w')" "length name \<le> max_name_len"
  obtains (online) su w0 u where
      "scim_get_user_by_name (env_http V) (sv_scim S) name w = (Ok (Some su), w0)"
      "import_user V S su w0 = (Ok u, w')" "v = Some u" "w_cache w0 = w_cache w"
    | (cached) r w0 where
      "scim_get_user_by_name (env_http V) (sv_scim S) name w = (r, w0)" "\<not> (\<exists>su. r = Ok (Some su))"
      "cached_user_by_name (env_db V) name (w_cache w) = (Ok v, w_cache w')"
proof -
  obtain r w0 where scim: "scim_get_user_by_name (env_http V) (sv_scim S) name w = (r, w0)"
    by (cases "scim_get_user_by_name (env_http V) (sv_scim S) name w")
  note c0 = scim_call_cache(1) [OF scim]
  from assms(2) have "\<not> max_name_len < length name" by simp
  note run = assms(1) [unfolded lookup_user_by_name_def if_not_P [OF this]]
  consider su where "r = Ok (Some su)" | "\<not> (\<exists>su. r = Ok (Some su))" by blast
  then show thesis
  proof cases
    case (1 su)
    with run scim have "bindp (import_user V S su) (\<lambda>u. ret (Some u)) w0 = (Ok v, w')"
      by (auto simp: import_user_def prog_simps prog_inv)
    then show ?thesis using 1 scim c0 by (auto simp: prog_inv intro: online)
  next
    case 2
    with run scim c0 have "tryp SvcCache (on_cache (cached_user_by_name (env_db V) name)) ret w0 = (Ok v, w')"
      by (cases r) (auto simp: matchp_def split: option.splits)
    then show ?thesis using 2 scim c0 by (auto simp: prog_inv on_cache_eq intro: cached)
  qed
qed

lemma user_row_now:
  assumes "schema_ok E c" "store_user E u c = (Ok x, c')"
  shows "directory c' (u_external_id u) = Some (row_of_user u (eng_now E (statements_run c)))"
  using store_user_directory [OF assms] by (simp add: dir_put_def row_of_user_def)

lemma import_user_row:
  assumes "tables_ok V w" "import_user V S su w = (Ok u, w')"
  shows "\<exists>n. directory (w_cache w') (u_external_id u) = Some (row_of_user u (eng_now (env_db V) n))"
    "cache_ttl (w_cache w') = cache_ttl (w_cache w)"
proof -
  from assms(2) obtain t where run: "scim_user_to_model V S su w = (Ok u, t)"
    "store_user (env_db V) u (w_cache t) = (Ok (), w_cache w')"
    by (auto simp: import_user_def prog_inv on_cache_eq)
  from scim_user_to_model_Ok [OF run(1)] have same: "same_tables (w_cache w) (w_cache t)" by blast
  then have ok: "schema_ok (env_db V) (w_cache t)"
    using assms(1) same_tables_views by (auto simp: tables_ok_def)
  show "\<exists>n. directory (w_cache w') (u_external_id u) = Some (row_of_user u (eng_now (env_db V) n))"
    using user_row_now [OF ok run(2)] by blast
  show "cache_ttl (w_cache w') = cache_ttl (w_cache w)"
    using store_user_rows(2) [OF run(2)] same by (simp add: same_tables_def)
qed

lemma fresh_bound_now:
  assumes "\<And>n. eng_now E n = t" "ttl \<noteq> 0"
  shows "cache_ttl c = ttl \<Longrightarrow> fresh_bound E c < t"
proof -
  have "0 < unat ttl" using assms(2) by (simp add: unat_gt_0)
  then show "cache_ttl c = ttl \<Longrightarrow> fresh_bound E c < t"
    by (simp only: fresh_bound_def assms(1))
qed

lemma row_of_user_sel [simp]:
  "ur_external_id (row_of_user u n) = u_external_id u" "ur_uid (row_of_user u n) = u_uid u"
  "ur_cached_at (row_of_user u n) = n" "ur_login (row_of_user u n) = u_name u"
  "ur_active (row_of_user u n) = u_active u"
  by (simp_all add: row_of_user_def)

text \<open>What either way of answering leaves in the cache, for a database whose clock stands still.\<close>

lemma imported_is_served:
  assumes "tables_ok V w" "import_user V S su w = (Ok u, w')" "\<And>n. eng_now (env_db V) n = t" "cache_ttl (w_cache w) \<noteq> 0"
  shows "schema_ok (env_db V) (w_cache w') \<and>
    dir_serves (fresh_bound (env_db V) (w_cache w')) (directory (w_cache w')) (u_uid u) u"
proof -
  have "tables_ok V w'" by (rule keepsD [OF import_tables(1) assms(1,2)])
  moreover obtain n where "directory (w_cache w') (u_external_id u) = Some (row_of_user u (eng_now (env_db V) n))"
    using import_user_row(1) [OF assms(1,2)] by auto
  moreover have "fresh_bound (env_db V) (w_cache w') < t"
    using import_user_row(2) [OF assms(1,2)] fresh_bound_now [OF assms(3,4), of "w_cache w'"] by simp
  ultimately show ?thesis
    unfolding dir_serves_def tables_ok_def
    by (intro conjI exI [of _ "u_external_id u"] exI [of _ "row_of_user u t"]) (simp_all add: assms(3))
qed

lemma cached_is_served:
  assumes "schema_ok E c" "cached_user_by_name E name c = (Ok (Some u), c')" "\<And>n. eng_now E n = t"
  shows "schema_ok E c' \<and> u_name u = name \<and> dir_serves (fresh_bound E c') (directory c') (u_uid u) u"
proof -
  have same: "same_tables c c'" by (rule keepsD [OF cached_user_by_name_reads _ assms(2)]) simp
  from cached_user_by_name_Ok [OF assms(2)] obtain row where
    "live_user (fresh_bound E c) c row" "u = user_of_row row" "ur_login row = name" by auto
  then show ?thesis
    using same directory_mem [OF assms(1)] same_tables_views [OF same] assms(1) same_tables_directory [OF same]
    by (auto simp: dir_serves_def live_user_def fresh_bound_def assms(3) same_tables_def user_of_row_def)
qed

lemma lookup_user_by_uid_eq:
  "lookup_user_by_uid V S uid w = (Ok v, w') \<longleftrightarrow>
     (\<exists>c. get_user_by_uid (env_db V) uid (w_cache w) = (Ok v, c) \<and> w' = w\<lparr>w_cache := c\<rparr>)"
  by (cases v) (auto simp: lookup_user_by_uid_def prog_inv on_cache_eq split: option.splits)

text \<open>C32: a user found by name is found, unchanged, by the uid that was answered (both calls within one
  second of the database's clock, a time to live of at least a second): the two NSS entry points
  agree, online and offline.\<close>

theorem lookup_by_name_then_uid:
  assumes "schema_ok (env_db V) (w_cache w)" "\<And>n. eng_now (env_db V) n = t" "cache_ttl (w_cache w) \<noteq> 0"
    and "lookup_user_by_name V S name w = (Ok (Some u), w1)"
    and "lookup_user_by_uid V S (u_uid u) w1 = (Ok v, w2)"
  shows "v = Some u"
proof -
  have len: "length name \<le> max_name_len"
    using assms(4) by (auto simp: lookup_user_by_name_def prog_inv split: if_splits)
  have look: "get_user_by_uid (env_db V) (u_uid u) (w_cache w1) = (Ok v, w_cache w2)"
    using assms(5) by (auto simp: lookup_user_by_uid_eq)
  have "schema_ok (env_db V) (w_cache w1) \<and>
    dir_serves (fresh_bound (env_db V) (w_cache w1)) (directory (w_cache w1)) (u_uid u) u"
    using assms(4) len
  proof (cases rule: lookup_user_by_name_Ok)
    case (online su w0 u')
    have "tables_ok V w0" "cache_ttl (w_cache w0) \<noteq> 0" using assms(1,3) online(4) by (simp_all add: tables_ok_def)
    then show ?thesis using imported_is_served [OF _ online(2) assms(2)] online(3) by simp
  next
    case (cached r w0)
    then show ?thesis using cached_is_served [OF assms(1) _ assms(2)] by simp
  qed
  then show ?thesis using get_user_by_uid_serves look by blast
qed

theorem lookup_by_name_then_uid_witness:
  "case fst (lookup_user_by_name (demo_env True) (demo_service Deny) ''ann'' demo_world) of
     Ok (Some u) \<Rightarrow> fst (lookup_user_by_uid (demo_env True) (demo_service Deny) (u_uid u)
        (snd (lookup_user_by_name (demo_env True) (demo_service Deny) ''ann'' demo_world))) = Ok (Some u)
   | _ \<Rightarrow> False"
proof -
  let ?V = "demo_env True" and ?S = "demo_service Deny"
  have "case fst (lookup_user_by_name ?V ?S ''ann'' demo_world) of Ok (Some u) \<Rightarrow> True | _ \<Rightarrow> False"
    by code_simp
  then obtain u w1 where run: "lookup_user_by_name ?V ?S ''ann'' demo_world = (Ok (Some u), w1)"
    by (cases "lookup_user_by_name ?V ?S ''ann'' demo_world") (auto split: outcome.splits option.splits)
  have ttl: "unat (cache_ttl (w_cache (snd (lookup_user_by_name ?V ?S ''ann'' demo_world)))) = 3600"
    by code_simp
  have "\<exists>v c. get_user_by_uid (env_db ?V) (u_uid u) (w_cache w1) = (Ok v, c)"
    by (rule user_lookups_answer) (use ttl run in \<open>simp add: answering_def demo_env_def quiet_engine_def\<close>)
  then obtain v w2 where uid: "lookup_user_by_uid ?V ?S (u_uid u) w1 = (Ok v, w2)"
    unfolding lookup_user_by_uid_eq by blast
  have "eng_now (env_db ?V) n = 1000" for n by (simp add: demo_env_def)
  moreover have "cache_ttl (w_cache demo_world) \<noteq> 0" by code_simp
  ultimately have "v = Some u"
    using lookup_by_name_then_uid [OF demo_tables _ _ run uid] by blast
  then show ?thesis by (simp add: run uid)
qed

text \<open>C33: when the directory gives no resource for a name (it failed, or it knows nobody of the name), a
  lookup answers from the cache alone: a live row of that name or nothing, and it changes no row.\<close>

theorem lookup_falls_back_to_cache:
  assumes "scim_get_user_by_name (env_http V) (sv_scim S) name w = (r, w0)" "\<not> (\<exists>su. r = Ok (Some su))"
    and "lookup_user_by_name V S name w = (Ok v, w')"
  shows "same_tables (w_cache w) (w_cache w') \<and>
    (case v of
       Some u \<Rightarrow> \<exists>row. live_user (fresh_bound (env_db V) (w_cache w)) (w_cache w) row \<and>
         ur_login row = name \<and> u = user_of_row row
     | None \<Rightarrow> max_name_len < length name \<or>
         \<not> (\<exists>row. live_user (fresh_bound (env_db V) (w_cache w)) (w_cache w) row \<and> ur_login row = name))"
proof (cases "max_name_len < length name")
  case True
  then show ?thesis using assms(3) by (simp add: lookup_user_by_name_def prog_inv)
next
  case False
  then have "length name \<le> max_name_len" by simp
  with assms(3) show ?thesis
  proof (cases rule: lookup_user_by_name_Ok)
    case (online su w1 u)
    with assms(1,2) have False by auto
    then show ?thesis ..
  next
    case (cached r w0)
    have "same_tables (w_cache w) (w_cache w')"
      by (rule keepsD [OF cached_user_by_name_reads _ cached(3)]) simp
    with cached_user_by_name_Ok [OF cached(3)] show ?thesis by (cases v) auto
  qed
qed

text \<open>The demo world after one online lookup, for the offline examples.\<close>

definition demo_seen :: world where
  "demo_seen = snd (lookup_user_by_name (demo_env True) (demo_service Deny) ''ann'' demo_world)"

theorem lookup_falls_back_to_cache_witness:
  "\<exists>row. live_user (fresh_bound (env_db (demo_env False)) (w_cache demo_seen)) (w_cache demo_seen) row \<and>
     ur_login row = ''ann''"
proof -
  let ?V = "demo_env False" and ?S = "demo_service Deny"
  have "case fst (lookup_user_by_name ?V ?S ''ann'' demo_seen) of Ok (Some u) \<Rightarrow> True | _ \<Rightarrow> False"
    unfolding demo_seen_def by code_simp
  then obtain u w' where run: "lookup_user_by_name ?V ?S ''ann'' demo_seen = (Ok (Some u), w')"
    by (cases "lookup_user_by_name ?V ?S ''ann'' demo_seen") (auto split: outcome.splits option.splits)
  obtain r w0 where scim: "scim_get_user_by_name (env_http ?V) (sv_scim ?S) ''ann'' demo_seen = (r, w0)"
    by (cases "scim_get_user_by_name (env_http ?V) (sv_scim ?S) ''ann'' demo_seen")
  have "fst (scim_get_user_by_name (env_http ?V) (sv_scim ?S) ''ann'' demo_seen) = Err (ScimHttp (Transport 7))"
    unfolding demo_seen_def by code_simp
  then have "\<not> (\<exists>su. r = Ok (Some su))" by (simp add: scim)
  from lookup_falls_back_to_cache [OF scim this run] show ?thesis by auto
qed

section \<open>Account status\<close>

text \<open>The three ways an account comes to a status.\<close>

lemma check_user_active_Ok:
  assumes "check_user_active V S name w = (Ok a, w')" "length name \<le> max_name_len"
  obtains (online) su w0 u where
      "scim_get_user_by_name (env_http V) (sv_scim S) name w = (Ok (Some su), w0)"
      "import_user V S su w0 = (Ok u, w')" "a = u_active u" "w_cache w0 = w_cache w"
    | (cached) e w0 v where
      "scim_get_user_by_name (env_http V) (sv_scim S) name w = (Err e, w0)"
      "offline_policy (cfg_security (sv_config S)) = CachedStatus"
      "cached_user_by_name (env_db V) name (w_cache w) = (Ok v, w_cache w')"
      "a = (case v of None \<Rightarrow> False | Some u \<Rightarrow> u_active u)"
    | (refused) "\<not> a"
      "(\<exists>w0. scim_get_user_by_name (env_http V) (sv_scim S) name w = (Ok None, w0)) \<or>
       (\<exists>e w0. scim_get_user_by_name (env_http V) (sv_scim S) name w = (Err e, w0) \<and>
          offline_policy (cfg_security (sv_config S)) = Deny)"
proof -
  obtain r w0 where scim: "scim_get_user_by_name (env_http V) (sv_scim S) name w = (r, w0)"
    by (cases "scim_get_user_by_name (env_http V) (sv_scim S) name w")
  note c0 = scim_call_cache(1) [OF scim]
  from assms(2) have "\<not> max_name_len < length name" by simp
  note run = assms(1) [unfolded check_user_active_def if_not_P [OF this]]
  show thesis
  proof (cases r)
    case (Ok found)
    show ?thesis
    proof (cases found)
      case None
      with run scim Ok show ?thesis by (intro refused) (auto simp: prog_simps)
    next
      case (Some su)
      with run scim Ok have "bindp (import_user V S su) (\<lambda>u. ret (u_active u)) w0 = (Ok a, w')"
        by (auto simp: import_user_def prog_simps prog_inv)
      then show ?thesis using Some Ok scim c0 by (auto simp: prog_inv intro: online)
    qed
  next
    case (Err e)
    show ?thesis
    proof (cases "offline_policy (cfg_security (sv_config S))")
      case CachedStatus
      with run scim Err c0 obtain v where "cached_user_by_name (env_db V) name (w_cache w) = (Ok v, w_cache w')"
        "a = (case v of None \<Rightarrow> False | Some u \<Rightarrow> u_active u)"
        by (auto simp: prog_simps prog_inv on_cache_eq split: option.splits)
      then show ?thesis using CachedStatus Err scim by (intro cached) auto
    next
      case Deny
      with run scim Err show ?thesis by (intro refused) (auto simp: prog_simps)
    qed
  next
    case Panic
    with c0 show ?thesis by simp
  qed
qed

lemma check_user_active_True:
  assumes "check_user_active V S name w = (Ok True, w')"
  shows "length name \<le> 256 \<and>
    ((\<exists>su w0. scim_get_user_by_name (env_http V) (sv_scim S) name w = (Ok (Some su), w0) \<and>
        su_active su \<noteq> Some False) \<or>
     (\<exists>e w0 row. scim_get_user_by_name (env_http V) (sv_scim S) name w = (Err e, w0) \<and>
        offline_policy (cfg_security (sv_config S)) = CachedStatus \<and>
        live_user (fresh_bound (env_db V) (w_cache w)) (w_cache w) row \<and>
        ur_login row = name \<and> ur_active row))"
proof -
  have len: "length name \<le> max_name_len"
    using assms by (cases "max_name_len < length name") (simp_all add: check_user_active_def ret_def)
  from assms len show ?thesis
  proof (cases rule: check_user_active_Ok)
    case (online su w0 u)
    then have "su_active su \<noteq> Some False"
      using scim_user_to_model_Ok [of V S su w0 u] by (auto simp: import_user_def prog_inv)
    with online(1) len show ?thesis by (auto simp: max_name_len_def)
  next
    case (cached e w0 v)
    then obtain u where "v = Some u" "u_active u" by (auto split: option.splits)
    with cached_user_by_name_Ok [OF cached(3)] cached(1,2) len show ?thesis
      by (auto simp: user_of_row_def max_name_len_def)
  qed simp
qed

text \<open>C25: an account counts as active only when the directory just said so, or when the directory failed,
  the policy allows cached status, and the cache has a live row that says so. A user the directory
  does not know, an error under the policy \<open>deny\<close>, and an overlong name are all inactive.\<close>

theorem active_only_if:
  assumes "check_user_active V S name w = (Ok True, w')"
  shows "length name \<le> 256 \<and>
    ((\<exists>su w0. scim_get_user_by_name (env_http V) (sv_scim S) name w = (Ok (Some su), w0) \<and>
        su_active su \<noteq> Some False) \<or>
     (\<exists>e w0 row. scim_get_user_by_name (env_http V) (sv_scim S) name w = (Err e, w0) \<and>
        offline_policy (cfg_security (sv_config S)) = CachedStatus \<and>
        live_user (fresh_bound (env_db V) (w_cache w)) (w_cache w) row \<and>
        ur_login row = name \<and> ur_active row))"
  by (rule check_user_active_True [OF assms])

theorem active_only_if_witness:
  "\<exists>su w0. scim_get_user_by_name (env_http (demo_env True)) (sv_scim (demo_service Deny)) ''ann'' demo_world =
     (Ok (Some su), w0)"
proof -
  have "fst (check_user_active (demo_env True) (demo_service Deny) ''ann'' demo_world) = Ok True"
    by code_simp
  then obtain w' where run: "check_user_active (demo_env True) (demo_service Deny) ''ann'' demo_world = (Ok True, w')"
    by (cases "check_user_active (demo_env True) (demo_service Deny) ''ann'' demo_world") auto
  show ?thesis
    using active_only_if [OF run] by (auto simp: demo_service_def demo_config_def)
qed

lemma check_user_active_False:
  assumes "check_user_active V S name w = (Ok False, w')" "length name \<le> 256"
  shows "(\<exists>w0. scim_get_user_by_name (env_http V) (sv_scim S) name w = (Ok None, w0)) \<or>
    (\<exists>su w0. scim_get_user_by_name (env_http V) (sv_scim S) name w = (Ok (Some su), w0) \<and>
       su_active su = Some False) \<or>
    (\<exists>e w0. scim_get_user_by_name (env_http V) (sv_scim S) name w = (Err e, w0) \<and>
       (offline_policy (cfg_security (sv_config S)) = Deny \<or>
        \<not> (\<exists>row. live_user (fresh_bound (env_db V) (w_cache w)) (w_cache w) row \<and> ur_login row = name) \<or>
        (\<exists>row. live_user (fresh_bound (env_db V) (w_cache w)) (w_cache w) row \<and> ur_login row = name \<and>
           \<not> ur_active row)))"
proof -
  from assms have "length name \<le> max_name_len" by (simp add: max_name_len_def)
  with assms(1) show ?thesis
  proof (cases rule: check_user_active_Ok)
    case (online su w0 u)
    then have "su_active su = Some False"
      using scim_user_to_model_Ok [of V S su w0 u] by (auto simp: import_user_def prog_inv)
    with online(1) show ?thesis by blast
  next
    case (cached e w0 v)
    with cached_user_by_name_Ok [OF cached(3)] show ?thesis by (cases v) (auto simp: user_of_row_def)
  qed blast
qed

section \<open>The groups of a user\<close>

lemma resolve_gid_first_slot:
  assumes "schema_ok E c" "\<forall>n. eng_fault E n = None" "0 < rs"
    and "group_owner c (slot hash eid lo rs 0) \<in> {None, Some eid}"
  shows "\<exists>c'. resolve_gid E hash eid lo rs c = (Ok (slot hash eid lo rs 0), c') \<and> same_tables c c'"
proof -
  define u where "u = slot hash eid lo rs 0"
  have u: "candidate lo rs (lo + hash eid mod rs) 0 = u" by (simp add: u_def candidate_slot)
  obtain v t where run: "gid_owner E u eid c = (Ok v, t)"
    using assms(2) by (auto simp: gid_owner_def prog_inv)
  from gid_owner_Ok [OF assms(1) run] have "v = None \<or> v = Some True" using assms(4) by (auto simp: u_def)
  with run have "probe lo rs (lo + hash eid mod rs) RangeExhausted (\<lambda>i. gid_owner E i eid) 0 c = (Ok u, t)"
    using assms(3) by (auto simp: probe.simps [where offset = 0] u unat_gt_0)
  moreover have "same_tables c t" by (rule keepsD [OF gid_owner_reads _ run]) simp
  ultimately show ?thesis
    using assms(3) by (auto simp: resolve_gid_def resolve_id_def id_to_uid_def u_def)
qed

lemma resolve_gids_first_slots:
  assumes "\<forall>n. eng_fault E n = None" "0 < rs"
    and "\<forall>g \<in> set gs. group_owner (w_cache w) (slot hash (gref_value g) lo rs 0) \<in> {None, Some (gref_value g)}"
    and "schema_ok E (w_cache w)"
  shows "\<exists>w'. collectp (\<lambda>g. tryp SvcCache (on_cache (resolve_gid E hash (gref_value g) lo rs)) ret) gs w =
    (Ok (map (\<lambda>g. slot hash (gref_value g) lo rs 0) gs), w')"
  using assms(3,4)
proof (induction gs arbitrary: w)
  case Nil
  then show ?case by (simp add: prog_simps)
next
  case (Cons g gs)
  obtain c' where res: "resolve_gid E hash (gref_value g) lo rs (w_cache w) = (Ok (slot hash (gref_value g) lo rs 0), c')"
    "same_tables (w_cache w) c'"
    using resolve_gid_first_slot [OF Cons.prems(2) assms(1,2), of hash "gref_value g" lo] Cons.prems(1) by auto
  define t where "t = w\<lparr>w_cache := c'\<rparr>"
  have "tryp SvcCache (on_cache (resolve_gid E hash (gref_value g) lo rs)) ret w =
      (Ok (slot hash (gref_value g) lo rs 0), t)"
    using res(1) by (simp add: prog_inv on_cache_eq t_def)
  moreover obtain w' where "collectp (\<lambda>g. tryp SvcCache (on_cache (resolve_gid E hash (gref_value g) lo rs)) ret) gs t =
      (Ok (map (\<lambda>g. slot hash (gref_value g) lo rs 0) gs), w')"
    using Cons.IH [of t] Cons.prems same_tables_views [OF res(2)] by (auto simp: t_def)
  ultimately show ?case
    by (simp only: collectp.simps bindp_run list.map) (simp add: ret_def)
qed

lemma scim_user_to_model_gid_range:
  assumes "scim_user_to_model V S su w = (Ok u, w')"
  shows "0 < gid_range_size (cfg_mapping (sv_config S))"
proof (rule ccontr)
  assume "\<not> ?thesis"
  then have "gid_range_size (cfg_mapping (sv_config S)) = 0" by (simp add: word_gt_0)
  with assms show False
    by (auto simp: scim_user_to_model_def Let_def prog_inv on_cache_eq resolve_gid_def resolve_id_def id_to_uid_def)
qed

text \<open>The groups of a user are mapped without being recorded: as long as the slots their ids hash to
  are not recorded for others, each group gets the first slot of its own id, even where another
  group of the same user gets the same one.\<close>

theorem groups_for_user_not_recorded:
  assumes "schema_ok (env_db V) (w_cache w)" "\<forall>n. eng_fault (env_db V) n = None"
    and "scim_get_user_by_name (env_http V) (sv_scim S) name w = (Ok (Some su), w0)"
    and "lookup_groups_for_user V S name w = (Ok gids, w')" "length name \<le> 256"
    and "\<forall>g \<in> set (su_groups su). group_owner (w_cache w)
      (slot (env_hash V) (gref_value g) (gid_range_min (cfg_mapping (sv_config S)))
         (gid_range_size (cfg_mapping (sv_config S))) 0) \<in> {None, Some (gref_value g)}"
  shows "gids = map (\<lambda>g. slot (env_hash V) (gref_value g) (gid_range_min (cfg_mapping (sv_config S)))
      (gid_range_size (cfg_mapping (sv_config S))) 0) (su_groups su)"
proof -
  let ?lo = "gid_range_min (cfg_mapping (sv_config S))" and ?rs = "gid_range_size (cfg_mapping (sv_config S))"
  have len: "\<not> max_name_len < length name" using assms(5) by (simp add: max_name_len_def)
  have c0: "w_cache w0 = w_cache w" using scim_call_cache(1) [OF assms(3)] by simp
  from assms(4) [unfolded lookup_groups_for_user_def if_not_P [OF len]] assms(3)
  obtain u t c where model: "scim_user_to_model V S su w0 = (Ok u, t)"
    and stored: "store_user (env_db V) u (w_cache t) = (Ok (), c)"
    and loop: "collectp (\<lambda>g. tryp SvcCache (on_cache (resolve_gid (env_db V) (env_hash V) (gref_value g) ?lo ?rs)) ret)
      (su_groups su) (t\<lparr>w_cache := c\<rparr>) = (Ok gids, w')"
    by (auto simp: Let_def prog_simps prog_inv on_cache_eq)
  define t2 where "t2 = t\<lparr>w_cache := c\<rparr>"
  have stored_t2: "store_user (env_db V) u (w_cache t) = (Ok (), w_cache t2)" using stored by (simp add: t2_def)
  note run = model stored_t2 loop [folded t2_def]
  from scim_user_to_model_Ok [OF run(1)] have same: "same_tables (w_cache w) (w_cache t)" by (auto simp: c0)
  have t: "schema_ok (env_db V) (w_cache t)" using same_tables_views [OF same] assms(1) by simp
  have t2: "schema_ok (env_db V) (w_cache t2)" by (rule keepsD [OF store_user_schema t run(2)])
  have own: "group_owner (w_cache t2) = group_owner (w_cache w)"
    using store_user_rows(4) [OF run(2)] same by (simp add: group_owner_def [abs_def] same_tables_def)
  show ?thesis
    using resolve_gids_first_slots [OF assms(2) scim_user_to_model_gid_range [OF run(1)], of "su_groups su" t2
        "env_hash V" ?lo] t2 own assms(6) run(3)
    by auto
qed

theorem groups_for_user_not_recorded_witness:
  "fst (lookup_groups_for_user (demo_env True) (demo_service Deny) ''ann'' demo_world) = Ok [2000, 2000]"
proof -
  let ?V = "demo_env True" and ?S = "demo_service Deny"
  have "case fst (scim_get_user_by_name (env_http ?V) (sv_scim ?S) ''ann'' demo_world) of
      Ok (Some su) \<Rightarrow> map gref_value (su_groups su) = [''g'', ''h''] | _ \<Rightarrow> False"
    by code_simp
  then obtain su w0 where scim: "scim_get_user_by_name (env_http ?V) (sv_scim ?S) ''ann'' demo_world = (Ok (Some su), w0)"
    and groups: "map gref_value (su_groups su) = [''g'', ''h'']"
    by (cases "scim_get_user_by_name (env_http ?V) (sv_scim ?S) ''ann'' demo_world")
      (auto split: outcome.splits option.splits)
  have "\<exists>gids w'. lookup_groups_for_user ?V ?S ''ann'' demo_world = (Ok gids, w')"
    by (rule runs_Ok) code_simp
  then obtain gids w' where run: "lookup_groups_for_user ?V ?S ''ann'' demo_world = (Ok gids, w')" by blast
  have quiet: "\<forall>n. eng_fault (env_db ?V) n = None" by (simp add: demo_env_def quiet_engine_def)
  have slots: "slot (env_hash ?V) x 2000 5 0 = 2000" for x by (simp add: slot_def demo_env_def)
  have free: "group_owner (w_cache demo_world) i = None" for i
    by (simp add: group_owner_def demo_world_def empty_cache_def)
  have rng: "gid_range_min (cfg_mapping (sv_config ?S)) = 2000" "gid_range_size (cfg_mapping (sv_config ?S)) = 5"
    by (simp_all add: demo_service_def demo_config_def)
  have "gids = map (\<lambda>g. 2000) (su_groups su)"
    using groups_for_user_not_recorded [OF demo_tables quiet scim run] by (simp add: rng slots free)
  also have "\<dots> = map (\<lambda>x. 2000) (map gref_value (su_groups su))" by simp
  also have "\<dots> = [2000, 2000]" by (simp only: groups) simp
  finally show ?thesis by (simp add: run)
qed

end
