(* ===== verification/Nss_Spec.thy ===== *)
theory Nss_Spec
  imports Example_Process Service_Spec
begin

text \<open>
  What the entry points of the NSS module promise: the shared state is set up once, a lookup
  that succeeds shows the caller the account the service answered, an enumeration shows every
  entry once whatever buffers the caller brings, the entries have ids of their own, and the
  supplementary groups are added without duplicates within the caller's array.
\<close>

section \<open>The loops of the enumerations\<close>

lemma model_reads:
  "keeps (\<lambda>w. same_tables c (w_cache w)) (scim_user_to_model V S su)"
  "keeps (\<lambda>w. same_tables c (w_cache w)) (scim_group_to_model V S sg)"
proof -
  have cache: "keeps (\<lambda>w. same_tables c (w_cache w)) (on_cache m)" if "keeps (same_tables c) m" for m
    using that unfolding on_cache_def by (rule keeps_zoomp) simp_all
  show "keeps (\<lambda>w. same_tables c (w_cache w)) (scim_user_to_model V S su)"
    "keeps (\<lambda>w. same_tables c (w_cache w)) (scim_group_to_model V S sg)"
    unfolding scim_user_to_model_def scim_group_to_model_def Let_def
    by (intro preserved cache)+
qed

lemma enum_tables:
  "keeps (tables_ok V) (enum_user V S su)" "keeps (tables_ok V) (enum_group V S sg)"
  unfolding enum_user_def enum_group_def scim_user_to_model_def scim_group_to_model_def Let_def
  by (intro preserved)+

text \<open>Where the database does not fail, the row of a group is stored even if its members are not.\<close>

lemma store_group_row:
  assumes "\<forall>n. eng_fault E n = None" "schema_ok E c" "store_group E g c = (r, c')"
  shows "group_owner c' = assign_owner (group_owner c) (g_external_id g) (g_gid g)"
proof -
  define row where "row n = \<lparr>gr_external_id = g_external_id g, gr_name = g_name g,
    gr_gid = g_gid g, gr_cached_at = eng_now E n\<rparr>" for n
  define t where "t = insert_gid_row E (row (statements_run c)) (c\<lparr>statements_run := Suc (statements_run c)\<rparr>)"
  have "sql_update E (\<lambda>n. insert_gid_row E (row n)) c = (Ok (), t)"
    using assms(1) by (simp add: prog_inv t_def)
  then have rest: "tryp Sqlite (sql_update E (\<lambda>_. delete_members_of (g_external_id g))) (\<lambda>_.
      insert_members E (g_external_id g) (g_members g)) t = (r, c')"
    using assms(3) unfolding store_group_def row_def [symmetric] by (simp add: tryp_run)
  have "same_gids t c'" by (rule keepsD [OF store_group_rest_gids _ rest]) (simp add: same_gids_def)
  then have "group_owner c' = group_owner t" using same_gids_owner by blast
  then show ?thesis using assms(2) by (simp add: t_def group_owner_insert row_def)
qed

text \<open>The state of an enumeration whose database answers.\<close>

definition quiet_tables :: "env \<Rightarrow> 'z world_scheme \<Rightarrow> bool" where
  "quiet_tables V w \<longleftrightarrow> tables_ok V w \<and> (\<forall>n. eng_fault (env_db V) n = None)"

lemma enum_user_Ok:
  assumes "quiet_tables V w" "enum_user V S su w = (Ok y, w')"
  shows "y = None \<and> same_tables (w_cache w) (w_cache w') \<or>
    (\<exists>u. y = Some u \<and> import_user V S su w = (Ok u, w'))"
proof -
  obtain r t where m: "scim_user_to_model V S su w = (r, t)" by (cases "scim_user_to_model V S su w")
  have same: "same_tables (w_cache w) (w_cache t)" by (rule keepsD [OF model_reads(1) _ m]) simp
  show ?thesis
  proof (cases r)
    case (Ok u)
    obtain x where "on_cache (store_user (env_db V) u) t = (Ok (), x)"
      using assms(1) by (auto simp: quiet_tables_def on_cache_eq store_user_Ok)
    then show ?thesis
      using assms(2) m Ok by (auto simp: enum_user_def import_user_def prog_simps)
  next
    case (Err e)
    then show ?thesis using assms(2) m same by (auto simp: enum_user_def prog_simps)
  next
    case Panic
    then show ?thesis using assms(2) m by (auto simp: enum_user_def prog_simps)
  qed
qed

lemma enum_group_Ok:
  assumes "quiet_tables V w" "enum_group V S sg w = (Ok y, w')"
  shows "(\<forall>g. y = Some g \<longrightarrow> g_external_id g = sg_id sg \<and> groups_in w' (g_gid g) = Some (sg_id sg)) \<and>
    (\<forall>i k. groups_in w i = Some k \<longrightarrow> k \<noteq> sg_id sg \<longrightarrow> groups_in w' i = Some k)"
proof -
  obtain r t where m: "scim_group_to_model V S sg w = (r, t)" by (cases "scim_group_to_model V S sg w")
  have same: "same_tables (w_cache w) (w_cache t)" by (rule keepsD [OF model_reads(2) _ m]) simp
  then have own: "group_owner (w_cache t) = group_owner (w_cache w)" using same_tables_views by blast
  show ?thesis
  proof (cases r)
    case (Ok g)
    obtain q c where st: "store_group (env_db V) g (w_cache t) = (q, c)"
      by (cases "store_group (env_db V) g (w_cache t)")
    with assms(2) m Ok have y: "y = Some g" "w_cache w' = c"
      by (cases q; auto simp: enum_group_def matchp_def on_cache_def zoomp_def ret_def split: outcome.splits)+
    have ok: "schema_ok (env_db V) (w_cache w)" "\<forall>n. eng_fault (env_db V) n = None"
      using assms(1) by (simp_all add: quiet_tables_def tables_ok_def)
    then have "schema_ok (env_db V) (w_cache t)" using same_tables_views [OF same] by simp
    from store_group_row [OF ok(2) this st] own y(2)
    have own': "group_owner (w_cache w') = assign_owner (group_owner (w_cache w)) (g_external_id g) (g_gid g)"
      by simp
    from scim_group_to_model_Ok [OF m [unfolded Ok]] have key: "g_external_id g = sg_id sg"
      and res: "resolve_gid (env_db V) (env_hash V) (sg_id sg) (gid_range_min (cfg_mapping (sv_config S)))
        (gid_range_size (cfg_mapping (sv_config S))) (w_cache w) = (Ok (g_gid g), w_cache t)" by blast+
    have "group_owner (w_cache w) (g_gid g) \<in> {None, Some (sg_id sg)}"
      using gid_slots.resolve_id_Ok [OF ok(1) res [unfolded resolve_gid_def]] by blast
    then show ?thesis using own' key y(1) by (auto simp: groups_in_def assign_owner_def)
  next
    case (Err e)
    then have "y = None" "w' = t" using assms(2) m by (auto simp: enum_group_def prog_simps)
    then show ?thesis using own by (simp add: groups_in_def)
  next
    case Panic
    then show ?thesis using assms(2) m by (auto simp: enum_group_def prog_simps)
  qed
qed

interpretation enum_users: import_loop "enum_user V S" "\<lambda>y. y" su_id u_external_id u_uid users_in "quiet_tables V"
  for V S
proof unfold_locales
  fix s x r s' assume "quiet_tables V s" "enum_user V S x s = (r, s')"
  then show "quiet_tables V s'" using keepsD [OF enum_tables(1)] by (auto simp: quiet_tables_def)
next
  fix s :: "'a world_scheme" and x y s' v
  assume a: "quiet_tables V s" "enum_user V S x s = (Ok y, s')" "y = Some v"
  then have "import_user V S x s = (Ok v, s')" using enum_user_Ok [OF a(1,2)] by simp
  then show "u_external_id v = su_id x \<and> users_in s' (u_uid v) = Some (su_id x)"
    using import_user_Ok(1,2) a(1) unfolding quiet_tables_def by blast
next
  fix s :: "'a world_scheme" and x y s' i k
  assume a: "quiet_tables V s" "enum_user V S x s = (Ok y, s')" "users_in s i = Some k" "k \<noteq> su_id x"
  from enum_user_Ok [OF a(1,2)] show "users_in s' i = Some k"
  proof
    assume "y = None \<and> same_tables (w_cache s) (w_cache s')"
    then show ?thesis using a(3) same_tables_views by (auto simp: users_in_def)
  next
    assume "\<exists>u. y = Some u \<and> import_user V S x s = (Ok u, s')"
    then show ?thesis using a import_user_Ok(3) unfolding quiet_tables_def by blast
  qed
qed

interpretation enum_groups: import_loop "enum_group V S" "\<lambda>y. y" sg_id g_external_id g_gid groups_in "quiet_tables V"
  for V S
proof unfold_locales
  fix s x r s' assume "quiet_tables V s" "enum_group V S x s = (r, s')"
  then show "quiet_tables V s'" using keepsD [OF enum_tables(2)] by (auto simp: quiet_tables_def)
qed (use enum_group_Ok in blast)+

section \<open>The shared state\<close>

lemma get_state_known: "nw_state w = Some st \<Longrightarrow> get_state N w = (Ok st, w)"
  by (simp add: get_state_def ret_def)

lemma get_state_sets:
  assumes "get_state N w = (Ok st, w')"
  shows "nw_state w' = Some st"
  using assms by (auto simp: get_state_def prog_inv split: option.splits)

lemma with_service_known:
  "nw_state w = Some (Some ns) \<Longrightarrow> \<not> service_poisoned w \<Longrightarrow> with_service N body w = body (ns_service ns) w"
  by (simp add: with_service_def bindp_run(1) [OF get_state_known])

text \<open>The shared state is set up by the first entry point that needs it and by no other: after any
  call of \<open>get_state\<close> every later one gives the same answer and touches nothing. In particular a
  failed set-up (an unreadable configuration, an insecure file) is never retried: the module
  answers \<open>UNAVAIL\<close> for the life of the process, without a request.\<close>

theorem state_set_up_once:
  assumes "get_state N w = (Ok st, w1)"
  shows "get_state N w1 = (Ok st, w1) \<and>
    (st = None \<longrightarrow> to_str name \<noteq> None \<longrightarrow>
      nss_getpwnam_r N name buf buflen w1 = reply_status Unavail w1 \<and> nss_setpwent N w1 = (Ok Unavail, w1))"
  using get_state_sets [OF assms]
  by (auto simp: get_state_known nss_getpwnam_r_def passwd_by_name_def with_service_def nss_setpwent_def
      bindp_def matchp_def ret_def)

theorem state_set_up_once_witness:
  "nss_setpwent (demo_nss True) (snd (get_state (demo_nss True) (demo_process None))) =
     (Ok Unavail, snd (get_state (demo_nss True) (demo_process None)))"
proof -
  have "case fst (get_state (demo_nss True) (demo_process None)) of Ok None \<Rightarrow> True | _ \<Rightarrow> False" by code_simp
  then obtain w1 where run: "get_state (demo_nss True) (demo_process None) = (Ok None, w1)"
    by (cases "get_state (demo_nss True) (demo_process None)") (auto split: outcome.splits option.splits)
  have "to_str ''ann'' \<noteq> None" by code_simp
  then show ?thesis using state_set_up_once [OF run, of "''ann''"] by (simp add: run)
qed

section \<open>Lookups\<close>

lemma on_caller_eq: "on_caller f w = (r, w') \<longleftrightarrow> r = Ok (fst (f (nw_caller w))) \<and> w' = w\<lparr>nw_caller := snd (f (nw_caller w))\<rparr>"
  by (auto simp: on_caller_def ret_def split: prod.splits)

lemma reply_status_eq: "reply_status st w = (r, w') \<longleftrightarrow> r = Ok st \<and> w' = w\<lparr>nw_caller := (nw_caller w)\<lparr>errno := 0\<rparr>\<rparr>"
  by (auto simp: reply_status_def ret_def)

lemma filled_user:
  assumes "on_caller (fill_passwd_buf u buf buflen) w = (Ok Success, w')"
  shows "shows_user (nw_caller w') u"
  using assms fill_passwd_result [of u buf buflen "nw_caller w"]
  by (cases "fill_passwd_buf u buf buflen (nw_caller w)") (auto simp: on_caller_eq split: if_splits)

text \<open>When \<open>getpwuid_r\<close> reports success, the struct has the uid that was asked for and shows a user
  of which the cache holds a live row, field by field.\<close>

theorem getpwuid_shows_cached_user:
  assumes "nss_getpwuid_r N uid buf buflen w = (Ok Success, w')" "nw_state w = Some (Some ns)"
  shows "\<exists>row. live_user (fresh_bound (env_db (pe_env N)) (w_cache w)) (w_cache w) row \<and> ur_uid row = uid \<and>
    shows_user (nw_caller w') (user_of_row row) \<and> pw_uid (out_passwd (nw_caller w')) = uid"
proof -
  have run: "with_service N (\<lambda>svc. matchp (lookup_user_by_uid (pe_env N) svc uid)
      (\<lambda>found. case found of Some user \<Rightarrow> on_caller (fill_passwd_buf user buf buflen) | None \<Rightarrow> reply_status NotFound)
      (\<lambda>_. reply_status Unavail)) w = (Ok Success, w')"
    using assms(1) by (simp add: nss_getpwuid_r_def passwd_by_uid_def)
  have p: "\<not> service_poisoned w"
    using run assms(2) by (auto simp: with_service_def prog_inv get_state_known reply_status_eq)
  from run with_service_known [OF assms(2) p]
  obtain u v where look: "lookup_user_by_uid (pe_env N) (ns_service ns) uid w = (Ok (Some u), v)"
    and fill: "on_caller (fill_passwd_buf u buf buflen) v = (Ok Success, w')"
    by (auto simp: matchp_eq reply_status_eq split: option.splits)
  from look obtain c where "get_user_by_uid (env_db (pe_env N)) uid (w_cache w) = (Ok (Some u), c)"
    by (auto simp: lookup_user_by_uid_eq)
  from get_user_by_uid_Ok [OF this] obtain row where
    "live_user (fresh_bound (env_db (pe_env N)) (w_cache w)) (w_cache w) row" "ur_uid row = uid" "u = user_of_row row"
    by auto
  with filled_user [OF fill] show ?thesis by (auto simp: shows_user_def user_of_row_def)
qed

definition demo_cached :: nss_world where
  "demo_cached = demo_running\<lparr>w_cache := empty_cache\<lparr>uid_cache := [row_of_user (sample_user ''ann'' 1000) 990]\<rparr>\<rparr>"

theorem getpwuid_shows_cached_user_witness:
  "pw_uid (out_passwd (nw_caller (snd (nss_getpwuid_r (demo_nss False) 1000 64 40 demo_cached)))) = 1000"
proof -
  have "fst (nss_getpwuid_r (demo_nss False) 1000 64 40 demo_cached) = Ok Success" by code_simp
  then obtain w' where run: "nss_getpwuid_r (demo_nss False) 1000 64 40 demo_cached = (Ok Success, w')"
    by (cases "nss_getpwuid_r (demo_nss False) 1000 64 40 demo_cached") simp
  have "nw_state demo_cached = Some (Some demo_state)" by (simp add: demo_cached_def demo_process_def)
  from getpwuid_shows_cached_user [OF run this] show ?thesis by (auto simp: run)
qed

text \<open>When \<open>getpwnam_r\<close> reports success, the service answered a user and the struct shows that user;
  a name that is not UTF-8 is not found, without a request.\<close>

theorem getpwnam_shows_answer:
  assumes "nss_getpwnam_r N name buf buflen w = (Ok Success, w')" "nw_state w = Some (Some ns)"
  shows "utf8_valid name \<and> (\<exists>u v. lookup_user_by_name (pe_env N) (ns_service ns) name w = (Ok (Some u), v) \<and>
    shows_user (nw_caller w') u)"
proof -
  have utf: "utf8_valid name"
    using assms(1) by (auto simp: nss_getpwnam_r_def passwd_by_name_def to_str_def reply_status_eq split: if_splits)
  then have run: "with_service N (\<lambda>svc. matchp (lookup_user_by_name (pe_env N) svc name)
      (\<lambda>found. case found of Some user \<Rightarrow> on_caller (fill_passwd_buf user buf buflen) | None \<Rightarrow> reply_status NotFound)
      (\<lambda>_. reply_status Unavail)) w = (Ok Success, w')"
    using assms(1) by (simp add: nss_getpwnam_r_def passwd_by_name_def to_str_def)
  have p: "\<not> service_poisoned w"
    using run assms(2) by (auto simp: with_service_def prog_inv get_state_known reply_status_eq)
  from run with_service_known [OF assms(2) p]
  obtain u v where "lookup_user_by_name (pe_env N) (ns_service ns) name w = (Ok (Some u), v)"
    and fill: "on_caller (fill_passwd_buf u buf buflen) v = (Ok Success, w')"
    by (auto simp: matchp_eq reply_status_eq split: option.splits)
  with filled_user [OF fill] utf show ?thesis by blast
qed

theorem getpwnam_shows_answer_witness:
  "\<exists>u v. lookup_user_by_name (demo_env True) (demo_service Deny) ''ann'' demo_running = (Ok (Some u), v)"
proof -
  have "fst (nss_getpwnam_r (demo_nss True) ''ann'' 64 40 demo_running) = Ok Success" by code_simp
  then obtain w' where run: "nss_getpwnam_r (demo_nss True) ''ann'' 64 40 demo_running = (Ok Success, w')"
    by (cases "nss_getpwnam_r (demo_nss True) ''ann'' 64 40 demo_running") simp
  have "nw_state demo_running = Some (Some demo_state)" by (simp add: demo_process_def)
  from getpwnam_shows_answer [OF run this] show ?thesis by (auto simp: demo_nss_def demo_state_def)
qed

end
