(* ===== verification/Nss_Enum.thy ===== *)
theory Nss_Enum
  imports Nss_Spec
begin

text \<open>
  The enumerations and the supplementary groups: a caller that retries with larger buffers sees
  every entry once and in order, an enumeration has no id twice, and \<open>initgroups_dyn\<close> fills the
  caller's array without duplicates and never beyond its end.
\<close>

lemma bind_state: "nw_state w = Some st \<Longrightarrow> bindp (get_state N) f w = f st w"
  by (simp add: bindp_def matchp_def get_state_known)

section \<open>Walking through an enumeration\<close>

text \<open>A caller's sequence of calls, each with its buffer: the status and the state after each.\<close>

fun run_calls ::
  "(nat \<Rightarrow> nat \<Rightarrow> ('s, nss_status, 'e) prog) \<Rightarrow> (nat \<times> nat) list \<Rightarrow> 's \<Rightarrow> (nss_status \<times> 's) list" where
  "run_calls next [] s = []"
| "run_calls next ((buf, len) # bufs) s =
     (case next buf len s of
        (Ok st, s') \<Rightarrow> (st, s') # run_calls next bufs s'
      | _ \<Rightarrow> [])"

text \<open>The states in which the caller was shown an entry.\<close>

definition shown_in :: "(nss_status \<times> 's) list \<Rightarrow> 's list" where
  "shown_in trace = map snd (filter (\<lambda>(st, s). st = Success) trace)"

text \<open>
  The interface of an enumeration: the entries still to come, the next one shown if it fits the
  buffer, kept for another try if not, and the end reported when none is left.
\<close>

locale enumeration =
  fixes next_entry :: "nat \<Rightarrow> nat \<Rightarrow> ('s, nss_status, 'e) prog"
    and pending :: "'s \<Rightarrow> 'v list option"
    and fits :: "'v \<Rightarrow> nat \<Rightarrow> bool"
    and shows_entry :: "'s \<Rightarrow> 'v \<Rightarrow> bool"
    and good_buf :: "nat \<Rightarrow> nat \<Rightarrow> bool"
  assumes next_shows: "pending s = Some (v # vs) \<Longrightarrow> good_buf b l \<Longrightarrow> fits v l \<Longrightarrow>
      \<exists>s'. next_entry b l s = (Ok Success, s') \<and> pending s' = Some vs \<and> shows_entry s' v"
    and next_retry: "pending s = Some (v # vs) \<Longrightarrow> good_buf b l \<Longrightarrow> \<not> fits v l \<Longrightarrow>
      \<exists>s'. next_entry b l s = (Ok TryAgain, s') \<and> pending s' = Some (v # vs)"
    and next_end: "pending s = Some [] \<Longrightarrow> \<exists>s'. next_entry b l s = (Ok NotFound, s') \<and> pending s' = Some []"
begin

lemma shown_prefix:
  assumes "pending s = Some vs" "\<forall>(b, l) \<in> set bufs. good_buf b l"
  shows "length (shown_in (run_calls next_entry bufs s)) \<le> length vs \<and>
    list_all2 shows_entry (shown_in (run_calls next_entry bufs s))
      (take (length (shown_in (run_calls next_entry bufs s))) vs)"
  using assms
proof (induction bufs arbitrary: s vs)
  case (Cons bl bufs)
  obtain b l where bl: "bl = (b, l)" by (cases bl)
  have good: "good_buf b l" "\<forall>(b, l) \<in> set bufs. good_buf b l" using Cons.prems(2) bl by auto
  show ?case
  proof (cases vs)
    case Nil
    with next_end Cons.prems(1) obtain s' where "next_entry b l s = (Ok NotFound, s')" "pending s' = Some []"
      by blast
    with Cons.IH [of s' "[]"] good(2) Nil show ?thesis by (simp add: bl shown_in_def)
  next
    case (Cons v ws)
    show ?thesis
    proof (cases "fits v l")
      case True
      with next_shows Cons.prems(1) good(1) Cons obtain s' where
        "next_entry b l s = (Ok Success, s')" "pending s' = Some ws" "shows_entry s' v" by blast
      with Cons.IH [of s' ws] good(2) Cons show ?thesis by (simp add: bl shown_in_def)
    next
      case False
      with next_retry Cons.prems(1) good(1) Cons obtain s' where
        "next_entry b l s = (Ok TryAgain, s')" "pending s' = Some vs" by blast
      with Cons.IH [of s' vs] good(2) show ?thesis by (simp add: bl shown_in_def)
    qed
  qed
qed (simp add: shown_in_def)

lemma shown_all:
  assumes "pending s = Some vs" "\<forall>(b, l) \<in> set bufs. good_buf b l \<and> (\<forall>v \<in> set vs. fits v l)"
    and "length vs \<le> length bufs"
  shows "length (shown_in (run_calls next_entry bufs s)) = length vs"
  using assms
proof (induction bufs arbitrary: s vs)
  case (Cons bl bufs)
  obtain b l where bl: "bl = (b, l)" by (cases bl)
  show ?case
  proof (cases vs)
    case Nil
    with next_end Cons.prems(1) obtain s' where "next_entry b l s = (Ok NotFound, s')" "pending s' = Some []"
      by blast
    with Cons.IH [of s' "[]"] Cons.prems(2) Nil show ?thesis by (auto simp: bl shown_in_def)
  next
    case (Cons v ws)
    with next_shows [of s v ws b l] Cons.prems bl obtain s' where
      "next_entry b l s = (Ok Success, s')" "pending s' = Some ws" by auto
    moreover have "\<forall>(b, l) \<in> set bufs. good_buf b l \<and> (\<forall>v \<in> set ws. fits v l)"
      using Cons.prems(2) Cons by auto
    ultimately show ?thesis using Cons.IH [of s' ws] Cons.prems(3) Cons by (simp add: bl shown_in_def)
  qed
qed (simp add: shown_in_def)

end

definition pending_users :: "nss_world \<Rightarrow> user list option" where
  "pending_users w =
     (if user_enum_poisoned w then None else map_option (\<lambda>(us, idx). drop idx us) (user_enum w))"

definition pending_groups :: "nss_world \<Rightarrow> group list option" where
  "pending_groups w =
     (if group_enum_poisoned w then None else map_option (\<lambda>(gs, idx). drop idx gs) (group_enum w))"

lemma drop_eq_Cons: "drop n xs = y # ys \<Longrightarrow> n < length xs \<and> xs ! n = y \<and> drop (n + 1) xs = ys"
  by (metis Suc_eq_plus1 drop_eq_Nil2 drop_Suc list.distinct(1) list.sel(1) list.sel(3) hd_drop_conv_nth not_le tl_drop)

interpretation pwent: enumeration nss_getpwent_r pending_users "\<lambda>u l. passwd_size u \<le> l"
  "\<lambda>w. shows_user (nw_caller w)" "\<lambda>_ _. True"
proof unfold_locales
  fix s :: nss_world and v vs b l
  assume p: "pending_users s = Some (v # vs)"
  then obtain us i where e: "\<not> user_enum_poisoned s" "user_enum s = Some (us, i)" "drop i us = v # vs"
    by (auto simp: pending_users_def split: if_splits)
  note d = drop_eq_Cons [OF e(3)]
  obtain st c where f: "fill_passwd_buf v b l (nw_caller s) = (st, c)" by (cases "fill_passwd_buf v b l (nw_caller s)")
  have step: "nss_getpwent_r b l s = ret st (if st = Success
      then s\<lparr>nw_caller := c\<rparr>\<lparr>user_enum := Some (us, i + 1)\<rparr> else s\<lparr>nw_caller := c\<rparr>)"
    using e d f by (simp add: nss_getpwent_r_def bindp_def matchp_def on_caller_def ret_def)
  show "\<exists>s'. nss_getpwent_r b l s = (Ok Success, s') \<and> pending_users s' = Some vs \<and> shows_user (nw_caller s') v"
    if "passwd_size v \<le> l"
    using step fill_passwd_result [OF f] that e d by (simp add: pending_users_def ret_def)
  show "\<exists>s'. nss_getpwent_r b l s = (Ok TryAgain, s') \<and> pending_users s' = Some (v # vs)"
    if "\<not> passwd_size v \<le> l"
    using step fill_passwd_result [OF f] that e d by (simp add: pending_users_def ret_def)
next
  fix s :: nss_world and b l
  assume "pending_users s = Some []"
  then show "\<exists>s'. nss_getpwent_r b l s = (Ok NotFound, s') \<and> pending_users s' = Some []"
    by (intro exI [of _ "s\<lparr>nw_caller := (nw_caller s)\<lparr>errno := 0\<rparr>\<rparr>"])
      (auto simp: pending_users_def nss_getpwent_r_def reply_status_def ret_def split: if_splits)
qed

interpretation grent: enumeration nss_getgrent_r pending_groups "\<lambda>g l. group_size g \<le> l"
  "\<lambda>w. shows_group (nw_caller w)" "\<lambda>b l. 0 < b \<and> b + l \<le> 256 ^ 8"
proof unfold_locales
  fix s :: nss_world and v vs b l
  assume p: "pending_groups s = Some (v # vs)" and good: "0 < b \<and> b + l \<le> (256 :: nat) ^ 8"
  then obtain us i where e: "\<not> group_enum_poisoned s" "group_enum s = Some (us, i)" "drop i us = v # vs"
    by (auto simp: pending_groups_def split: if_splits)
  note d = drop_eq_Cons [OF e(3)]
  obtain st c where f: "fill_group_buf v b l (nw_caller s) = (st, c)" by (cases "fill_group_buf v b l (nw_caller s)")
  have step: "nss_getgrent_r b l s = ret st (if st = Success
      then s\<lparr>nw_caller := c\<rparr>\<lparr>group_enum := Some (us, i + 1)\<rparr> else s\<lparr>nw_caller := c\<rparr>)"
    using e d f by (simp add: nss_getgrent_r_def bindp_def matchp_def on_caller_def ret_def)
  note res = fill_group_result [OF f conjunct1 [OF good] conjunct2 [OF good]]
  show "\<exists>s'. nss_getgrent_r b l s = (Ok Success, s') \<and> pending_groups s' = Some vs \<and> shows_group (nw_caller s') v"
    if "group_size v \<le> l"
    using step res that e d by (simp add: pending_groups_def ret_def)
  show "\<exists>s'. nss_getgrent_r b l s = (Ok TryAgain, s') \<and> pending_groups s' = Some (v # vs)"
    if "\<not> group_size v \<le> l"
    using step res that e d by (simp add: pending_groups_def ret_def)
next
  fix s :: nss_world and b l
  assume "pending_groups s = Some []"
  then show "\<exists>s'. nss_getgrent_r b l s = (Ok NotFound, s') \<and> pending_groups s' = Some []"
    by (intro exI [of _ "s\<lparr>nw_caller := (nw_caller s)\<lparr>errno := 0\<rparr>\<rparr>"])
      (auto simp: pending_groups_def nss_getgrent_r_def reply_status_def ret_def split: if_splits)
qed

text \<open>C12: an enumeration of the users shows the caller the listed users in order, none twice and none
  skipped: the successful calls of any sequence of \<open>getpwent_r\<close> show a prefix of the list, a call
  with too small a buffer loses nothing, and enough calls with enough room show the whole list.\<close>

theorem getpwent_shows_each_once:
  assumes "user_enum w = Some (us, 0)" "\<not> user_enum_poisoned w"
  shows "list_all2 (\<lambda>v u. shows_user (nw_caller v) u) (shown_in (run_calls nss_getpwent_r bufs w))
      (take (length (shown_in (run_calls nss_getpwent_r bufs w))) us) \<and>
    (length us \<le> length bufs \<and> (\<forall>(buf, len) \<in> set bufs. \<forall>u \<in> set us. passwd_size u \<le> len) \<longrightarrow>
      length (shown_in (run_calls nss_getpwent_r bufs w)) = length us)"
proof -
  have p: "pending_users w = Some us" using assms by (simp add: pending_users_def)
  show ?thesis using pwent.shown_prefix [OF p, of bufs] pwent.shown_all [OF p, of bufs] by auto
qed

definition demo_users :: "user list" where
  "demo_users = [sample_user ''ann'' 1000, sample_user ''bob'' 1001]"

theorem getpwent_shows_each_once_witness:
  "length (shown_in (run_calls nss_getpwent_r [(64, 60), (64, 60), (64, 60)]
     (demo_running\<lparr>user_enum := Some (demo_users, 0)\<rparr>))) = 2"
proof -
  let ?w = "demo_running\<lparr>user_enum := Some (demo_users, 0)\<rparr>"
  have "\<forall>u \<in> set demo_users. passwd_size u \<le> 60" by code_simp
  moreover have "user_enum ?w = Some (demo_users, 0)" "\<not> user_enum_poisoned ?w" "length demo_users = 2"
    by (simp_all add: demo_process_def demo_users_def)
  ultimately show ?thesis
    using getpwent_shows_each_once [of ?w demo_users "[(64, 60), (64, 60), (64, 60)]"] by simp
qed

text \<open>The same for an enumeration of the groups, with buffers in a 64-bit address space.\<close>

theorem getgrent_shows_each_once:
  assumes "group_enum w = Some (gs, 0)" "\<not> group_enum_poisoned w"
    and "\<forall>(buf, len) \<in> set bufs. 0 < buf \<and> buf + len \<le> 256 ^ 8"
  shows "list_all2 (\<lambda>v g. shows_group (nw_caller v) g) (shown_in (run_calls nss_getgrent_r bufs w))
      (take (length (shown_in (run_calls nss_getgrent_r bufs w))) gs) \<and>
    (length gs \<le> length bufs \<and> (\<forall>(buf, len) \<in> set bufs. \<forall>g \<in> set gs. group_size g \<le> len) \<longrightarrow>
      length (shown_in (run_calls nss_getgrent_r bufs w)) = length gs)"
proof -
  have p: "pending_groups w = Some gs" using assms by (simp add: pending_groups_def)
  have all: "\<forall>(b, l) \<in> set bufs. (0 < b \<and> b + l \<le> 256 ^ 8) \<and> (\<forall>g \<in> set gs. group_size g \<le> l)"
    if "\<forall>(buf, len) \<in> set bufs. \<forall>g \<in> set gs. group_size g \<le> len"
    using assms(3) that by auto
  show ?thesis using grent.shown_prefix [OF p, of bufs] grent.shown_all [OF p all] assms(3) by blast
qed

theorem getgrent_shows_each_once_witness:
  "length (shown_in (run_calls nss_getgrent_r [(64, 60), (64, 60)]
     (demo_running\<lparr>group_enum := Some ([sample_group ''ops'' 2000 [''ann'', ''bob'']], 0)\<rparr>))) = 1"
proof -
  let ?gs = "[sample_group ''ops'' 2000 [''ann'', ''bob'']]"
  let ?w = "demo_running\<lparr>group_enum := Some (?gs, 0)\<rparr>"
  have "\<forall>g \<in> set ?gs. group_size g \<le> 60" by code_simp
  moreover have "group_enum ?w = Some (?gs, 0)" "\<not> group_enum_poisoned ?w"
    by (simp_all add: demo_process_def)
  ultimately show ?thesis
    using getgrent_shows_each_once [of ?w ?gs "[(64, 60), (64, 60)]"] by simp
qed

section \<open>Beginning an enumeration\<close>

text \<open>What neither the wire nor the cache is part of survives a listing and its loop.\<close>

lemma paginate_keeps:
  assumes "\<And>w x y t. P w \<Longrightarrow> P (w\<lparr>sent := x, redirected := y, mono := t\<rparr>)"
  shows "keeps P (paginate_list H c dec r)"
proof -
  have "keeps P (paginate_pages H c dec r pages i all)" for pages i all
    by (induction pages arbitrary: i all) (auto simp: Let_def assms intro!: preserved)
  then show ?thesis unfolding paginate_list_def by (intro preserved)
qed

lemma on_cache_keeps:
  assumes "\<And>w c. P w \<Longrightarrow> P (w\<lparr>w_cache := c\<rparr>)"
  shows "keeps P (on_cache m)"
  unfolding on_cache_def by (rule keeps_zoomp [where Q = "\<lambda>_. True"]) (simp_all add: assms keeps_def)

lemma enum_keeps:
  assumes "\<And>w c. P w \<Longrightarrow> P (w\<lparr>w_cache := c\<rparr>)"
  shows "keeps P (enum_user V S su)" "keeps P (enum_group V S sg)"
  unfolding enum_user_def enum_group_def scim_user_to_model_def scim_group_to_model_def Let_def
  by (intro preserved on_cache_keeps assms; assumption)+

text \<open>C37: an enumeration begun while the database answers has no uid twice, each entry is one of the
  directory's resources, and the cache records it under its uid.\<close>

theorem setpwent_distinct_uids:
  assumes "nw_state w = Some (Some ns)" "\<not> service_poisoned w" "\<not> user_enum_poisoned w"
    and "schema_ok (env_db (pe_env N)) (w_cache w)" "\<forall>n. eng_fault (env_db (pe_env N)) n = None"
    and "list_users (env_http (pe_env N)) (ns_scim ns) w = (Ok sus, w1)" "distinct (map su_id sus)"
    and "nss_setpwent N w = (Ok st, w')"
  shows "\<exists>us. st = Success \<and> user_enum w' = Some (us, 0) \<and> distinct (map u_uid us) \<and>
    (\<forall>u \<in> set us. u_external_id u \<in> su_id ` set sus \<and>
       user_owner (w_cache w') (u_uid u) = Some (u_external_id u))"
proof -
  define flags where "flags v \<longleftrightarrow> \<not> service_poisoned v \<and> \<not> user_enum_poisoned v" for v :: nss_world
  have q1: "quiet_tables (pe_env N) w1"
    using listed_tables [OF assms(6)] assms(4,5) by (simp add: quiet_tables_def tables_ok_def)
  have f1: "flags w1"
    using keepsD [OF paginate_keeps _ assms(6) [unfolded list_users_def], of flags] assms(2,3)
    by (simp add: flags_def)
  from assms(8) obtain ys v where loop: "collectp (enum_user (pe_env N) (ns_service ns)) sus w1 = (Ok ys, v)"
    and res: "st = Success" "w' = (if user_enum_poisoned v then v else v\<lparr>user_enum := Some (List.map_filter (\<lambda>u. u) ys, 0)\<rparr>)"
    using f1 assms(6) by (auto simp: nss_setpwent_def bind_state [OF assms(1)]
        matchp_run flags_def bindp_eq ret_def)
  have "keeps flags (collectp (enum_user (pe_env N) (ns_service ns)) sus)"
    by (intro keeps_collectp enum_keeps) (simp add: flags_def)
  then have "flags v" using f1 loop by (rule keepsD)
  then have w': "w' = v\<lparr>user_enum := Some (List.map_filter (\<lambda>u. u) ys, 0)\<rparr>" using res(2) by (simp add: flags_def)
  show ?thesis
    using res(1) enum_users.loop_owners [OF q1 loop assms(7)] enum_users.loop_distinct [OF q1 loop assms(7)]
      enum_users.loop_sources [OF q1 loop]
    by (intro exI [of _ "List.map_filter (\<lambda>u. u) ys"]) (auto simp: w' users_in_def)
qed

theorem setpwent_distinct_uids_witness:
  "\<exists>us. user_enum (snd (nss_setpwent (demo_nss True) demo_running)) = Some (us, 0) \<and> distinct (map u_uid us)"
proof -
  let ?N = "demo_nss True"
  have "case fst (list_users (env_http (pe_env ?N)) (ns_scim demo_state) demo_running) of
      Ok sus \<Rightarrow> map su_id sus = [''a'', ''b''] | _ \<Rightarrow> False" by code_simp
  then obtain sus w1 where list: "list_users (env_http (pe_env ?N)) (ns_scim demo_state) demo_running = (Ok sus, w1)"
    "map su_id sus = [''a'', ''b'']"
    by (cases "list_users (env_http (pe_env ?N)) (ns_scim demo_state) demo_running") (auto split: outcome.splits)
  have "\<exists>st w'. nss_setpwent ?N demo_running = (Ok st, w')" by (rule runs_Ok) code_simp
  then obtain st w' where run: "nss_setpwent ?N demo_running = (Ok st, w')" by blast
  have pre: "nw_state demo_running = Some (Some demo_state)" "\<not> service_poisoned demo_running"
    "\<not> user_enum_poisoned demo_running" "schema_ok (env_db (pe_env ?N)) (w_cache demo_running)"
    "\<forall>n. eng_fault (env_db (pe_env ?N)) n = None" "distinct (map su_id sus)"
    by (simp_all add: demo_process_def demo_nss_def demo_env_def quiet_engine_def empty_cache_def schema_defs list(2))
  from setpwent_distinct_uids [OF pre(1-5) list(1) pre(6) run] show ?thesis by (auto simp: run)
qed

text \<open>The loop of \<open>setpwent\<close> drops the result of \<open>store_user\<close>. When the database refuses to store the
  first of two users whose ids collide (a full disk, say), the enumeration succeeds and gives both
  users the same uid.\<close>

theorem setpwent_ignores_failed_store:
  "case user_enum (snd (nss_setpwent
       (demo_nss True\<lparr>pe_env := (demo_env True)\<lparr>env_db := quiet_engine\<lparr>eng_fault :=
          (\<lambda>n. if n = 2 then Some (EngineFailure 13) else None)\<rparr>\<rparr>\<rparr>) demo_running)) of
     Some ([ann, bob], _) \<Rightarrow> u_external_id ann \<noteq> u_external_id bob \<and> u_uid ann = u_uid bob
   | _ \<Rightarrow> False"
  by code_simp

section \<open>Supplementary groups\<close>

text \<open>The gids the array should have in the end: those before, then the new ones in order, without
  the primary gid and without duplicates.\<close>

fun wanted_gids :: "u32 \<Rightarrow> u32 list \<Rightarrow> u32 list \<Rightarrow> u32 list" where
  "wanted_gids primary [] have_g = have_g"
| "wanted_gids primary (g # gs) have_g =
     wanted_gids primary gs (if g = primary \<or> g \<in> set have_g then have_g else have_g @ [g])"

lemma wanted_gids_prefix: "\<exists>new. wanted_gids p gs xs = xs @ new"
proof (induction gs arbitrary: xs)
  case (Cons g gs)
  show ?case
    using Cons [of xs] Cons [of "xs @ [g]"] by auto
qed simp

lemma wanted_gids_set: "set (wanted_gids p gs xs) = set xs \<union> (set gs - {p})"
  by (induction gs arbitrary: xs) auto

lemma wanted_gids_distinct: "distinct xs \<Longrightarrow> distinct (wanted_gids p gs xs)"
  by (induction gs arbitrary: xs) auto

definition gids_in :: "gid_array \<Rightarrow> u32 list" where
  "gids_in a = take (ga_start a) (ga_buf a)"

definition array_ok :: "gid_array \<Rightarrow> bool" where
  "array_ok a \<longleftrightarrow> ga_start a \<le> ga_size a \<and> length (ga_buf a) = ga_size a"

lemma add_gids_result:
  assumes "add_gids p gids a = (b, a')" "array_ok a"
  shows "array_ok a' \<and> ga_size a' = ga_size a \<and>
    gids_in a' = take (ga_size a) (wanted_gids p gids (gids_in a)) \<and>
    (b \<longleftrightarrow> length (wanted_gids p gids (gids_in a)) \<le> ga_size a)"
  using assms
proof (induction gids arbitrary: a)
  case Nil
  then show ?case by (auto simp: gids_in_def array_ok_def)
next
  case (Cons g gids)
  show ?case
  proof (cases "g = p \<or> g \<in> set (gids_in a)")
    case True
    with Cons.prems(1) have "add_gids p gids a = (b, a')" by (simp add: gids_in_def split: if_splits)
    from Cons.IH [OF this Cons.prems(2)] True show ?thesis by auto
  next
    case new: False
    have start: "length (gids_in a) = ga_start a" using Cons.prems(2) by (simp add: gids_in_def array_ok_def)
    show ?thesis
    proof (cases "ga_size a \<le> ga_start a")
      case True
      with Cons.prems new have a': "b = False" "a' = a" "ga_start a = ga_size a"
        by (auto simp: gids_in_def array_ok_def)
      obtain more where "wanted_gids p gids (gids_in a @ [g]) = (gids_in a @ [g]) @ more"
        using wanted_gids_prefix by blast
      with a' new start Cons.prems(2) show ?thesis by simp
    next
      case False
      define a1 where "a1 = a\<lparr>ga_buf := (ga_buf a)[ga_start a := g], ga_start := ga_start a + 1\<rparr>"
      have step: "add_gids p gids a1 = (b, a')"
        using Cons.prems(1) new False by (simp add: gids_in_def a1_def)
      have a1: "array_ok a1" "ga_size a1 = ga_size a" "gids_in a1 = gids_in a @ [g]"
        using Cons.prems(2) False by (auto simp: array_ok_def a1_def gids_in_def take_Suc_conv_app_nth)
      from Cons.IH [OF step a1(1)] a1 new show ?thesis by simp
    qed
  qed
qed

text \<open>C28: \<open>initgroups_dyn\<close> reports success exactly when all gids of the user fit the caller's array; then
  the array has the old gids, followed by the user's in order, without the primary gid and without
  duplicates. It never enlarges the array: where they do not fit it fills it, and reports
  \<open>TRYAGAIN\<close> with \<open>ERANGE\<close>.\<close>

theorem initgroups_adds_gids:
  assumes "nss_initgroups_dyn N user primary a limit w = (Ok (st, a'), w')" "array_ok a"
    and "nw_state w = Some (Some ns)" "\<not> service_poisoned w" "utf8_valid user"
    and "lookup_groups_for_user (pe_env N) (ns_service ns) user w = (Ok gids, w1)"
  shows "ga_size a' = ga_size a \<and> length (ga_buf a') = length (ga_buf a) \<and>
    gids_in a' = take (ga_size a) (wanted_gids primary gids (gids_in a)) \<and>
    (if length (wanted_gids primary gids (gids_in a)) \<le> ga_size a
     then st = Success \<and> errno (nw_caller w') = 0
     else st = TryAgain \<and> errno (nw_caller w') = erange)"
proof -
  obtain b a1 where add: "add_gids primary gids a = (b, a1)" by (cases "add_gids primary gids a")
  have run: "(case (b, a1) of (True, a') \<Rightarrow> bindp (reply_status Success) (\<lambda>s. ret (s, a'))
      | (False, a') \<Rightarrow> (\<lambda>v. ret (TryAgain, a') (v\<lparr>nw_caller := (nw_caller v)\<lparr>errno := erange\<rparr>\<rparr>))) w1 =
      (Ok (st, a'), w')"
    using assms(1,4,5,6) add
    by (simp add: nss_initgroups_dyn_def Let_def to_str_def bind_state [OF assms(3)] matchp_run)
  then have "a' = a1 \<and> (if b then st = Success \<and> errno (nw_caller w') = 0
      else st = TryAgain \<and> errno (nw_caller w') = erange)"
    by (cases b) (auto simp: bindp_eq reply_status_eq ret_def)
  then show ?thesis
    using add_gids_result [OF add assms(2)] assms(2) by (auto simp: array_ok_def)
qed

theorem initgroups_adds_gids_witness:
  "\<exists>a' w'. nss_initgroups_dyn (demo_nss True) ''ann'' 100 \<lparr>ga_start = 1, ga_size = 2, ga_buf = [100, 0]\<rparr> 16 demo_running =
     (Ok (Success, a'), w') \<and> gids_in a' = [100, 2000]"
proof -
  let ?N = "demo_nss True" and ?a = "\<lparr>ga_start = 1, ga_size = 2, ga_buf = [100 :: u32, 0]\<rparr>"
  have "\<exists>r w'. nss_initgroups_dyn ?N ''ann'' 100 ?a 16 demo_running = (Ok r, w')"
    by (rule runs_Ok) code_simp
  then obtain st a' w' where run: "nss_initgroups_dyn ?N ''ann'' 100 ?a 16 demo_running = (Ok (st, a'), w')" by auto
  have "fst (lookup_groups_for_user (pe_env ?N) (ns_service demo_state) ''ann'' demo_running) = Ok [2000, 2000]"
    by code_simp
  then obtain w1 where look: "lookup_groups_for_user (pe_env ?N) (ns_service demo_state) ''ann'' demo_running =
      (Ok [2000, 2000], w1)"
    by (cases "lookup_groups_for_user (pe_env ?N) (ns_service demo_state) ''ann'' demo_running") auto
  have pre: "array_ok ?a" "nw_state demo_running = Some (Some demo_state)" "\<not> service_poisoned demo_running"
    by (simp_all add: array_ok_def demo_process_def)
  have utf: "utf8_valid ''ann''" by code_simp
  from initgroups_adds_gids [OF run pre utf look] have "st = Success \<and> gids_in a' = [100, 2000]"
    by (auto simp: gids_in_def)
  with run show ?thesis by blast
qed

end
