(* ===== verification/Answers.thy ===== *)
theory Answers
  imports Cache_Laws Service
begin

text \<open>
  Programs that keep a predicate of the state and answer, when they answer, a value of a given kind:
  a Hoare triple whose postcondition speaks of the result alone, with one rule for every way the
  model composes programs.
\<close>

named_theorems answering \<open>which values a program answers\<close>

definition answers :: "('s \<Rightarrow> bool) \<Rightarrow> ('s, 'a, 'e) prog \<Rightarrow> ('a \<Rightarrow> bool) \<Rightarrow> bool" where
  "answers P m Q \<longleftrightarrow> (\<forall>s r s'. P s \<longrightarrow> m s = (r, s') \<longrightarrow> P s' \<and> (\<forall>a. r = Ok a \<longrightarrow> Q a))"

lemma answersI:
  "(\<And>s r s'. P s \<Longrightarrow> m s = (r, s') \<Longrightarrow> P s' \<and> (\<forall>a. r = Ok a \<longrightarrow> Q a)) \<Longrightarrow> answers P m Q"
  by (simp add: answers_def)

lemma answersD:
  assumes "answers P m Q" "m s = (r, s')" "P s"
  shows "P s'" "r = Ok a \<Longrightarrow> Q a"
  using assms by (auto simp: answers_def)

lemma answers_keeps: "answers P m Q \<Longrightarrow> keeps P m"
  by (auto simp: answers_def keeps_def) (metis surj_pair snd_conv)

lemma keeps_answers: "keeps P m \<Longrightarrow> answers P m (\<lambda>_. True)"
  by (auto simp: answers_def dest: keepsD)

lemma keeps_answersI:
  "keeps P m \<Longrightarrow> (\<And>s a s'. P s \<Longrightarrow> m s = (Ok a, s') \<Longrightarrow> Q a) \<Longrightarrow> answers P m Q"
  by (auto simp: answers_def dest: keepsD)

lemma answers_weaken: "answers P m Q \<Longrightarrow> (\<And>a. Q a \<Longrightarrow> R a) \<Longrightarrow> answers P m R"
  by (auto simp: answers_def)

section \<open>Composed programs\<close>

lemma answers_ret [answering]: "Q a \<Longrightarrow> answers P (ret a) Q"
  by (simp add: answers_def ret_def)

lemma answers_fail [answering]: "answers P (fail e) Q"
  by (simp add: answers_def fail_def)

lemma answers_matchp:
  assumes "answers P m R" "\<And>a. R a \<Longrightarrow> answers P (ok a) Q" "\<And>e. answers P (err e) Q"
  shows "answers P (matchp m ok err) Q"
proof (rule answersI)
  fix s r s' assume P: "P s" and run: "matchp m ok err s = (r, s')"
  obtain q t where m: "m s = (q, t)" by (cases "m s")
  note D = answersD [OF assms(1) m P]
  show "P s' \<and> (\<forall>a. r = Ok a \<longrightarrow> Q a)"
  proof (cases q)
    case (Ok a)
    then have "ok a t = (r, s')" using run m by (simp add: matchp_def)
    with answersD [OF assms(2) this] D Ok show ?thesis by blast
  next
    case (Err e)
    then have "err e t = (r, s')" using run m by (simp add: matchp_def)
    with answersD [OF assms(3) this] D show ?thesis by blast
  next
    case Panic
    then show ?thesis using run m D by (simp add: matchp_def)
  qed
qed

lemma answers_bindp: "answers P m R \<Longrightarrow> (\<And>a. R a \<Longrightarrow> answers P (f a) Q) \<Longrightarrow> answers P (bindp m f) Q"
  unfolding bindp_def by (rule answers_matchp [OF _ _ answers_fail])

lemma answers_tryp: "answers P m R \<Longrightarrow> (\<And>a. R a \<Longrightarrow> answers P (f a) Q) \<Longrightarrow> answers P (tryp cv m f) Q"
  unfolding tryp_def by (rule answers_matchp [OF _ _ answers_fail])

lemma answers_collectp [answering]:
  assumes "\<And>x. x \<in> set xs \<Longrightarrow> answers P (f x) Q"
  shows "answers P (collectp f xs) (\<lambda>ys. \<forall>y \<in> set ys. Q y)"
  using assms
proof (induction xs)
  case (Cons x xs)
  have rest: "answers P (bindp (collectp f xs) (\<lambda>ys. ret (y # ys))) (\<lambda>ys. \<forall>y \<in> set ys. Q y)" if "Q y" for y
    by (rule answers_bindp [OF Cons.IH]) (use that Cons.prems in \<open>simp_all add: answers_ret\<close>)
  show ?case
    unfolding collectp.simps by (rule answers_bindp [OF Cons.prems rest]) simp_all
qed (simp add: answers_ret)

lemma answers_if [answering]:
  "(b \<Longrightarrow> answers P m Q) \<Longrightarrow> (\<not> b \<Longrightarrow> answers P n Q) \<Longrightarrow> answers P (if b then m else n) Q"
  by simp

lemma answers_option [answering]:
  "(x = None \<Longrightarrow> answers P m Q) \<Longrightarrow> (\<And>a. x = Some a \<Longrightarrow> answers P (f a) Q) \<Longrightarrow>
   answers P (case x of None \<Rightarrow> m | Some a \<Rightarrow> f a) Q"
  by (cases x) simp_all

lemma answers_zoomp:
  assumes "answers P m Q" "\<And>s. R s \<Longrightarrow> P (get s)" "\<And>s t. R s \<Longrightarrow> P t \<Longrightarrow> R (put t s)"
  shows "answers R (zoomp get put m) Q"
  using assms by (fastforce simp: answers_def zoomp_def split: prod.splits)

section \<open>Statements\<close>

lemma answers_select:
  assumes "\<And>c n. P c \<Longrightarrow> P (c\<lparr>statements_run := n\<rparr>)" "\<And>c n. P c \<Longrightarrow> Q (q n c)"
  shows "answers P (sql_select E q) Q"
  using assms by (auto simp: answers_def sql_select_def sql_statement_def Let_def split: option.splits)

lemma answers_select_fresh:
  assumes "\<And>c n. P c \<Longrightarrow> P (c\<lparr>statements_run := n\<rparr>)" "\<And>c n b. P c \<Longrightarrow> Q (q n b c)"
  shows "answers P (sql_select_fresh E q) Q"
  using assms
  by (auto simp: answers_def sql_select_fresh_def sql_statement_def Let_def u64_to_sql_def
      split: option.splits outcome.splits if_splits)

lemma answers_on_cache:
  assumes "answers P m Q" "\<And>w. R w \<Longrightarrow> P (w_cache w)" "\<And>w c. R w \<Longrightarrow> P c \<Longrightarrow> R (w\<lparr>w_cache := c\<rparr>)"
  shows "answers R (on_cache m) Q"
  unfolding on_cache_def by (rule answers_zoomp [where P = P]) (use assms in auto)

text \<open>An operation that only reads keeps whatever depends on the tables alone.\<close>

lemma reads_keep:
  assumes "\<And>c. keeps (same_tables c) m" "\<And>c d. same_tables c d \<Longrightarrow> P c \<Longrightarrow> P d"
  shows "keeps P m"
proof (rule keepsI)
  fix c assume "P c"
  moreover have "same_tables c (snd (m c))" using assms(1) [of c] by (simp add: keeps_def)
  ultimately show "P (snd (m c))" by (rule assms(2) [rotated])
qed

section \<open>Programs that do not panic\<close>

text \<open>The same for programs that do not panic where the predicate holds; the postcondition may speak of
  the state too.\<close>

definition serves :: "('s \<Rightarrow> bool) \<Rightarrow> ('s, 'a, 'e) prog \<Rightarrow> ('a \<Rightarrow> 's \<Rightarrow> bool) \<Rightarrow> bool" where
  "serves P m Q \<longleftrightarrow>
     (\<forall>s r s'. P s \<longrightarrow> m s = (r, s') \<longrightarrow> P s' \<and> r \<noteq> Panic \<and> (\<forall>a. r = Ok a \<longrightarrow> Q a s'))"

lemma servesI:
  "(\<And>s r s'. P s \<Longrightarrow> m s = (r, s') \<Longrightarrow> P s' \<and> r \<noteq> Panic \<and> (\<forall>a. r = Ok a \<longrightarrow> Q a s')) \<Longrightarrow> serves P m Q"
  by (simp add: serves_def)

lemma servesD:
  assumes "serves P m Q" "m s = (r, s')" "P s"
  shows "P s'" "r \<noteq> Panic" "r = Ok a \<Longrightarrow> Q a s'"
  using assms by (auto simp: serves_def)

lemma serves_answers: "answers P m Q \<Longrightarrow> no_panic m \<Longrightarrow> serves P m (\<lambda>a _. Q a)"
  by (auto simp: serves_def answers_def dest: no_panicD)

lemma serves_keeps: "keeps P m \<Longrightarrow> no_panic m \<Longrightarrow> serves P m (\<lambda>_ _. True)"
  by (rule serves_answers [OF keeps_answers])

lemma serves_ret: "(\<And>s. P s \<Longrightarrow> Q a s) \<Longrightarrow> serves P (ret a) Q"
  by (simp add: serves_def ret_def)

lemma serves_fail: "serves P (fail e) Q"
  by (simp add: serves_def fail_def)

lemma serves_matchp:
  assumes "serves P m (\<lambda>a _. R a)" "\<And>a. R a \<Longrightarrow> serves P (ok a) Q" "\<And>e. serves P (err e) Q"
  shows "serves P (matchp m ok err) Q"
proof (rule servesI)
  fix s r s' assume P: "P s" and run: "matchp m ok err s = (r, s')"
  obtain q t where m: "m s = (q, t)" by (cases "m s")
  note D = servesD [OF assms(1) m P]
  show "P s' \<and> r \<noteq> Panic \<and> (\<forall>a. r = Ok a \<longrightarrow> Q a s')"
  proof (cases q)
    case (Ok a)
    then have "ok a t = (r, s')" using run m by (simp add: matchp_def)
    with servesD [OF assms(2) this] D Ok show ?thesis by blast
  next
    case (Err e)
    then have "err e t = (r, s')" using run m by (simp add: matchp_def)
    with servesD [OF assms(3) this] D show ?thesis by blast
  qed (use D in simp)
qed

lemma serves_bindp:
  "serves P m (\<lambda>a _. R a) \<Longrightarrow> (\<And>a. R a \<Longrightarrow> serves P (f a) Q) \<Longrightarrow> serves P (bindp m f) Q"
  unfolding bindp_def by (rule serves_matchp [OF _ _ serves_fail])

lemma serves_if: "(b \<Longrightarrow> serves P m Q) \<Longrightarrow> (\<not> b \<Longrightarrow> serves P n Q) \<Longrightarrow> serves P (if b then m else n) Q"
  by simp

lemma serves_option:
  "(x = None \<Longrightarrow> serves P m Q) \<Longrightarrow> (\<And>a. x = Some a \<Longrightarrow> serves P (f a) Q) \<Longrightarrow>
   serves P (case x of None \<Rightarrow> m | Some a \<Rightarrow> f a) Q"
  by (cases x) simp_all

lemma serves_weaken: "serves P m Q \<Longrightarrow> (\<And>a s. Q a s \<Longrightarrow> R a s) \<Longrightarrow> serves P m R"
  by (auto simp: serves_def)

text \<open>A condition on the parameters, as a part of the predicate.\<close>

lemma serves_under: "(H \<Longrightarrow> serves P m Q) \<Longrightarrow> serves (\<lambda>s. H \<and> P s) m Q"
  by (auto simp: serves_def)

section \<open>Programs that always reply\<close>

definition replies :: "('s \<Rightarrow> bool) \<Rightarrow> ('s, 'a, 'e) prog \<Rightarrow> ('a \<Rightarrow> 's \<Rightarrow> bool) \<Rightarrow> bool" where
  "replies P m Q \<longleftrightarrow> (\<forall>s. P s \<longrightarrow> (\<exists>a s'. m s = (Ok a, s') \<and> P s' \<and> Q a s'))"

lemma repliesI: "(\<And>s. P s \<Longrightarrow> \<exists>a s'. m s = (Ok a, s') \<and> P s' \<and> Q a s') \<Longrightarrow> replies P m Q"
  by (simp add: replies_def)

lemma repliesE:
  assumes "replies P m Q" "P s"
  obtains a s' where "m s = (Ok a, s')" "P s'" "Q a s'"
  using assms by (auto simp: replies_def)

lemma replies_ret: "(\<And>s. P s \<Longrightarrow> Q a s) \<Longrightarrow> replies P (ret a) Q"
  by (simp add: replies_def ret_def)

lemma replies_weaken: "replies P m Q \<Longrightarrow> (\<And>a s. Q a s \<Longrightarrow> R a s) \<Longrightarrow> replies P m R"
  by (fastforce simp: replies_def)

lemma replies_matchp:
  assumes "serves P m (\<lambda>a _. R a)" "\<And>a. R a \<Longrightarrow> replies P (ok a) Q" "\<And>e. replies P (err e) Q"
  shows "replies P (matchp m ok err) Q"
proof (rule repliesI)
  fix s assume P: "P s"
  obtain q t where m: "m s = (q, t)" by (cases "m s")
  note D = servesD [OF assms(1) m P]
  show "\<exists>a s'. matchp m ok err s = (Ok a, s') \<and> P s' \<and> Q a s'"
    using D assms(2,3) m by (cases q) (auto simp: matchp_def replies_def)
qed

lemma replies_bindp:
  "replies P m (\<lambda>a _. R a) \<Longrightarrow> (\<And>a. R a \<Longrightarrow> replies P (f a) Q) \<Longrightarrow> replies P (bindp m f) Q"
  by (fastforce simp: replies_def bindp_def matchp_def)

lemma replies_collectp:
  assumes "\<And>x. replies P (f x) (\<lambda>y _. Q y)"
  shows "replies P (collectp f xs) (\<lambda>ys _. \<forall>y \<in> set ys. Q y)"
proof (induction xs)
  case (Cons x xs)
  have rest: "replies P (bindp (collectp f xs) (\<lambda>ys. ret (y # ys))) (\<lambda>ys _. \<forall>y \<in> set ys. Q y)" if "Q y" for y
    by (rule replies_bindp [OF Cons.IH]) (use that in \<open>simp add: replies_ret\<close>)
  show ?case
    unfolding collectp.simps by (rule replies_bindp [OF assms rest])
qed (simp add: replies_ret)

lemma replies_option:
  "(x = None \<Longrightarrow> replies P m Q) \<Longrightarrow> (\<And>a. x = Some a \<Longrightarrow> replies P (f a) Q) \<Longrightarrow>
   replies P (case x of None \<Rightarrow> m | Some a \<Rightarrow> f a) Q"
  by (cases x) simp_all

lemma replies_under: "(H \<Longrightarrow> replies P m Q) \<Longrightarrow> replies (\<lambda>s. H \<and> P s) m Q"
  by (auto simp: replies_def)

end
