(* ===== verification/Id_Ranges.thy ===== *)
theory Id_Ranges
  imports Answers Service_Laws
begin

text \<open>
  Which ids an account can get. The cache is filled with ids of the configured ranges only, and
  every answer of the service, from the directory or from the cache, has its ids there; a range
  that passes the end of the 32-bit ids wraps around, down to the ids of the system.
\<close>

section \<open>Ids within the configured ranges\<close>

abbreviation uid_ok :: "service \<Rightarrow> u32 \<Rightarrow> bool" where
  "uid_ok S \<equiv> in_range (uid_range_min (cfg_mapping (sv_config S))) (uid_range_size (cfg_mapping (sv_config S)))"

abbreviation gid_ok :: "service \<Rightarrow> u32 \<Rightarrow> bool" where
  "gid_ok S \<equiv> in_range (gid_range_min (cfg_mapping (sv_config S))) (gid_range_size (cfg_mapping (sv_config S)))"

definition user_ids_ok :: "service \<Rightarrow> user \<Rightarrow> bool" where
  "user_ids_ok S u \<longleftrightarrow> uid_ok S (u_uid u) \<and> gid_ok S (u_gid u)"

definition group_ids_ok :: "service \<Rightarrow> group \<Rightarrow> bool" where
  "group_ids_ok S g \<longleftrightarrow> gid_ok S (g_gid g)"

text \<open>The ranges end before the 32-bit ids do.\<close>

definition ranges_fit :: "service \<Rightarrow> bool" where
  "ranges_fit S \<longleftrightarrow>
     unat (uid_range_min (cfg_mapping (sv_config S))) + unat (uid_range_size (cfg_mapping (sv_config S))) \<le> 4294967296 \<and>
     unat (gid_range_min (cfg_mapping (sv_config S))) + unat (gid_range_size (cfg_mapping (sv_config S))) \<le> 4294967296"

definition rows_ok :: "service \<Rightarrow> cache \<Rightarrow> bool" where
  "rows_ok S c \<longleftrightarrow>
     (\<forall>r \<in> set (uid_cache c). user_ids_ok S (user_of_row r)) \<and> (\<forall>r \<in> set (gid_cache c). gid_ok S (gr_gid r))"

definition typed_cache :: "env \<Rightarrow> service \<Rightarrow> cache \<Rightarrow> bool" where
  "typed_cache V S c \<longleftrightarrow> schema_ok (env_db V) c \<and> rows_ok S c"

definition typed :: "env \<Rightarrow> service \<Rightarrow> 'z world_scheme \<Rightarrow> bool" where
  "typed V S w \<longleftrightarrow> typed_cache V S (w_cache w)"

lemma empty_typed: "typed_cache V S empty_cache"
  by (simp add: typed_cache_def rows_ok_def empty_cache_def schema_defs)

lemma rows_counter [simp]: "rows_ok S (c\<lparr>statements_run := n\<rparr>) = rows_ok S c"
  by (simp add: rows_ok_def)

lemma typed_counter: "typed_cache V S c \<Longrightarrow> typed_cache V S (c\<lparr>statements_run := n\<rparr>)"
  by (simp add: typed_cache_def)

lemma rows_same: "same_tables c d \<Longrightarrow> rows_ok S c \<Longrightarrow> rows_ok S d"
  by (simp add: same_tables_def rows_ok_def)

section \<open>The cache\<close>

lemma keeps_both: "keeps P m \<Longrightarrow> keeps Q m \<Longrightarrow> keeps (\<lambda>s. P s \<and> Q s) m"
  by (simp add: keeps_def)

lemma typed_keeps:
  assumes "keeps (schema_ok (env_db V)) m" "keeps (rows_ok S) m"
  shows "keeps (typed_cache V S) m"
  using assms by (simp add: keeps_def typed_cache_def)

lemma cache_reads_rows:
  "keeps (rows_ok S) (get_user_by_uid E uid)" "keeps (rows_ok S) (cached_user_by_name E n)"
  "keeps (rows_ok S) (group_of_row E r)" "keeps (rows_ok S) (get_group_by_gid E gid)"
  "keeps (rows_ok S) (cached_group_by_name E n)" "keeps (rows_ok S) (get_groups_for_member E n)"
  "keeps (rows_ok S) (resolve_uid E hash eid lo rs)" "keeps (rows_ok S) (resolve_gid E hash eid lo rs)"
  by (rule reads_keep; (intro preserved | rule rows_same); assumption?)+

lemma store_user_rows_ok:
  assumes "user_ids_ok S u"
  shows "keeps (rows_ok S) (store_user E u)"
  unfolding store_user_def
  by (intro preserved) (use assms in \<open>auto simp: rows_ok_def insert_uid_row_def\<close>)

lemma store_group_rows_ok:
  assumes "group_ids_ok S g"
  shows "keeps (rows_ok S) (store_group E g)"
  unfolding store_group_def
  by (intro preserved keeps_statement)
    (use assms in \<open>auto simp: rows_ok_def group_ids_ok_def insert_gid_row_def delete_gid_rows_def
       delete_members_of_def insert_member_row_def Let_def keeps_def\<close>)

lemma purge_rows_ok: "keeps (rows_ok S) (purge_expired E ttl)"
  unfolding purge_expired_def
  by (intro preserved)
    (auto simp: rows_ok_def delete_expired_members_def delete_expired_groups_def delete_gid_rows_def
       delete_expired_users_def)

lemma resolve_uid_typed [answering]:
  assumes "ranges_fit S"
  shows "answers (typed_cache V S) (resolve_uid (env_db V) hash eid (uid_range_min (cfg_mapping (sv_config S)))
    (uid_range_size (cfg_mapping (sv_config S)))) (uid_ok S)"
proof (rule keeps_answersI)
  show "keeps (typed_cache V S) (resolve_uid (env_db V) hash eid (uid_range_min (cfg_mapping (sv_config S)))
    (uid_range_size (cfg_mapping (sv_config S))))"
    by (rule typed_keeps) (intro preserved cache_reads_rows)+
qed (use uid_slots.resolve_id_Ok slot_in_range assms in
  \<open>unfold resolve_uid_def typed_cache_def ranges_fit_def, blast\<close>)

lemma resolve_gid_typed [answering]:
  assumes "ranges_fit S"
  shows "answers (typed_cache V S) (resolve_gid (env_db V) hash eid (gid_range_min (cfg_mapping (sv_config S)))
    (gid_range_size (cfg_mapping (sv_config S)))) (gid_ok S)"
proof (rule keeps_answersI)
  show "keeps (typed_cache V S) (resolve_gid (env_db V) hash eid (gid_range_min (cfg_mapping (sv_config S)))
    (gid_range_size (cfg_mapping (sv_config S))))"
    by (rule typed_keeps) (intro preserved cache_reads_rows)+
qed (use gid_slots.resolve_id_Ok slot_in_range assms in
  \<open>unfold resolve_gid_def typed_cache_def ranges_fit_def, blast\<close>)

text \<open>The rows a query delivers are rows of the table.\<close>

lemma first_user_typed:
  "\<forall>r \<in> set rows. user_ids_ok S (user_of_row r) \<Longrightarrow> pred_option (user_ids_ok S) (map_option user_of_row (first_row rows))"
  by (auto simp: first_row_def split: list.split)

lemma cached_users_typed [answering]:
  "answers (typed_cache V S) (get_user_by_uid (env_db V) uid) (pred_option (user_ids_ok S))"
  "answers (typed_cache V S) (cached_user_by_name (env_db V) n) (pred_option (user_ids_ok S))"
  unfolding get_user_by_uid_def cached_user_by_name_def
  by (rule answers_tryp [where R = "\<lambda>rows. \<forall>r \<in> set rows. user_ids_ok S (user_of_row r)"];
      (rule answers_select_fresh)?;
      auto simp: typed_cache_def rows_ok_def intro: answers_ret first_user_typed)+

lemma group_of_row_typed:
  assumes "gid_ok S (gr_gid r)"
  shows "answers (typed_cache V S) (group_of_row (env_db V) r) (group_ids_ok S)"
proof (rule keeps_answersI)
  show "keeps (typed_cache V S) (group_of_row (env_db V) r)"
    by (rule typed_keeps) (intro preserved cache_reads_rows)+
qed (use assms in \<open>auto simp: group_ids_ok_def dest: group_of_row_Ok\<close>)

lemma cached_groups_typed [answering]:
  "answers (typed_cache V S) (get_group_by_gid (env_db V) gid) (pred_option (group_ids_ok S))"
  "answers (typed_cache V S) (cached_group_by_name (env_db V) n) (pred_option (group_ids_ok S))"
  unfolding get_group_by_gid_def cached_group_by_name_def
  by (rule answers_tryp [where R = "\<lambda>rows. \<forall>r \<in> set rows. gid_ok S (gr_gid r)"];
      (rule answers_select_fresh)?;
      auto simp: typed_cache_def rows_ok_def first_row_def
        intro!: answers_ret answers_bindp [OF group_of_row_typed] split: list.splits)+

lemma groups_for_member_typed [answering]:
  "answers (typed_cache V S) (get_groups_for_member (env_db V) n) (\<lambda>gs. \<forall>g \<in> set gs. group_ids_ok S g)"
  unfolding get_groups_for_member_def
  by (rule answers_tryp [where R = "\<lambda>rows. \<forall>r \<in> set rows. gid_ok S (gr_gid r)"];
      (rule answers_select_fresh)?;
      auto simp: typed_cache_def rows_ok_def intro!: answers_collectp group_of_row_typed)

section \<open>The service\<close>

lemma on_cache_typed [answering]:
  "answers (typed_cache V S) m Q \<Longrightarrow> answers (typed V S) (on_cache m) Q"
  by (rule answers_on_cache) (auto simp: typed_def)

lemma on_cache_keeps_typed:
  "keeps (schema_ok (env_db V)) m \<Longrightarrow> keeps (rows_ok S) m \<Longrightarrow> answers (typed V S) (on_cache m) (\<lambda>_. True)"
  by (rule on_cache_typed [OF keeps_answers [OF typed_keeps]])

lemma requests_typed [answering]:
  "answers (typed V S) (scim_get_user_by_name H c n) (\<lambda>_. True)"
  "answers (typed V S) (scim_get_group_by_name H c n) (\<lambda>_. True)"
  "answers (typed V S) (is_online H c) (\<lambda>_. True)"
  unfolding scim_get_user_by_name_def scim_get_group_by_name_def is_online_def
  by (rule keeps_answers, intro preserved get_json_keeps, simp_all add: typed_def)+

lemma paginate_typed: "keeps (typed V S) (paginate_list H c dec r)"
proof -
  have "keeps (typed V S) (paginate_pages H c dec r pages i all)" for pages i all
    by (induction pages arbitrary: i all)
      (auto simp: Let_def intro!: preserved get_json_keeps, simp_all add: typed_def)
  then show ?thesis unfolding paginate_list_def by (intro preserved)
qed

lemma listings_typed [answering]:
  "answers (typed V S) (list_users H c) (\<lambda>_. True)" "answers (typed V S) (list_groups H c) (\<lambda>_. True)"
  unfolding list_users_def list_groups_def by (rule keeps_answers [OF paginate_typed])+

lemma user_model_typed [answering]:
  assumes "ranges_fit S"
  shows "answers (typed V S) (scim_user_to_model V S su) (user_ids_ok S)"
  unfolding scim_user_to_model_def Let_def
  by (rule answers_tryp [OF on_cache_typed [OF resolve_uid_typed [OF assms]]],
      rule answers_tryp [OF on_cache_typed [OF resolve_gid_typed [OF assms]]],
      rule answers_ret) (simp add: user_ids_ok_def)

lemma group_model_typed [answering]:
  assumes "ranges_fit S"
  shows "answers (typed V S) (scim_group_to_model V S sg) (group_ids_ok S)"
  unfolding scim_group_to_model_def Let_def
  by (rule answers_tryp [OF on_cache_typed [OF resolve_gid_typed [OF assms]]], rule answers_ret)
    (simp add: group_ids_ok_def)

lemma stores_typed:
  "user_ids_ok S u \<Longrightarrow> answers (typed V S) (on_cache (store_user (env_db V) u)) (\<lambda>_. True)"
  "group_ids_ok S g \<Longrightarrow> answers (typed V S) (on_cache (store_group (env_db V) g)) (\<lambda>_. True)"
  by (rule on_cache_keeps_typed; intro preserved store_user_rows_ok store_group_rows_ok; assumption)+

lemma imports_typed [answering]:
  assumes "ranges_fit S"
  shows "answers (typed V S) (import_user V S su) (user_ids_ok S)"
    "answers (typed V S) (import_group V S sg) (group_ids_ok S)"
  unfolding import_user_def import_group_def
  by (rule answers_bindp [OF user_model_typed [OF assms]], rule answers_tryp [OF stores_typed(1)], assumption,
      rule answers_ret, assumption)
    (rule answers_bindp [OF group_model_typed [OF assms]], rule answers_tryp [OF stores_typed(2)], assumption,
      rule answers_ret, assumption)

text \<open>The result of a cache operation handed on.\<close>

lemma handed_on:
  "answers (typed_cache V S) m Q \<Longrightarrow> answers (typed V S) (tryp SvcCache (on_cache m) ret) Q"
  by (erule answers_tryp [OF on_cache_typed]) (rule answers_ret)

lemma lookups_typed [answering]:
  assumes "ranges_fit S"
  shows "answers (typed V S) (lookup_user_by_name V S n) (pred_option (user_ids_ok S))"
    "answers (typed V S) (lookup_user_by_uid V S uid) (pred_option (user_ids_ok S))"
    "answers (typed V S) (lookup_group_by_name V S n) (pred_option (group_ids_ok S))"
    "answers (typed V S) (lookup_group_by_gid V S gid) (pred_option (group_ids_ok S))"
proof -
  have u: "answers (typed V S) (bindp (scim_user_to_model V S su) (\<lambda>u.
      tryp SvcCache (on_cache (store_user (env_db V) u)) (\<lambda>_. ret (Some u)))) (pred_option (user_ids_ok S))" for su
    by (rule answers_bindp [OF user_model_typed [OF assms]], rule answers_tryp [OF stores_typed(1)], assumption)
      (simp add: answers_ret)
  have g: "answers (typed V S) (bindp (scim_group_to_model V S sg) (\<lambda>g.
      tryp SvcCache (on_cache (store_group (env_db V) g)) (\<lambda>_. ret (Some g)))) (pred_option (group_ids_ok S))" for sg
    by (rule answers_bindp [OF group_model_typed [OF assms]], rule answers_tryp [OF stores_typed(2)], assumption)
      (simp add: answers_ret)
  show "answers (typed V S) (lookup_user_by_name V S n) (pred_option (user_ids_ok S))"
    unfolding lookup_user_by_name_def
    by (intro answering answers_matchp [OF requests_typed(1)] handed_on u) simp_all
  show "answers (typed V S) (lookup_group_by_name V S n) (pred_option (group_ids_ok S))"
    unfolding lookup_group_by_name_def
    by (intro answering answers_matchp [OF requests_typed(2)] handed_on g) simp_all
  show "answers (typed V S) (lookup_user_by_uid V S uid) (pred_option (user_ids_ok S))"
    unfolding lookup_user_by_uid_def
    by (rule answers_tryp [OF on_cache_typed [OF cached_users_typed(1)]])
      (auto intro: answers_ret split: option.splits)
  show "answers (typed V S) (lookup_group_by_gid V S gid) (pred_option (group_ids_ok S))"
    unfolding lookup_group_by_gid_def
    by (rule answers_tryp [OF on_cache_typed [OF cached_groups_typed(1)]])
      (auto intro: answers_ret split: option.splits)
qed

lemma lists_typed [answering]:
  assumes "ranges_fit S"
  shows "answers (typed V S) (list_all_users V S) (\<lambda>us. \<forall>u \<in> set us. user_ids_ok S u)"
    "answers (typed V S) (list_all_groups V S) (\<lambda>gs. \<forall>g \<in> set gs. group_ids_ok S g)"
  unfolding list_all_users_def list_all_groups_def
  by (rule answers_tryp [OF listings_typed(1)], intro answering assms)
    (rule answers_tryp [OF listings_typed(2)], intro answering assms)

lemma member_gids_typed [answering]:
  assumes "ranges_fit S"
  shows "answers (typed V S) (lookup_groups_for_user V S n) (\<lambda>gids. \<forall>gid \<in> set gids. gid_ok S gid)"
proof -
  have online: "answers (typed V S) (bindp (scim_user_to_model V S su) (\<lambda>u.
      tryp SvcCache (on_cache (store_user (env_db V) u)) (\<lambda>_.
        collectp (\<lambda>g. tryp SvcCache (on_cache (resolve_gid (env_db V) (env_hash V) (gref_value g)
          (gid_range_min (cfg_mapping (sv_config S))) (gid_range_size (cfg_mapping (sv_config S))))) ret)
          (su_groups su)))) (\<lambda>gids. \<forall>gid \<in> set gids. gid_ok S gid)" for su
    by (rule answers_bindp [OF user_model_typed [OF assms]], rule answers_tryp [OF stores_typed(1)], assumption,
        rule answers_collectp, rule handed_on [OF resolve_gid_typed [OF assms]])
  have offline: "answers (typed V S) (tryp SvcCache (on_cache (get_groups_for_member (env_db V) n)) (\<lambda>cached.
      ret (map g_gid cached))) (\<lambda>gids. \<forall>gid \<in> set gids. gid_ok S gid)"
    by (rule answers_tryp [OF on_cache_typed [OF groups_for_member_typed]])
      (simp add: answers_ret group_ids_ok_def)
  show ?thesis
    unfolding lookup_groups_for_user_def Let_def
    by (intro answering answers_matchp [OF requests_typed(1)] online offline) simp_all
qed

section \<open>Every operation of the service\<close>

lemma finish_typed: "answers (typed V S) m Q \<Longrightarrow> keeps (typed V S) (finish m)"
  unfolding finish_def by (intro preserved answers_keeps)

lemma keeps_case_policy: "keeps P m \<Longrightarrow> keeps P n \<Longrightarrow> answers P (case p of CachedStatus \<Rightarrow> m | Deny \<Rightarrow> n) (\<lambda>_. True)"
  by (cases p) (simp_all add: keeps_answers)

lemma check_active_typed:
  assumes "ranges_fit S"
  shows "answers (typed V S) (check_user_active V S n) (\<lambda>_. True)"
proof -
  have online: "answers (typed V S) (bindp (scim_user_to_model V S su) (\<lambda>u.
      tryp SvcCache (on_cache (store_user (env_db V) u)) (\<lambda>_. ret (u_active u)))) (\<lambda>_. True)" for su
    by (rule answers_bindp [OF user_model_typed [OF assms]], rule answers_tryp [OF stores_typed(1)], assumption)
      (simp add: answers_ret)
  have offline: "answers (typed V S) (tryp SvcCache (on_cache (cached_user_by_name (env_db V) n)) (\<lambda>cached.
      case cached of Some u \<Rightarrow> ret (u_active u) | None \<Rightarrow> ret False)) (\<lambda>_. True)"
    by (rule answers_tryp [OF on_cache_typed [OF cached_users_typed(2)]]) (intro answering TrueI)
  show ?thesis
    unfolding check_user_active_def
    by (intro answering answers_matchp [OF requests_typed(1)] online keeps_case_policy
        answers_keeps [OF offline] preserved TrueI)
qed

lemma service_prog_typed:
  assumes "ranges_fit S"
  shows "keeps (typed V S) (service_prog V S op)"
proof (cases op)
  case NewService
  have "answers (typed V S) (on_cache (purge_expired (env_db V) ttl)) (\<lambda>_. True)" for ttl
    by (rule on_cache_keeps_typed) (intro preserved purge_rows_ok)+
  then have "keeps (typed V S) (service_new V (sv_config S) (sv_scim S) :: (world, service, service_error) prog)"
    unfolding service_new_def by (intro preserved answers_keeps)
  then show ?thesis unfolding NewService service_prog.simps by (rule finish_typed [OF keeps_answers])
next
  case IsOnline
  show ?thesis
    unfolding IsOnline service_prog.simps service_is_online_def by (rule finish_typed [OF requests_typed(3)])
qed (simp_all only: service_prog.simps finish_typed [OF lookups_typed(1) [OF assms]]
    finish_typed [OF lookups_typed(2) [OF assms]] finish_typed [OF lookups_typed(3) [OF assms]]
    finish_typed [OF lookups_typed(4) [OF assms]] finish_typed [OF lists_typed(1) [OF assms]]
    finish_typed [OF lists_typed(2) [OF assms]] finish_typed [OF check_active_typed [OF assms]]
    finish_typed [OF member_gids_typed [OF assms]])

text \<open>The users and the group ids an operation answers.\<close>

definition answered :: "('a \<Rightarrow> 'b list) \<Rightarrow> ('a, 'e) outcome \<times> 's \<Rightarrow> 'b list" where
  "answered f p = (case fst p of Ok a \<Rightarrow> f a | _ \<Rightarrow> [])"

definition option_list :: "'a option \<Rightarrow> 'a list" where
  "option_list x = (case x of None \<Rightarrow> [] | Some a \<Rightarrow> [a])"

fun users_answered :: "env \<Rightarrow> service \<Rightarrow> service_op \<Rightarrow> world \<Rightarrow> user list" where
  "users_answered V S (LookupUserByName n) w = answered option_list (lookup_user_by_name V S n w)"
| "users_answered V S (LookupUserByUid u) w = answered option_list (lookup_user_by_uid V S u w)"
| "users_answered V S ListAllUsers w = answered (\<lambda>us. us) (list_all_users V S w)"
| "users_answered V S op w = []"

fun gids_answered :: "env \<Rightarrow> service \<Rightarrow> service_op \<Rightarrow> world \<Rightarrow> u32 list" where
  "gids_answered V S (LookupGroupByName n) w = answered (map g_gid \<circ> option_list) (lookup_group_by_name V S n w)"
| "gids_answered V S (LookupGroupByGid g) w = answered (map g_gid \<circ> option_list) (lookup_group_by_gid V S g w)"
| "gids_answered V S ListAllGroups w = answered (map g_gid) (list_all_groups V S w)"
| "gids_answered V S (LookupGroupsForUser n) w = answered (\<lambda>gids. gids) (lookup_groups_for_user V S n w)"
| "gids_answered V S op w = []"

lemma answered_typed:
  assumes "answers (typed V S) m Q" "typed V S w" "\<And>a. Q a \<Longrightarrow> list_all R (f a)"
  shows "list_all R (answered f (m w))"
  using assms answersD(2) [OF assms(1) _ assms(2)]
  by (cases "m w") (auto simp: answered_def split: outcome.split)

text \<open>C3: with ranges that end before the 32-bit ids do, no account ever gets an id outside of them: from a
  cache with ids of the ranges (the empty one, for instance) every sequence of service operations
  leaves such a cache, and whatever user or group id the next operation answers, online or offline,
  is in the ranges.\<close>

theorem service_ids_in_range:
  assumes "ranges_fit S" "typed_cache V S (w_cache w0)" "w = run_service V S ops w0"
  shows "typed_cache V S (w_cache w) \<and>
    list_all (user_ids_ok S) (users_answered V S op w) \<and> list_all (gid_ok S) (gids_answered V S op w)"
proof -
  have "typed V S (run_service V S ops v)" if "typed V S v" for v
    using that service_prog_typed [OF assms(1), of V]
    by (induction ops arbitrary: v) (simp_all add: run_service_def keeps_def)
  then have w: "typed V S w" using assms(2,3) by (simp add: typed_def)
  have user: "list_all (user_ids_ok S) (option_list x)" if "pred_option (user_ids_ok S) x" for x
    using that by (cases x) (simp_all add: option_list_def)
  have grp: "list_all (gid_ok S) ((map g_gid \<circ> option_list) x)" if "pred_option (group_ids_ok S) x" for x
    using that by (cases x) (simp_all add: option_list_def group_ids_ok_def)
  have grps: "list_all (gid_ok S) (map g_gid gs)" if "\<forall>g \<in> set gs. group_ids_ok S g" for gs
    using that by (simp add: list_all_iff group_ids_ok_def)
  have "list_all (user_ids_ok S) (users_answered V S op w)"
    by (cases op)
      (simp_all add: answered_typed [OF lookups_typed(1) [OF assms(1)] w user]
        answered_typed [OF lookups_typed(2) [OF assms(1)] w user]
        answered_typed [OF lists_typed(1) [OF assms(1)] w] list_all_iff [THEN iffD2])
  moreover have "list_all (gid_ok S) (gids_answered V S op w)"
    by (cases op)
      (simp_all add: answered_typed [OF lookups_typed(3) [OF assms(1)] w grp]
        answered_typed [OF lookups_typed(4) [OF assms(1)] w grp]
        answered_typed [OF lists_typed(2) [OF assms(1)] w grps]
        answered_typed [OF member_gids_typed [OF assms(1)] w] list_all_iff [THEN iffD2])
  ultimately show ?thesis using w by (simp add: typed_def)
qed

theorem service_ids_in_range_witness:
  "list_all (\<lambda>u. 1000 \<le> u_uid u) (users_answered (demo_env True) (demo_service Deny) ListAllUsers demo_world)"
proof -
  let ?S = "demo_service Deny"
  have fit: "ranges_fit ?S" by (simp add: ranges_fit_def demo_service_def demo_config_def)
  have "typed_cache (demo_env True) ?S (w_cache demo_world)" by (simp add: demo_world_def empty_typed)
  from service_ids_in_range [OF fit this, of demo_world "[]" ListAllUsers]
  have "list_all (user_ids_ok ?S) (users_answered (demo_env True) ?S ListAllUsers demo_world)"
    by (simp add: run_service_def)
  then show ?thesis
    by (auto simp: list_all_iff user_ids_ok_def in_range_def demo_service_def demo_config_def word_le_nat_alt)
qed

section \<open>A range that does not fit\<close>

text \<open>Nothing checks the configured range: one that passes the end of the 32-bit ids wraps around, and
  with it a directory account can get the uid 0.\<close>

lemma wrapped_range_gives_root:
  "resolve_uid quiet_engine (\<lambda>_. 5) ''a'' 4294967291 10 empty_cache =
     (Ok 0, empty_cache\<lparr>statements_run := 1\<rparr>)"
  by (simp add: resolve_uid_def resolve_id_def id_to_uid_def probe.simps candidate_def uid_owner_def
      tryp_def matchp_def sql_select_def sql_statement_def quiet_engine_def empty_cache_def first_row_def ret_def)

end
