(* ===== verification/Nss_Calls.thy ===== *)
theory Nss_Calls
  imports Nss_Enum Id_Ranges
begin

text \<open>
  The NSS module as glibc drives it: any sequence of calls of its eleven entry points. What every
  call keeps and shows is proved once, over an interface of the service and of the process, and the
  interface has two models: the safety of the module (its memory, its requests, its tables, no
  panic) and the ranges of the ids it shows.
\<close>

section \<open>Calls\<close>

datatype nss_call =
    Getpwnam string nat nat
  | Getpwuid u32 nat nat
  | Getgrnam string nat nat
  | Getgrgid u32 nat nat
  | InitgroupsDyn string u32 gid_array int
  | Setpwent
  | Getpwent nat nat
  | Endpwent
  | Setgrent
  | Getgrent nat nat
  | Endgrent

definition plain_reply :: "nss_status nss \<Rightarrow> (nss_status \<times> gid_array option) nss" where
  "plain_reply m = bindp m (\<lambda>st. ret (st, None))"

fun nss_call_prog :: "proc_env \<Rightarrow> nss_call \<Rightarrow> (nss_status \<times> gid_array option) nss" where
  "nss_call_prog N (Getpwnam name buf len) = plain_reply (nss_getpwnam_r N name buf len)"
| "nss_call_prog N (Getpwuid uid buf len) = plain_reply (nss_getpwuid_r N uid buf len)"
| "nss_call_prog N (Getgrnam name buf len) = plain_reply (nss_getgrnam_r N name buf len)"
| "nss_call_prog N (Getgrgid gid buf len) = plain_reply (nss_getgrgid_r N gid buf len)"
| "nss_call_prog N (InitgroupsDyn user primary a limit) =
     bindp (nss_initgroups_dyn N user primary a limit) (\<lambda>(st, a'). ret (st, Some a'))"
| "nss_call_prog N Setpwent = plain_reply (nss_setpwent N)"
| "nss_call_prog N (Getpwent buf len) = plain_reply (nss_getpwent_r buf len)"
| "nss_call_prog N Endpwent = plain_reply nss_endpwent"
| "nss_call_prog N Setgrent = plain_reply (nss_setgrent N)"
| "nss_call_prog N (Getgrent buf len) = plain_reply (nss_getgrent_r buf len)"
| "nss_call_prog N Endgrent = plain_reply nss_endgrent"

text \<open>A process makes calls, one after the other, until one panics; the replies with the states after
  them.\<close>

fun run_nss :: "proc_env \<Rightarrow> nss_call list \<Rightarrow> nss_world \<Rightarrow>
    ((nss_status \<times> gid_array option) \<times> nss_world) list" where
  "run_nss N [] w = []"
| "run_nss N (c # cs) w =
     (case nss_call_prog N c w of
        (Ok reply, w') \<Rightarrow> (reply, w') # run_nss N cs w'
      | _ \<Rightarrow> [])"

text \<open>The buffer a call hands over.\<close>

fun call_buffer :: "nss_call \<Rightarrow> (nat \<times> nat) option" where
  "call_buffer (Getpwnam _ buf len) = Some (buf, len)"
| "call_buffer (Getpwuid _ buf len) = Some (buf, len)"
| "call_buffer (Getgrnam _ buf len) = Some (buf, len)"
| "call_buffer (Getgrgid _ buf len) = Some (buf, len)"
| "call_buffer (Getpwent buf len) = Some (buf, len)"
| "call_buffer (Getgrent buf len) = Some (buf, len)"
| "call_buffer _ = None"

section \<open>What the entry points rest on\<close>

locale nss_service =
  fixes N :: proc_env
    and ns :: nss_state
    and inv :: "nss_world \<Rightarrow> bool"
    and good_user :: "user \<Rightarrow> bool"
    and good_group :: "group \<Rightarrow> bool"
    and good_gid :: "u32 \<Rightarrow> bool"
    and good_buf :: "nat \<Rightarrow> nat \<Rightarrow> bool"
  assumes known: "inv w \<Longrightarrow> nw_state w = Some (Some ns)"
    and by_name: "serves inv (lookup_user_by_name (pe_env N) (ns_service ns) n) (\<lambda>x _. pred_option good_user x)"
    and by_uid: "serves inv (lookup_user_by_uid (pe_env N) (ns_service ns) u) (\<lambda>x _. pred_option good_user x)"
    and group_name: "serves inv (lookup_group_by_name (pe_env N) (ns_service ns) n) (\<lambda>x _. pred_option good_group x)"
    and group_gid: "serves inv (lookup_group_by_gid (pe_env N) (ns_service ns) u) (\<lambda>x _. pred_option good_group x)"
    and member_gids: "serves inv (lookup_groups_for_user (pe_env N) (ns_service ns) n) (\<lambda>gs _. \<forall>g \<in> set gs. good_gid g)"
    and listing: "serves inv (list_users (env_http (pe_env N)) (ns_scim ns)) (\<lambda>_ _. True)"
    and group_listing: "serves inv (list_groups (env_http (pe_env N)) (ns_scim ns)) (\<lambda>_ _. True)"
    and entry: "replies inv (enum_user (pe_env N) (ns_service ns) su) (\<lambda>x _. pred_option good_user x)"
    and group_entry: "replies inv (enum_group (pe_env N) (ns_service ns) sg) (\<lambda>x _. pred_option good_group x)"
    and set_errno: "inv w \<Longrightarrow> inv (w\<lparr>nw_caller := (nw_caller w)\<lparr>errno := e\<rparr>\<rparr>)"
    and fill_user: "inv w \<Longrightarrow> good_user v \<Longrightarrow> good_buf buf len \<Longrightarrow>
      inv (w\<lparr>nw_caller := snd (fill_passwd_buf v buf len (nw_caller w))\<rparr>)"
    and fill_group: "inv w \<Longrightarrow> good_group g \<Longrightarrow> good_buf buf len \<Longrightarrow>
      inv (w\<lparr>nw_caller := snd (fill_group_buf g buf len (nw_caller w))\<rparr>)"
    and enum_good: "inv w \<Longrightarrow> user_enum w = Some (us, i) \<Longrightarrow> \<forall>v \<in> set us. good_user v"
    and group_enum_good: "inv w \<Longrightarrow> group_enum w = Some (gs, i) \<Longrightarrow> \<forall>g \<in> set gs. good_group g"
    and set_enum: "inv w \<Longrightarrow> (\<forall>v \<in> set us. good_user v) \<Longrightarrow> inv (w\<lparr>user_enum := Some (us, i)\<rparr>)"
    and set_group_enum: "inv w \<Longrightarrow> (\<forall>g \<in> set gs. good_group g) \<Longrightarrow> inv (w\<lparr>group_enum := Some (gs, i)\<rparr>)"
    and end_enum: "inv w \<Longrightarrow> inv (w\<lparr>user_enum := None\<rparr>)"
    and end_group_enum: "inv w \<Longrightarrow> inv (w\<lparr>group_enum := None\<rparr>)"
begin

text \<open>What the caller may see after a call that reports success.\<close>

definition shows_good_user :: "nss_status \<Rightarrow> nss_world \<Rightarrow> bool" where
  "shows_good_user st w \<longleftrightarrow> (st = Success \<longrightarrow>
     (\<exists>v. good_user v \<and> pw_uid (out_passwd (nw_caller w)) = u_uid v \<and> pw_gid (out_passwd (nw_caller w)) = u_gid v))"

definition shows_good_group :: "nss_status \<Rightarrow> nss_world \<Rightarrow> bool" where
  "shows_good_group st w \<longleftrightarrow> (st = Success \<longrightarrow>
     (\<exists>g. good_group g \<and> cgr_gid (out_group (nw_caller w)) = g_gid g))"

lemma replies_reply: "(\<And>w. Q st w) \<Longrightarrow> replies inv (reply_status st) Q"
  by (simp add: replies_def reply_status_eq set_errno)

lemma not_success_shows [simp]:
  "st \<noteq> Success \<Longrightarrow> shows_good_user st w" "st \<noteq> Success \<Longrightarrow> shows_good_group st w"
  by (simp_all add: shows_good_user_def shows_good_group_def)

lemma replies_fill_user:
  "good_user v \<Longrightarrow> good_buf buf len \<Longrightarrow> replies inv (on_caller (fill_passwd_buf v buf len)) shows_good_user"
  using fill_passwd_ids by (auto simp: replies_def on_caller_eq shows_good_user_def intro: fill_user)

lemma replies_fill_group:
  "good_group g \<Longrightarrow> good_buf buf len \<Longrightarrow> replies inv (on_caller (fill_group_buf g buf len)) shows_good_group"
  using fill_group_id by (auto simp: replies_def on_caller_eq shows_good_group_def intro: fill_group)

lemma replies_state: "replies inv (f (Some ns)) Q \<Longrightarrow> replies inv (bindp (get_state N) f) Q"
  by (simp add: replies_def bind_state known)

lemma replies_unless_poisoned:
  "replies inv m Q \<Longrightarrow> replies inv n Q \<Longrightarrow> replies inv (\<lambda>w. if service_poisoned w then m w else n w) Q"
  by (auto simp: replies_def)

lemma replies_with_service:
  "replies inv (body (ns_service ns)) Q \<Longrightarrow> (\<And>w. Q Unavail w) \<Longrightarrow> replies inv (with_service N body) Q"
  unfolding with_service_def
  by (rule replies_state) (simp add: replies_unless_poisoned replies_reply)

lemma replies_found:
  assumes "serves inv m (\<lambda>x _. pred_option good x)" "\<And>v. good v \<Longrightarrow> replies inv (f v) Q"
    "\<And>w. Q NotFound w" "\<And>w. Q Unavail w"
  shows "replies inv (matchp m (\<lambda>x. case x of Some v \<Rightarrow> f v | None \<Rightarrow> reply_status NotFound)
    (\<lambda>_. reply_status Unavail)) Q"
  by (rule replies_matchp [OF assms(1)]) (auto intro: replies_reply assms(2-4) split: option.split)

text \<open>The lookups.\<close>

lemma replies_passwd:
  assumes "good_buf buf len"
  shows "replies inv (nss_getpwnam_r N name buf len) shows_good_user"
    "replies inv (nss_getpwuid_r N u buf len) shows_good_user"
  unfolding nss_getpwnam_r_def passwd_by_name_def nss_getpwuid_r_def passwd_by_uid_def
  by (intro replies_option replies_reply replies_with_service replies_found [OF by_name] replies_found [OF by_uid]
      replies_fill_user assms; simp)+

lemma replies_group:
  assumes "good_buf buf len"
  shows "replies inv (nss_getgrnam_r N name buf len) shows_good_group"
    "replies inv (nss_getgrgid_r N u buf len) shows_good_group"
  unfolding nss_getgrnam_r_def group_by_name_def nss_getgrgid_r_def group_by_gid_def
  by (intro replies_option replies_reply replies_with_service replies_found [OF group_name] replies_found [OF group_gid]
      replies_fill_group assms; simp)+

text \<open>The enumerations.\<close>

lemma good_entries: "\<forall>x \<in> set xs. pred_option good x \<Longrightarrow> \<forall>v \<in> set (List.map_filter (\<lambda>x. x) xs). good v"
  by (fastforce simp: map_filter_def)

lemma replies_setpwent: "replies inv (nss_setpwent N) (\<lambda>_ _. True)"
proof -
  have stored: "replies inv (\<lambda>v. ret Success (if user_enum_poisoned v then v
      else v\<lparr>user_enum := Some (List.map_filter (\<lambda>u. u) xs, 0)\<rparr>)) (\<lambda>_ _. True)"
    if "\<forall>x \<in> set xs. pred_option good_user x" for xs
    using set_enum good_entries [OF that] by (simp add: replies_def ret_def)
  have loop: "replies inv (bindp (collectp (enum_user (pe_env N) (ns_service ns)) sus) (\<lambda>users v.
      ret Success (if user_enum_poisoned v then v
        else v\<lparr>user_enum := Some (List.map_filter (\<lambda>u. u) users, 0)\<rparr>))) (\<lambda>_ _. True)" for sus
    by (rule replies_bindp [OF replies_collectp [OF entry] stored])
  show ?thesis
    unfolding nss_setpwent_def
    by (rule replies_state, simp, rule replies_matchp [OF listing])
      (intro replies_unless_poisoned [OF _ loop] replies_ret TrueI)+
qed

lemma replies_setgrent: "replies inv (nss_setgrent N) (\<lambda>_ _. True)"
proof -
  have stored: "replies inv (\<lambda>v. ret Success (if group_enum_poisoned v then v
      else v\<lparr>group_enum := Some (List.map_filter (\<lambda>g. g) xs, 0)\<rparr>)) (\<lambda>_ _. True)"
    if "\<forall>x \<in> set xs. pred_option good_group x" for xs
    using set_group_enum good_entries [OF that] by (simp add: replies_def ret_def)
  have loop: "replies inv (bindp (collectp (enum_group (pe_env N) (ns_service ns)) sgs) (\<lambda>groups v.
      ret Success (if group_enum_poisoned v then v
        else v\<lparr>group_enum := Some (List.map_filter (\<lambda>g. g) groups, 0)\<rparr>))) (\<lambda>_ _. True)" for sgs
    by (rule replies_bindp [OF replies_collectp [OF group_entry] stored])
  show ?thesis
    unfolding nss_setgrent_def
    by (rule replies_state, simp, rule replies_matchp [OF group_listing])
      (intro replies_unless_poisoned [OF _ loop] replies_ret TrueI)+
qed

lemma replies_getpwent:
  assumes "good_buf buf len"
  shows "replies inv (nss_getpwent_r buf len) shows_good_user"
proof (rule repliesI)
  fix w assume w: "inv w"
  show "\<exists>st w'. nss_getpwent_r buf len w = (Ok st, w') \<and> inv w' \<and> shows_good_user st w'"
  proof (cases "\<exists>us i. \<not> user_enum_poisoned w \<and> user_enum w = Some (us, i) \<and> i < length us")
    case True
    then obtain us i where e: "\<not> user_enum_poisoned w" "user_enum w = Some (us, i)" "i < length us" by blast
    then have good: "\<forall>v \<in> set us. good_user v" using enum_good w by blast
    then have "good_user (us ! i)" using e by simp
    from replies_fill_user [OF this assms] w obtain st v where
      fill: "on_caller (fill_passwd_buf (us ! i) buf len) w = (Ok st, v)" "inv v" "shows_good_user st v"
      by (rule repliesE)
    have "inv (v\<lparr>user_enum := Some (us, i + 1)\<rparr>)" by (rule set_enum [OF fill(2) good])
    then show ?thesis
      using e fill(2,3) by (simp add: nss_getpwent_r_def bindp_def matchp_def fill(1) ret_def shows_good_user_def)
  next
    case False
    then have "nss_getpwent_r buf len w = reply_status Unavail w \<or> nss_getpwent_r buf len w = reply_status NotFound w"
      by (auto simp: nss_getpwent_r_def split: option.split)
    then obtain st where "nss_getpwent_r buf len w = reply_status st w" "st \<noteq> Success" by auto
    then show ?thesis using set_errno [OF w] by (simp add: reply_status_def ret_def)
  qed
qed

lemma replies_getgrent:
  assumes "good_buf buf len"
  shows "replies inv (nss_getgrent_r buf len) shows_good_group"
proof (rule repliesI)
  fix w assume w: "inv w"
  show "\<exists>st w'. nss_getgrent_r buf len w = (Ok st, w') \<and> inv w' \<and> shows_good_group st w'"
  proof (cases "\<exists>gs i. \<not> group_enum_poisoned w \<and> group_enum w = Some (gs, i) \<and> i < length gs")
    case True
    then obtain gs i where e: "\<not> group_enum_poisoned w" "group_enum w = Some (gs, i)" "i < length gs" by blast
    then have good: "\<forall>v \<in> set gs. good_group v" using group_enum_good w by blast
    then have "good_group (gs ! i)" using e by simp
    from replies_fill_group [OF this assms] w obtain st v where
      fill: "on_caller (fill_group_buf (gs ! i) buf len) w = (Ok st, v)" "inv v" "shows_good_group st v"
      by (rule repliesE)
    have "inv (v\<lparr>group_enum := Some (gs, i + 1)\<rparr>)" by (rule set_group_enum [OF fill(2) good])
    then show ?thesis
      using e fill(2,3) by (simp add: nss_getgrent_r_def bindp_def matchp_def fill(1) ret_def shows_good_group_def)
  next
    case False
    then have "nss_getgrent_r buf len w = reply_status Unavail w \<or> nss_getgrent_r buf len w = reply_status NotFound w"
      by (auto simp: nss_getgrent_r_def split: option.split)
    then obtain st where "nss_getgrent_r buf len w = reply_status st w" "st \<noteq> Success" by auto
    then show ?thesis using set_errno [OF w] by (simp add: reply_status_def ret_def)
  qed
qed

lemma replies_endent: "replies inv nss_endpwent (\<lambda>_ _. True)" "replies inv nss_endgrent (\<lambda>_ _. True)"
  by (auto simp: replies_def nss_endpwent_def nss_endgrent_def ret_def end_enum end_group_enum)

text \<open>The supplementary groups.\<close>

lemma add_gids_subset: "add_gids p gids a = (b, a') \<Longrightarrow> set (gids_in a') \<subseteq> set (gids_in a) \<union> set gids"
proof (induction gids arbitrary: a)
  case (Cons g gids)
  have put: "set (gids_in (a\<lparr>ga_buf := (ga_buf a)[ga_start a := g], ga_start := ga_start a + 1\<rparr>))
      \<subseteq> insert g (set (gids_in a))"
    by (cases "ga_start a < length (ga_buf a)") (auto simp: gids_in_def take_Suc_conv_app_nth list_update_beyond)
  from Cons.prems show ?case
    using Cons.IH put by (auto split: if_splits)
qed simp

definition gids_good :: "gid_array \<Rightarrow> nss_status \<times> gid_array \<Rightarrow> nss_world \<Rightarrow> bool" where
  "gids_good a r w \<longleftrightarrow> (\<forall>g \<in> set (gids_in (snd r)). g \<in> set (gids_in a) \<or> good_gid g)"

lemma replies_same_gids: "replies inv (bindp (reply_status st) (\<lambda>s. ret (s, a))) (gids_good a)"
  by (rule replies_bindp [OF replies_reply [OF TrueI]]) (simp add: replies_ret gids_good_def)

lemma replies_gids:
  "replies inv (matchp (lookup_groups_for_user (pe_env N) (ns_service ns) user_str)
      (\<lambda>gids. case add_gids primary gids a of
          (True, a') \<Rightarrow> bindp (reply_status Success) (\<lambda>s. ret (s, a'))
        | (False, a') \<Rightarrow> (\<lambda>v. ret (TryAgain, a') (v\<lparr>nw_caller := (nw_caller v)\<lparr>errno := erange\<rparr>\<rparr>)))
      (\<lambda>_. bindp (reply_status Unavail) (\<lambda>s. ret (s, a)))) (gids_good a)"
proof (rule replies_matchp [OF member_gids _ replies_same_gids])
  fix gids assume good: "\<forall>g \<in> set gids. good_gid g"
  obtain b a' where add: "add_gids primary gids a = (b, a')" by (cases "add_gids primary gids a")
  have sub: "gids_good a (st, a') w" for st w
    using add_gids_subset [OF add] good by (auto simp: gids_good_def)
  have "replies inv (bindp (reply_status Success) (\<lambda>s. ret (s, a'))) (gids_good a)"
    by (rule replies_bindp [OF replies_reply [OF TrueI]]) (use sub in \<open>simp add: replies_ret\<close>)
  then show "replies inv (case add_gids primary gids a of
          (True, a') \<Rightarrow> bindp (reply_status Success) (\<lambda>s. ret (s, a'))
        | (False, a') \<Rightarrow> (\<lambda>v. ret (TryAgain, a') (v\<lparr>nw_caller := (nw_caller v)\<lparr>errno := erange\<rparr>\<rparr>))) (gids_good a)"
    using sub set_errno by (cases b) (simp_all add: add replies_def ret_def)
qed

lemma replies_initgroups: "replies inv (nss_initgroups_dyn N user primary a limit) (gids_good a)"
proof -
  have online: "replies inv (bindp (get_state N) (\<lambda>st. case st of
      None \<Rightarrow> bindp (reply_status Unavail) (\<lambda>s. ret (s, a))
    | Some ns \<Rightarrow> (\<lambda>w.
        if service_poisoned w then bindp (reply_status Unavail) (\<lambda>s. ret (s, a)) w
        else matchp (lookup_groups_for_user (pe_env N) (ns_service ns) user_str)
          (\<lambda>gids. case add_gids primary gids a of
             (True, a') \<Rightarrow> bindp (reply_status Success) (\<lambda>s. ret (s, a'))
           | (False, a') \<Rightarrow> (\<lambda>v. ret (TryAgain, a') (v\<lparr>nw_caller := (nw_caller v)\<lparr>errno := erange\<rparr>\<rparr>)))
          (\<lambda>_. bindp (reply_status Unavail) (\<lambda>s. ret (s, a))) w))) (gids_good a)" for user_str
    by (rule replies_state) (simp only: option.case, rule replies_unless_poisoned [OF replies_same_gids replies_gids])
  show ?thesis
    unfolding nss_initgroups_dyn_def Let_def by (rule replies_option [OF replies_same_gids online])
qed

text \<open>Every call.\<close>

fun shows_good :: "nss_call \<Rightarrow> nss_status \<times> gid_array option \<Rightarrow> nss_world \<Rightarrow> bool" where
  "shows_good (Getpwnam _ _ _) (st, _) w = shows_good_user st w"
| "shows_good (Getpwuid _ _ _) (st, _) w = shows_good_user st w"
| "shows_good (Getpwent _ _) (st, _) w = shows_good_user st w"
| "shows_good (Getgrnam _ _ _) (st, _) w = shows_good_group st w"
| "shows_good (Getgrgid _ _ _) (st, _) w = shows_good_group st w"
| "shows_good (Getgrent _ _) (st, _) w = shows_good_group st w"
| "shows_good (InitgroupsDyn _ _ a _) (_, Some a') w =
     (\<forall>g \<in> set (gids_in a'). g \<in> set (gids_in a) \<or> good_gid g)"
| "shows_good _ _ _ = True"

lemma replies_plain:
  assumes "replies inv m R" "\<And>st w. R st w \<Longrightarrow> Q (st, None) w"
  shows "replies inv (plain_reply m) Q"
  using assms by (fastforce simp: replies_def plain_reply_def bindp_def matchp_def ret_def)

lemma call_replies:
  assumes "pred_option (\<lambda>(buf, len). good_buf buf len) (call_buffer c)"
  shows "replies inv (nss_call_prog N c) (shows_good c)"
proof (cases c)
  case (InitgroupsDyn user primary a limit)
  show ?thesis
    unfolding InitgroupsDyn nss_call_prog.simps
    by (rule replies_bindp [OF replies_weaken [OF replies_initgroups]]) (auto intro: replies_ret simp: gids_good_def)
qed (use assms in \<open>auto intro: replies_plain [OF replies_passwd(1)] replies_plain [OF replies_passwd(2)]
    replies_plain [OF replies_group(1)] replies_plain [OF replies_group(2)] replies_plain [OF replies_setpwent]
    replies_plain [OF replies_getpwent] replies_plain [OF replies_endent(1)] replies_plain [OF replies_setgrent]
    replies_plain [OF replies_getgrent] replies_plain [OF replies_endent(2)]\<close>)

lemma runs_reply:
  assumes "inv w" "list_all (\<lambda>c. pred_option (\<lambda>(buf, len). good_buf buf len) (call_buffer c)) cs"
  shows "list_all2 (\<lambda>c (reply, w'). inv w' \<and> shows_good c reply w') cs (run_nss N cs w)"
  using assms
proof (induction cs arbitrary: w)
  case (Cons c cs)
  have "replies inv (nss_call_prog N c) (shows_good c)" using Cons.prems(2) by (intro call_replies) simp
  then obtain reply w' where "nss_call_prog N c w = (Ok reply, w')" "inv w'" "shows_good c reply w'"
    using Cons.prems(1) by (rule repliesE)
  then show ?case using Cons by simp
qed simp

end

section \<open>What the programs of the service leave alone\<close>

lemma requests_keep:
  assumes "\<And>w x y t. P w \<Longrightarrow> P (w\<lparr>sent := x, redirected := y, mono := t\<rparr>)"
  shows "keeps P (scim_get_user_by_name H c n)" "keeps P (scim_get_group_by_name H c n)"
    "keeps P (list_users H c)" "keeps P (list_groups H c)"
  unfolding scim_get_user_by_name_def scim_get_group_by_name_def list_users_def list_groups_def
  by (intro preserved paginate_keeps assms; assumption)+

text \<open>A predicate that survives the requests and the statements survives every program behind the entry
  points.\<close>

lemma service_keeps:
  assumes "\<And>n. keeps P (scim_get_user_by_name (env_http V) (sv_scim S) n)"
    and "\<And>n. keeps P (scim_get_group_by_name (env_http V) (sv_scim S) n)"
    and "\<And>(m :: (cache, unit, cache_error) prog). keeps (schema_ok (env_db V)) m \<Longrightarrow> keeps P (on_cache m)"
    and "\<And>(m :: (cache, u32, cache_error) prog). keeps (schema_ok (env_db V)) m \<Longrightarrow> keeps P (on_cache m)"
    and "\<And>(m :: (cache, user option, cache_error) prog). keeps (schema_ok (env_db V)) m \<Longrightarrow> keeps P (on_cache m)"
    and "\<And>(m :: (cache, group option, cache_error) prog). keeps (schema_ok (env_db V)) m \<Longrightarrow> keeps P (on_cache m)"
    and "\<And>(m :: (cache, group list, cache_error) prog). keeps (schema_ok (env_db V)) m \<Longrightarrow> keeps P (on_cache m)"
  shows "keeps P (lookup_user_by_name V S n)" "keeps P (lookup_user_by_uid V S u)"
    "keeps P (lookup_group_by_name V S n)" "keeps P (lookup_group_by_gid V S u)"
    "keeps P (lookup_groups_for_user V S n)" "keeps P (enum_user V S su)" "keeps P (enum_group V S sg)"
  unfolding service_defs enum_user_def enum_group_def
  by (intro preserved assms)+

lemma service_no_panic:
  assumes "ranges_nonempty S"
  shows "no_panic (lookup_user_by_name V S n)" "no_panic (lookup_user_by_uid V S u)"
    "no_panic (lookup_group_by_name V S n)" "no_panic (lookup_group_by_gid V S u)"
    "no_panic (lookup_groups_for_user V S n)" "no_panic (enum_user V S su)" "no_panic (enum_group V S sg)"
    "no_panic (list_users H c)" "no_panic (list_groups H c)"
proof -
  have "uid_range_size (cfg_mapping (sv_config S)) \<noteq> 0" "gid_range_size (cfg_mapping (sv_config S)) \<noteq> 0"
    using assms by (simp_all add: ranges_nonempty_def)
  note rules = panic_free paginate_no_panic scim_no_panic this
  show "no_panic (lookup_user_by_name V S n)" "no_panic (lookup_user_by_uid V S u)"
    "no_panic (lookup_group_by_name V S n)" "no_panic (lookup_group_by_gid V S u)"
    "no_panic (lookup_groups_for_user V S n)" "no_panic (enum_user V S su)" "no_panic (enum_group V S sg)"
    "no_panic (list_users H c)" "no_panic (list_groups H c)"
    unfolding service_defs enum_user_def enum_group_def list_users_def list_groups_def
    by (intro rules)+
qed

lemma enum_no_error: "enum_user V S su w \<noteq> (Err e, w')" "enum_group V S sg w \<noteq> (Err e, w')"
  by (auto simp: enum_user_def enum_group_def prog_inv)

lemma enum_replies:
  assumes "ranges_nonempty S"
  shows "answers P (enum_user V S su) Q \<Longrightarrow> replies P (enum_user V S su) (\<lambda>x _. Q x)"
    "answers P (enum_group V S sg) R \<Longrightarrow> replies P (enum_group V S sg) (\<lambda>x _. R x)"
proof -
  show "replies P (enum_user V S su) (\<lambda>x _. Q x)" if "answers P (enum_user V S su) Q"
  proof (rule repliesI)
    fix w assume w: "P w"
    obtain r w' where run: "enum_user V S su w = (r, w')" by (cases "enum_user V S su w")
    show "\<exists>x w'. enum_user V S su w = (Ok x, w') \<and> P w' \<and> Q x"
      using run answersD [OF that run w] no_panicD [OF service_no_panic(6) [OF assms] run]
        enum_no_error(1) [of V S su w "()" w']
      by (cases r) auto
  qed
  show "replies P (enum_group V S sg) (\<lambda>x _. R x)" if "answers P (enum_group V S sg) R"
  proof (rule repliesI)
    fix w assume w: "P w"
    obtain r w' where run: "enum_group V S sg w = (r, w')" by (cases "enum_group V S sg w")
    show "\<exists>x w'. enum_group V S sg w = (Ok x, w') \<and> P w' \<and> R x"
      using run answersD [OF that run w] no_panicD [OF service_no_panic(7) [OF assms] run]
        enum_no_error(2) [of V S sg w "()" w']
      by (cases r) auto
  qed
qed

section \<open>Safety\<close>

lemma list_all2_right:
  "list_all2 P xs ys \<Longrightarrow> (\<And>x y. P x y \<Longrightarrow> Q y) \<Longrightarrow> length ys = length xs \<and> list_all Q ys"
  by (induction xs ys rule: list_all2_induct) simp_all

text \<open>The shared state is set up, the tables keep their constraints, the requests sent since a point go
  to the configured directory, and memory outside a region is as it was.\<close>

definition in_place :: "nss_state \<Rightarrow> memory \<Rightarrow> nat \<Rightarrow> nat \<Rightarrow> nss_world \<Rightarrow> bool" where
  "in_place ns m lo hi w \<longleftrightarrow> nw_state w = Some (Some ns) \<and> same_outside lo hi m (mem (nw_caller w))"

definition module_safe :: "proc_env \<Rightarrow> nss_state \<Rightarrow> nat \<times> nat \<Rightarrow> memory \<Rightarrow> nat \<Rightarrow> nat \<Rightarrow> nss_world \<Rightarrow> bool" where
  "module_safe N ns n m lo hi w \<longleftrightarrow>
     in_place ns m lo hi w \<and> tables_ok (pe_env N) w \<and>
     sent_since (env_http (pe_env N)) n (own_request (sv_scim (ns_service ns))) w"

definition well_configured :: "nss_state \<Rightarrow> bool" where
  "well_configured ns \<longleftrightarrow> ranges_nonempty (ns_service ns) \<and> ns_scim ns = sv_scim (ns_service ns)"

lemma module_safe_known: "module_safe N ns n m lo hi w \<Longrightarrow> nw_state w = Some (Some ns)"
  by (simp add: module_safe_def in_place_def)

lemma module_safe_updates [simp]:
  "module_safe N ns n m lo hi (w\<lparr>nw_caller := (nw_caller w)\<lparr>errno := e\<rparr>\<rparr>) = module_safe N ns n m lo hi w"
  "module_safe N ns n m lo hi (w\<lparr>user_enum := x\<rparr>) = module_safe N ns n m lo hi w"
  "module_safe N ns n m lo hi (w\<lparr>group_enum := y\<rparr>) = module_safe N ns n m lo hi w"
  by (simp_all add: module_safe_def in_place_def tables_ok_def sent_since_def agent_since_def)

lemma module_safe_keeps:
  assumes "keeps (in_place ns m lo hi) p" "keeps (tables_ok (pe_env N)) p"
    "keeps (sent_since (env_http (pe_env N)) n (own_request (sv_scim (ns_service ns)))) p"
  shows "keeps (module_safe N ns n m lo hi) p"
  using assms by (simp add: keeps_def module_safe_def)

lemma on_cache_safe:
  "keeps (schema_ok (env_db (pe_env N))) p \<Longrightarrow> keeps (module_safe N ns n m lo hi) (on_cache p)"
  by (rule module_safe_keeps; (intro preserved on_cache_keeps)?) (simp add: in_place_def)

lemma requests_safe:
  "keeps (module_safe N ns n m lo hi) (scim_get_user_by_name (env_http (pe_env N)) (sv_scim (ns_service ns)) x)"
  "keeps (module_safe N ns n m lo hi) (scim_get_group_by_name (env_http (pe_env N)) (sv_scim (ns_service ns)) x)"
  "keeps (module_safe N ns n m lo hi) (list_users (env_http (pe_env N)) (sv_scim (ns_service ns)))"
  "keeps (module_safe N ns n m lo hi) (list_groups (env_http (pe_env N)) (sv_scim (ns_service ns)))"
  unfolding list_users_def list_groups_def
  by (rule module_safe_keeps; (rule requests_keep paginate_keeps scim_lookup_tables paginate_tables scim_own_requests)?;
      simp add: in_place_def)+

lemmas service_safe = service_keeps [where P = "module_safe N ns n m lo hi" and V = "pe_env N" and S = "ns_service ns"
  for N ns n m lo hi, OF requests_safe(1,2) on_cache_safe on_cache_safe on_cache_safe on_cache_safe on_cache_safe]

interpretation safe: nss_service N ns "\<lambda>w. well_configured ns \<and> module_safe N ns n m lo hi w"
  "\<lambda>_. True" "\<lambda>_. True" "\<lambda>_. True" "\<lambda>buf len. lo \<le> buf \<and> buf + len \<le> hi"
  for N ns n m lo hi
proof unfold_locales
  fix w v buf len assume w: "well_configured ns \<and> module_safe N ns n m lo hi w" and "lo \<le> buf \<and> buf + len \<le> hi"
  then have "same_outside lo hi (mem (nw_caller w)) (mem (snd (fill_passwd_buf v buf len (nw_caller w))))"
    using same_outside_mono [OF fill_passwd_outside] by blast
  with w show "well_configured ns \<and> module_safe N ns n m lo hi (w\<lparr>nw_caller := snd (fill_passwd_buf v buf len (nw_caller w))\<rparr>)"
    by (auto simp: module_safe_def in_place_def tables_ok_def sent_since_def agent_since_def intro: same_outside_trans)
next
  fix w g buf len assume w: "well_configured ns \<and> module_safe N ns n m lo hi w" and "lo \<le> buf \<and> buf + len \<le> hi"
  then have "same_outside lo hi (mem (nw_caller w)) (mem (snd (fill_group_buf g buf len (nw_caller w))))"
    using same_outside_mono [OF fill_group_outside] by blast
  with w show "well_configured ns \<and> module_safe N ns n m lo hi (w\<lparr>nw_caller := snd (fill_group_buf g buf len (nw_caller w))\<rparr>)"
    by (auto simp: module_safe_def in_place_def tables_ok_def sent_since_def agent_since_def intro: same_outside_trans)
qed (auto simp: option.pred_True well_configured_def module_safe_known intro!: serves_under replies_under serves_keeps service_safe service_no_panic requests_safe
      enum_replies [OF _ keeps_answers])


definition demo_calls :: "nss_call list" where
  "demo_calls = [Setpwent, Getpwent 64 40, Getpwnam ''ann'' 64 8, Getgrgid 2000 64 40,
     InitgroupsDyn ''ann'' 100 \<lparr>ga_start = 0, ga_size = 1, ga_buf = [0]\<rparr> 16, Endpwent]"

lemma demo_state_ok: "well_configured demo_state" "ranges_fit (ns_service demo_state)"
proof -
  show "well_configured demo_state" by code_simp
  show "ranges_fit (ns_service demo_state)"
    by (simp add: ranges_fit_def demo_state_def demo_service_def demo_config_def)
qed


section \<open>The ids a caller is shown\<close>

definition enums_typed :: "service \<Rightarrow> nss_world \<Rightarrow> bool" where
  "enums_typed S w \<longleftrightarrow>
     pred_option (\<lambda>(us, i). list_all (user_ids_ok S) us) (user_enum w) \<and>
     pred_option (\<lambda>(gs, i). list_all (group_ids_ok S) gs) (group_enum w)"

definition module_typed :: "proc_env \<Rightarrow> nss_state \<Rightarrow> nss_world \<Rightarrow> bool" where
  "module_typed N ns w \<longleftrightarrow>
     (nw_state w = Some (Some ns) \<and> enums_typed (ns_service ns) w) \<and> typed (pe_env N) (ns_service ns) w"

definition ids_configured :: "nss_state \<Rightarrow> bool" where
  "ids_configured ns \<longleftrightarrow> well_configured ns \<and> ranges_fit (ns_service ns)"

lemma module_typed_updates [simp]:
  "module_typed N ns (w\<lparr>nw_caller := c\<rparr>) = module_typed N ns w"
  "module_typed N ns w \<Longrightarrow> module_typed N ns (w\<lparr>user_enum := x\<rparr>) =
     pred_option (\<lambda>(us, i). list_all (user_ids_ok (ns_service ns)) us) x"
  "module_typed N ns w \<Longrightarrow> module_typed N ns (w\<lparr>group_enum := y\<rparr>) =
     pred_option (\<lambda>(gs, i). list_all (group_ids_ok (ns_service ns)) gs) y"
  by (auto simp: module_typed_def enums_typed_def typed_def)

lemma module_typed_known: "module_typed N ns w \<Longrightarrow> nw_state w = Some (Some ns)"
  by (simp add: module_typed_def)

lemma module_typed_answers:
  assumes "keeps (\<lambda>w. nw_state w = Some (Some ns) \<and> enums_typed (ns_service ns) w) p"
    "answers (typed (pe_env N) (ns_service ns)) p Q"
  shows "answers (module_typed N ns) p Q"
  using assms by (fastforce simp: answers_def keeps_def module_typed_def)

lemma enum_typed:
  assumes "ranges_fit S"
  shows "answers (typed V S) (enum_user V S su) (pred_option (user_ids_ok S))"
    "answers (typed V S) (enum_group V S sg) (pred_option (group_ids_ok S))"
  unfolding enum_user_def enum_group_def
  by (rule answers_matchp [OF user_model_typed [OF assms]], rule answers_matchp [OF stores_typed(1)], assumption;
      simp add: answers_ret)
    (rule answers_matchp [OF group_model_typed [OF assms]], rule answers_matchp [OF stores_typed(2)], assumption;
      simp add: answers_ret)

text \<open>The enumerations are no part of what the programs of the service touch.\<close>

lemma service_frame:
  "keeps (\<lambda>w. nw_state w = st \<and> enums_typed S w) (lookup_user_by_name V T n)"
  "keeps (\<lambda>w. nw_state w = st \<and> enums_typed S w) (lookup_user_by_uid V T u)"
  "keeps (\<lambda>w. nw_state w = st \<and> enums_typed S w) (lookup_group_by_name V T n)"
  "keeps (\<lambda>w. nw_state w = st \<and> enums_typed S w) (lookup_group_by_gid V T u)"
  "keeps (\<lambda>w. nw_state w = st \<and> enums_typed S w) (lookup_groups_for_user V T n)"
  "keeps (\<lambda>w. nw_state w = st \<and> enums_typed S w) (enum_user V T su)"
  "keeps (\<lambda>w. nw_state w = st \<and> enums_typed S w) (enum_group V T sg)"
  "keeps (\<lambda>w. nw_state w = st \<and> enums_typed S w) (list_users H c)"
  "keeps (\<lambda>w. nw_state w = st \<and> enums_typed S w) (list_groups H c)"
  by (rule service_keeps requests_keep; (rule requests_keep on_cache_keeps)?; simp add: enums_typed_def)+

interpretation ids: nss_service N ns "\<lambda>w. ids_configured ns \<and> module_typed N ns w"
  "user_ids_ok (ns_service ns)" "group_ids_ok (ns_service ns)" "gid_ok (ns_service ns)" "\<lambda>_ _. True"
  for N ns
proof unfold_locales
  fix w us i assume "ids_configured ns \<and> module_typed N ns w" "user_enum w = Some (us, i)"
  then show "\<forall>v \<in> set us. user_ids_ok (ns_service ns) v"
    by (simp add: module_typed_def enums_typed_def list_all_iff)
next
  fix w gs i assume "ids_configured ns \<and> module_typed N ns w" "group_enum w = Some (gs, i)"
  then show "\<forall>v \<in> set gs. group_ids_ok (ns_service ns) v"
    by (simp add: module_typed_def enums_typed_def list_all_iff)
qed (auto simp: ids_configured_def well_configured_def module_typed_known list_all_iff
    intro!: serves_under replies_under serves_answers enum_replies module_typed_answers service_no_panic
      service_frame lookups_typed member_gids_typed enum_typed listings_typed)

text \<open>The ids a reply shows the caller: the users' and the groups' ids.\<close>

fun uids_shown :: "nss_call \<Rightarrow> nss_status \<times> gid_array option \<Rightarrow> nss_world \<Rightarrow> u32 list" where
  "uids_shown (Getpwnam _ _ _) (Success, _) w = [pw_uid (out_passwd (nw_caller w))]"
| "uids_shown (Getpwuid _ _ _) (Success, _) w = [pw_uid (out_passwd (nw_caller w))]"
| "uids_shown (Getpwent _ _) (Success, _) w = [pw_uid (out_passwd (nw_caller w))]"
| "uids_shown _ _ w = []"

fun gids_shown :: "nss_call \<Rightarrow> nss_status \<times> gid_array option \<Rightarrow> nss_world \<Rightarrow> u32 list" where
  "gids_shown (Getpwnam _ _ _) (Success, _) w = [pw_gid (out_passwd (nw_caller w))]"
| "gids_shown (Getpwuid _ _ _) (Success, _) w = [pw_gid (out_passwd (nw_caller w))]"
| "gids_shown (Getpwent _ _) (Success, _) w = [pw_gid (out_passwd (nw_caller w))]"
| "gids_shown (Getgrnam _ _ _) (Success, _) w = [cgr_gid (out_group (nw_caller w))]"
| "gids_shown (Getgrgid _ _ _) (Success, _) w = [cgr_gid (out_group (nw_caller w))]"
| "gids_shown (Getgrent _ _) (Success, _) w = [cgr_gid (out_group (nw_caller w))]"
| "gids_shown (InitgroupsDyn _ _ a _) (_, Some a') w = filter (\<lambda>g. g \<notin> set (gids_in a)) (gids_in a')"
| "gids_shown _ _ w = []"

lemma shown_ids:
  assumes "ids.shows_good ns c reply w"
  shows "list_all (uid_ok (ns_service ns)) (uids_shown c reply w) \<and>
    list_all (gid_ok (ns_service ns)) (gids_shown c reply w)"
proof -
  obtain st a where reply: "reply = (st, a)" by (cases reply)
  show ?thesis
    using assms unfolding reply
    by (cases c; cases st; cases a)
      (auto simp: ids.shows_good_user_def ids.shows_good_group_def user_ids_ok_def group_ids_ok_def list_all_iff)
qed

text \<open>No sequence of calls makes the module show an id outside the configured ranges: with ranges
  that end before the 32-bit ids do and a cache of such ids, every uid and gid in a struct an entry
  point reports as filled, and every gid \<open>initgroups_dyn\<close> adds to the caller's array, is in the
  ranges, whatever the directory sends.\<close>

theorem nss_shows_ids_in_range:
  assumes "ids_configured ns" "nw_state w = Some (Some ns)"
    and "typed_cache (pe_env N) (ns_service ns) (w_cache w)" "enums_typed (ns_service ns) w"
  shows "list_all2 (\<lambda>c (reply, v). list_all (uid_ok (ns_service ns)) (uids_shown c reply v) \<and>
      list_all (gid_ok (ns_service ns)) (gids_shown c reply v)) cs (run_nss N cs w)"
proof -
  have "ids_configured ns \<and> module_typed N ns w"
    using assms by (simp add: module_typed_def typed_def)
  moreover have "list_all (\<lambda>c. pred_option (\<lambda>(buf, len). True) (call_buffer c)) cs"
    by (auto simp: list_all_iff option.pred_set)
  ultimately have "list_all2 (\<lambda>c (reply, v). (ids_configured ns \<and> module_typed N ns v) \<and> ids.shows_good ns c reply v)
      cs (run_nss N cs w)" by (rule ids.runs_reply)
  then show ?thesis by (rule list_all2_mono) (use shown_ids in auto)
qed

theorem nss_shows_ids_in_range_witness:
  "list_all2 (\<lambda>c (reply, v). list_all (\<lambda>g. 2000 \<le> g) (gids_shown c reply v)) demo_calls
     (run_nss (demo_nss True) demo_calls demo_running)"
proof -
  let ?S = "ns_service demo_state"
  have pre: "ids_configured demo_state" "nw_state demo_running = Some (Some demo_state)"
    "typed_cache (pe_env (demo_nss True)) ?S (w_cache demo_running)" "enums_typed ?S demo_running"
    using demo_state_ok by (simp_all add: ids_configured_def demo_process_def enums_typed_def empty_typed)
  have "gid_ok ?S g \<Longrightarrow> 2000 \<le> g" for g
    by (simp add: in_range_def demo_state_def demo_service_def demo_config_def word_le_nat_alt)
  then show ?thesis
    by (intro list_all2_mono [OF nss_shows_ids_in_range [OF pre]]) (auto simp: list_all_iff)
qed

end
