(* ===== verification/Nss_Threads.thy ===== *)
theory Nss_Threads
  imports Nss_Calls
begin

text \<open>
  The NSS module in a process with several threads. The entry points share the statics of
  \<open>state.rs\<close> and \<open>ffi.rs\<close>: the once-cell \<open>STATE\<close> and the mutexes around the service, \<open>USER_ENUM\<close> and
  \<open>GROUP_ENUM\<close>. An entry point is cut at every place where another thread may come in: before it
  takes a mutex, after it lets it go, and between the requests of a listing, which holds none. Run
  without interruption the pieces are the entry point.
\<close>

section \<open>Entry points in pieces\<close>

datatype nss_lock = Once | ServiceLock | UserEnumLock | GroupEnumLock

type_synonym nss_reply = "nss_status \<times> gid_array option"

text \<open>A call that is under way: its reply, or a piece to run while holding a lock (or none).\<close>

datatype stage =
    Reply nss_reply
  | Piece "nss_lock option" "nss_world \<Rightarrow> (stage, unit) outcome \<times> nss_world"

definition piece :: "nss_lock option \<Rightarrow> 'a nss \<Rightarrow> ('a \<Rightarrow> stage) \<Rightarrow> stage" where
  "piece l m k = Piece l (bindp m (\<lambda>a. ret (k a)))"

text \<open>All pieces in a row.\<close>

definition joinp :: "nss_reply nss nss \<Rightarrow> nss_reply nss" where
  "joinp m = bindp m (\<lambda>n. n)"

primrec run_stage :: "stage \<Rightarrow> nss_reply nss" where
  "run_stage (Reply r) = ret r"
| "run_stage (Piece l m) = joinp (map_prod (map_outcome run_stage id) id \<circ> m)"

lemma run_piece: "run_stage (piece l m k) = bindp m (\<lambda>a. run_stage (k a))"
  by (rule ext) (auto simp: piece_def joinp_def bindp_def matchp_def ret_def fail_def split: prod.split outcome.split)

definition plain :: "nss_status \<Rightarrow> stage" where
  "plain st = Reply (st, None)"

text \<open>The head of a lookup: the once-cell, then the mutex of the service.\<close>

definition service_stages :: "proc_env \<Rightarrow> 'a nss \<Rightarrow> (service \<Rightarrow> 'a nss) \<Rightarrow> ('a \<Rightarrow> stage) \<Rightarrow> stage" where
  "service_stages N unavail body k =
     piece (Some Once) (get_state N) (\<lambda>st. case st of
       None \<Rightarrow> piece None unavail k
     | Some ns \<Rightarrow> piece (Some ServiceLock) (\<lambda>w. if service_poisoned w then unavail w else body (ns_service ns) w) k)"

definition answer_user :: "(nss_world, user option, service_error) prog \<Rightarrow> nat \<Rightarrow> nat \<Rightarrow> nss_status nss" where
  "answer_user lookup buf len = matchp lookup
     (\<lambda>found. case found of
        Some user \<Rightarrow> on_caller (fill_passwd_buf user buf len)
      | None \<Rightarrow> reply_status NotFound)
     (\<lambda>_. reply_status Unavail)"

definition answer_group :: "(nss_world, group option, service_error) prog \<Rightarrow> nat \<Rightarrow> nat \<Rightarrow> nss_status nss" where
  "answer_group lookup buf len = matchp lookup
     (\<lambda>found. case found of
        Some grp \<Rightarrow> on_caller (fill_group_buf grp buf len)
      | None \<Rightarrow> reply_status NotFound)
     (\<lambda>_. reply_status Unavail)"

text \<open>A listing, one request at a time; \<open>None\<close> is an error.\<close>

primrec fetch_stages ::
  "http_env \<Rightarrow> scim_client \<Rightarrow> (doc \<Rightarrow> 'r option) \<Rightarrow> string \<Rightarrow> nat \<Rightarrow> nat \<Rightarrow> 'r list \<Rightarrow> ('r list option \<Rightarrow> stage) \<Rightarrow> stage"
where
  "fetch_stages H c dec resource 0 start_index all k = k (Some all)"
| "fetch_stages H c dec resource (Suc pages) start_index all k =
     piece None (matchp (get_json H (decode_list_response dec) (page_request c resource start_index))
         (\<lambda>resp. ret (Some resp)) (\<lambda>_. ret None))
       (\<lambda>x. case x of
          None \<Rightarrow> k None
        | Some resp \<Rightarrow>
            (let fetched = length (resources resp); all' = all @ resources resp
             in if total_results resp \<le> length all' \<or> fetched = 0 then k (Some all')
                else fetch_stages H c dec resource pages (start_index + fetched) all' k))"

text \<open>What follows the listing: the import under the mutex of the service, then the new enumeration.\<close>

definition import_stages ::
  "('r \<Rightarrow> 'v option nss) \<Rightarrow> nss_lock \<Rightarrow> ('v list \<Rightarrow> nss_world \<Rightarrow> nss_world) \<Rightarrow> 'r list \<Rightarrow> stage" where
  "import_stages import_one lock publish rs =
     piece (Some ServiceLock)
       (\<lambda>w. if service_poisoned w then ret None w
            else bindp (collectp import_one rs) (\<lambda>vs. ret (Some (List.map_filter (\<lambda>v. v) vs))) w)
       (\<lambda>imported. case imported of
          None \<Rightarrow> plain Unavail
        | Some vs \<Rightarrow> piece (Some lock) (\<lambda>w. ret Success (publish vs w)) plain)"

definition setent_stages ::
  "proc_env \<Rightarrow> (doc \<Rightarrow> 'r option) \<Rightarrow> string \<Rightarrow> (nss_state \<Rightarrow> 'r \<Rightarrow> 'v option nss) \<Rightarrow> nss_lock \<Rightarrow>
   ('v list \<Rightarrow> nss_world \<Rightarrow> nss_world) \<Rightarrow> stage"
where
  "setent_stages N dec resource import_one lock publish =
     piece (Some Once) (get_state N) (\<lambda>st. case st of
       None \<Rightarrow> plain Unavail
     | Some ns \<Rightarrow>
         fetch_stages (env_http (pe_env N)) (ns_scim ns) dec resource max_pagination_pages 1 [] (\<lambda>listed. case listed of
           None \<Rightarrow> plain Unavail
         | Some rs \<Rightarrow> import_stages (import_one ns) lock publish rs))"

definition publish_users :: "user list \<Rightarrow> nss_world \<Rightarrow> nss_world" where
  "publish_users vs w = (if user_enum_poisoned w then w else w\<lparr>user_enum := Some (vs, 0)\<rparr>)"

definition publish_groups :: "group list \<Rightarrow> nss_world \<Rightarrow> nss_world" where
  "publish_groups vs w = (if group_enum_poisoned w then w else w\<lparr>group_enum := Some (vs, 0)\<rparr>)"

definition answer_gids ::
  "(nss_world, u32 list, service_error) prog \<Rightarrow> u32 \<Rightarrow> gid_array \<Rightarrow> (nss_status \<times> gid_array) nss" where
  "answer_gids lookup primary a =
     matchp lookup
       (\<lambda>gids. case add_gids primary gids a of
          (True, a') \<Rightarrow> bindp (reply_status Success) (\<lambda>s. ret (s, a'))
        | (False, a') \<Rightarrow> (\<lambda>v. ret (TryAgain, a') (v\<lparr>nw_caller := (nw_caller v)\<lparr>errno := erange\<rparr>\<rparr>)))
       (\<lambda>_. bindp (reply_status Unavail) (\<lambda>s. ret (s, a)))"

definition with_array :: "nss_status \<times> gid_array \<Rightarrow> stage" where
  "with_array r = Reply (fst r, Some (snd r))"

fun call_stages :: "proc_env \<Rightarrow> nss_call \<Rightarrow> stage" where
  "call_stages N (Getpwnam name buf len) =
     (case to_str name of
        None \<Rightarrow> piece None (reply_status NotFound) plain
      | Some n \<Rightarrow> service_stages N (reply_status Unavail)
          (\<lambda>svc. answer_user (lookup_user_by_name (pe_env N) svc n) buf len) plain)"
| "call_stages N (Getpwuid uid buf len) =
     service_stages N (reply_status Unavail) (\<lambda>svc. answer_user (lookup_user_by_uid (pe_env N) svc uid) buf len) plain"
| "call_stages N (Getgrnam name buf len) =
     (case to_str name of
        None \<Rightarrow> piece None (reply_status NotFound) plain
      | Some n \<Rightarrow> service_stages N (reply_status Unavail)
          (\<lambda>svc. answer_group (lookup_group_by_name (pe_env N) svc n) buf len) plain)"
| "call_stages N (Getgrgid gid buf len) =
     service_stages N (reply_status Unavail) (\<lambda>svc. answer_group (lookup_group_by_gid (pe_env N) svc gid) buf len) plain"
| "call_stages N (InitgroupsDyn user primary a limit) =
     (case to_str user of
        None \<Rightarrow> piece None (bindp (reply_status NotFound) (\<lambda>s. ret (s, a))) with_array
      | Some n \<Rightarrow> service_stages N (bindp (reply_status Unavail) (\<lambda>s. ret (s, a)))
          (\<lambda>svc. answer_gids (lookup_groups_for_user (pe_env N) svc n) primary a) with_array)"
| "call_stages N Setpwent =
     setent_stages N decode_scim_user ''Users'' (\<lambda>ns. enum_user (pe_env N) (ns_service ns)) UserEnumLock publish_users"
| "call_stages N (Getpwent buf len) = piece (Some UserEnumLock) (nss_getpwent_r buf len) plain"
| "call_stages N Endpwent = piece (Some UserEnumLock) nss_endpwent plain"
| "call_stages N Setgrent =
     setent_stages N decode_scim_group ''Groups'' (\<lambda>ns. enum_group (pe_env N) (ns_service ns)) GroupEnumLock publish_groups"
| "call_stages N (Getgrent buf len) = piece (Some GroupEnumLock) (nss_getgrent_r buf len) plain"
| "call_stages N Endgrent = piece (Some GroupEnumLock) nss_endgrent plain"

section \<open>The pieces make up the entry points\<close>

lemma run_plain: "run_stage (plain st) = ret (st, None)"
  by (simp add: plain_def)

lemma bindp_assoc: "bindp (bindp m f) g = bindp m (\<lambda>a. bindp (f a) g)"
  by (rule ext) (auto simp: bindp_def matchp_def fail_def split: prod.split outcome.split)

lemma bindp_ret [simp]: "bindp (ret a) f = f a" "bindp m ret = m"
  by (rule ext; auto simp: bindp_def matchp_def ret_def fail_def split: prod.split outcome.split)+

lemma bindp_matchp: "bindp (matchp m f h) g = matchp m (\<lambda>a. bindp (f a) g) (\<lambda>e. bindp (h e) g)"
  by (rule ext) (auto simp: bindp_def matchp_def fail_def split: prod.split outcome.split)

lemma run_service_stages:
  "run_stage (service_stages N unavail body k) =
     bindp (bindp (get_state N) (\<lambda>st. case st of
        None \<Rightarrow> unavail
      | Some ns \<Rightarrow> (\<lambda>w. if service_poisoned w then unavail w else body (ns_service ns) w))) (\<lambda>a. run_stage (k a))"
  unfolding service_stages_def run_piece bindp_assoc
  by (rule arg_cong [where f = "bindp _"]) (auto simp: fun_eq_iff run_piece split: option.split)

lemma run_fetch_stages:
  "run_stage (fetch_stages H c dec resource pages start all k) =
     matchp (paginate_pages H c dec resource pages start all) (\<lambda>(rs, _). run_stage (k (Some rs)))
       (\<lambda>_. run_stage (k None))"
proof (induction pages arbitrary: start all)
  case 0
  show ?case by (rule ext) (simp add: matchp_def ret_def)
next
  case (Suc pages)
  show ?case
    by (rule ext, simp add: run_piece bindp_matchp Let_def)
      (auto simp: matchp_def tryp_def ret_def fail_def Suc.IH split: prod.split outcome.split)
qed

lemma run_import_stages:
  "run_stage (import_stages import_one lock publish rs) w =
     (if service_poisoned w then ret (Unavail, None) w
      else bindp (collectp import_one rs) (\<lambda>vs v.
        ret (Success, None) (publish (List.map_filter (\<lambda>v. v) vs) v)) w)"
proof -
  have publish: "run_stage (piece (Some lock) (\<lambda>w. ret Success (publish vs w)) plain) v =
      (Ok (Success, None), publish vs v)" for vs v
    by (simp add: run_piece run_plain bindp_def matchp_def ret_def)
  show ?thesis
    unfolding import_stages_def run_piece [of "Some ServiceLock"]
    by (auto simp: bindp_def matchp_def fail_def ret_def run_plain publish [unfolded ret_def]
        split: prod.split outcome.split)
qed

lemma run_setent_stages:
  "run_stage (setent_stages N dec resource import_one lock publish) =
     bindp (get_state N) (\<lambda>st. case st of
        None \<Rightarrow> ret (Unavail, None)
      | Some ns \<Rightarrow>
          matchp (paginate_list (env_http (pe_env N)) (ns_scim ns) dec resource)
            (\<lambda>rs w. if service_poisoned w then ret (Unavail, None) w
               else bindp (collectp (import_one ns) rs) (\<lambda>vs v.
                 ret (Success, None) (publish (List.map_filter (\<lambda>v. v) vs) v)) w)
            (\<lambda>_. ret (Unavail, None)))"
  unfolding setent_stages_def run_piece [of "Some Once"]
  by (rule arg_cong [where f = "bindp _"])
    (auto simp: fun_eq_iff run_plain run_fetch_stages run_import_stages paginate_list_def matchp_def bindp_def fail_def ret_def
      split: option.split prod.split outcome.split)

lemma same_run: "m = n \<Longrightarrow> m w = n w"
  by simp

text \<open>The entry points cut into pieces, at the mutexes and between the requests of a listing, are the
  entry points: run in a row without interruption the pieces do, in every state, what the entry point
  does. So whatever holds when threads interleave these pieces is about the same code.\<close>

lemma stages_are_the_calls:
  "run_stage (call_stages N c) w = nss_call_prog N c w"
proof (cases c)
  case (InitgroupsDyn user primary a limit)
  show ?thesis
    unfolding InitgroupsDyn call_stages.simps nss_call_prog.simps nss_initgroups_dyn_def Let_def
    by (auto simp: run_piece run_service_stages with_array_def bindp_assoc answer_gids_def split: option.split)
      (auto simp: bindp_def matchp_def fail_def ret_def reply_status_def split: prod.split outcome.split option.split bool.split)
next
  case Setpwent
  show ?thesis
    unfolding Setpwent call_stages.simps nss_call_prog.simps run_setent_stages plain_reply_def nss_setpwent_def
      bindp_assoc list_users_def publish_users_def
    by (rule same_run, rule arg_cong [where f = "bindp _"])
      (auto simp: fun_eq_iff matchp_def bindp_def fail_def ret_def split: option.split prod.split outcome.split)
next
  case Setgrent
  show ?thesis
    unfolding Setgrent call_stages.simps nss_call_prog.simps run_setent_stages plain_reply_def nss_setgrent_def
      bindp_assoc list_groups_def publish_groups_def
    by (rule same_run, rule arg_cong [where f = "bindp _"])
      (auto simp: fun_eq_iff matchp_def bindp_def fail_def ret_def split: option.split prod.split outcome.split)
qed (simp_all add: run_piece run_service_stages run_plain plain_reply_def with_service_def answer_user_def answer_group_def
    nss_getpwnam_r_def passwd_by_name_def nss_getpwuid_r_def passwd_by_uid_def nss_getgrnam_r_def group_by_name_def
    nss_getgrgid_r_def group_by_gid_def split: option.split)

section \<open>Threads\<close>

text \<open>
  A thread has calls to make, the call under way with the pieces left of it, what its own pointers
  reach, and the calls it has done with their replies. A panic ends the process.
\<close>

record thread =
  th_todo :: "nss_call list"
  th_now :: "(nss_call \<times> stage) option"
  th_caller :: caller
  th_done :: "(nss_call \<times> nss_reply \<times> caller) list"

record threads =
  ts_world :: nss_world
  ts_threads :: "thread list"
  ts_held :: "nss_lock \<Rightarrow> nat option"
  ts_aborted :: bool

definition set_thread :: "nat \<Rightarrow> thread \<Rightarrow> threads \<Rightarrow> threads" where
  "set_thread i t s = s\<lparr>ts_threads := (ts_threads s)[i := t]\<rparr>"

definition release :: "nss_lock option \<Rightarrow> (nss_lock \<Rightarrow> nat option) \<Rightarrow> nss_lock \<Rightarrow> nat option" where
  "release l held = (case l of None \<Rightarrow> held | Some k \<Rightarrow> held(k := None))"

text \<open>The piece runs with the thread's own pointers, and lets the lock go.\<close>

definition run_now :: "nat \<Rightarrow> thread \<Rightarrow> nss_call \<Rightarrow> nss_lock option \<Rightarrow> stage nss \<Rightarrow> threads \<Rightarrow> threads" where
  "run_now i t c l m s =
     (case m ((ts_world s)\<lparr>nw_caller := th_caller t\<rparr>) of
        (Ok st, w) \<Rightarrow>
          set_thread i (t\<lparr>th_now := Some (c, st), th_caller := nw_caller w\<rparr>)
            (s\<lparr>ts_world := w, ts_held := release l (ts_held s)\<rparr>)
      | (_, w) \<Rightarrow> s\<lparr>ts_world := w, ts_aborted := True\<rparr>)"

text \<open>The next step of a thread; \<open>None\<close> when it has finished or waits for a lock.\<close>

definition thread_turn :: "proc_env \<Rightarrow> nat \<Rightarrow> threads \<Rightarrow> threads option" where
  "thread_turn N i s =
     (if ts_aborted s \<or> length (ts_threads s) \<le> i then None
      else let t = ts_threads s ! i in
        case th_now t of
          None \<Rightarrow> (case th_todo t of
             [] \<Rightarrow> None
           | c # cs \<Rightarrow> Some (set_thread i (t\<lparr>th_todo := cs, th_now := Some (c, call_stages N c)\<rparr>) s))
        | Some (c, Reply r) \<Rightarrow>
            Some (set_thread i (t\<lparr>th_now := None, th_done := th_done t @ [(c, r, th_caller t)]\<rparr>) s)
        | Some (c, Piece None m) \<Rightarrow> Some (run_now i t c None m s)
        | Some (c, Piece (Some l) m) \<Rightarrow>
            (case ts_held s l of
               None \<Rightarrow> Some (s\<lparr>ts_held := (ts_held s)(l := Some i)\<rparr>)
             | Some j \<Rightarrow> if j = i then Some (run_now i t c (Some l) m s) else None))"

text \<open>A schedule names the thread that has the processor next; one that cannot go on loses its turn.\<close>

fun run_threads :: "proc_env \<Rightarrow> nat list \<Rightarrow> threads \<Rightarrow> threads" where
  "run_threads N [] s = s"
| "run_threads N (i # is) s =
     (case thread_turn N i s of
        None \<Rightarrow> run_threads N is s
      | Some s' \<Rightarrow> run_threads N is s')"

definition new_threads :: "nss_world \<Rightarrow> (nss_call list \<times> caller) list \<Rightarrow> threads" where
  "new_threads w work = \<lparr>ts_world = w,
     ts_threads = map (\<lambda>(cs, c). \<lparr>th_todo = cs, th_now = None, th_caller = c, th_done = []\<rparr>) work,
     ts_held = (\<lambda>_. None), ts_aborted = False\<rparr>"

lemma run_threads_append: "run_threads N (is @ js) s = run_threads N js (run_threads N is s)"
  by (induction "is" arbitrary: s) (auto split: option.split)

text \<open>The cases of a turn.\<close>

lemma turn_cases:
  assumes "thread_turn N i s = Some s'"
  obtains (start) c cs where "th_now (ts_threads s ! i) = None" "th_todo (ts_threads s ! i) = c # cs"
      "s' = set_thread i ((ts_threads s ! i)\<lparr>th_todo := cs, th_now := Some (c, call_stages N c)\<rparr>) s"
  | (reply) c r where "th_now (ts_threads s ! i) = Some (c, Reply r)"
      "s' = set_thread i ((ts_threads s ! i)\<lparr>th_now := None,
        th_done := th_done (ts_threads s ! i) @ [(c, r, th_caller (ts_threads s ! i))]\<rparr>) s"
  | (acquire) c l m where "th_now (ts_threads s ! i) = Some (c, Piece (Some l) m)" "ts_held s l = None"
      "s' = s\<lparr>ts_held := (ts_held s)(l := Some i)\<rparr>"
  | (run) c l m where "th_now (ts_threads s ! i) = Some (c, Piece l m)" "\<forall>k. l = Some k \<longrightarrow> ts_held s k = Some i"
      "s' = run_now i (ts_threads s ! i) c l m s"
proof -
  let ?t = "ts_threads s ! i"
  show thesis
  proof (cases "th_now ?t")
    case None
    then obtain c cs where "th_todo ?t = c # cs"
      using assms by (auto simp: thread_turn_def Let_def split: if_splits list.splits)
    with None show ?thesis using assms by (intro start) (auto simp: thread_turn_def Let_def split: if_splits)
  next
    case (Some p)
    obtain c st where p: "p = (c, st)" by (cases p)
    show ?thesis
    proof (cases st)
      case (Reply r)
      then show ?thesis using assms Some p by (intro reply) (auto simp: thread_turn_def Let_def split: if_splits)
    next
      case (Piece l m)
      show ?thesis
      proof (cases l)
        case None
        then show ?thesis using assms Some p Piece by (intro run) (auto simp: thread_turn_def Let_def split: if_splits)
      next
        case l: (Some k)
        show ?thesis
        proof (cases "ts_held s k")
          case None
          then show ?thesis using assms Some p Piece l
            by (intro acquire) (auto simp: thread_turn_def Let_def split: if_splits)
        next
          case (Some j)
          then have "j = i" "s' = run_now i ?t c (Some k) m s"
            using assms \<open>th_now ?t = Some p\<close> p Piece l by (auto simp: thread_turn_def Let_def split: if_splits)
          then show ?thesis using assms \<open>th_now ?t = Some p\<close> p Piece l Some by (intro run) auto
        qed
      qed
    qed
  qed
qed

lemma turn_index: "thread_turn N i s = Some s' \<Longrightarrow> i < length (ts_threads s) \<and> \<not> ts_aborted s"
  by (auto simp: thread_turn_def split: if_splits)

lemma run_threads_invariant:
  assumes "\<And>i s s'. P s \<Longrightarrow> thread_turn N i s = Some s' \<Longrightarrow> P s'" "P s"
  shows "P (run_threads N sched s)"
  using assms(2) by (induction sched arbitrary: s) (auto split: option.split intro: assms(1))

section \<open>Locks\<close>

text \<open>A held lock is that of the piece its holder is about to run; so no thread holds two.\<close>

definition holders_ready :: "threads \<Rightarrow> bool" where
  "holders_ready s \<longleftrightarrow> (\<forall>l i. ts_held s l = Some i \<longrightarrow> i < length (ts_threads s) \<and>
     (\<exists>c m. th_now (ts_threads s ! i) = Some (c, Piece (Some l) m)))"

lemma thread_of_set [simp]:
  "i < length (ts_threads s) \<Longrightarrow> ts_threads (set_thread i t s) ! j = (if j = i then t else ts_threads s ! j)"
  "length (ts_threads (set_thread i t s)) = length (ts_threads s)"
  "ts_held (set_thread i t s) = ts_held s" "ts_world (set_thread i t s) = ts_world s"
  "ts_aborted (set_thread i t s) = ts_aborted s"
  by (auto simp: set_thread_def)

lemma not_holding:
  assumes "holders_ready s" "\<And>c m. th_now (ts_threads s ! i) \<noteq> Some (c, Piece (Some l) m)"
  shows "ts_held s l \<noteq> Some i"
  using assms unfolding holders_ready_def by blast

lemma holders_ready_set:
  assumes "holders_ready s" "i < length (ts_threads s)" "\<And>l. ts_held s l \<noteq> Some i"
  shows "holders_ready (set_thread i t s)"
  using assms by (auto simp: holders_ready_def)

lemma holders_ready_turn:
  assumes "holders_ready s" "thread_turn N i s = Some s'"
  shows "holders_ready s'"
proof -
  note i = turn_index [OF assms(2)]
  from assms(2) show ?thesis
  proof (cases rule: turn_cases)
    case (start c cs)
    then show ?thesis using not_holding [OF assms(1)] i by (auto intro: holders_ready_set assms(1))
  next
    case (reply c r)
    then show ?thesis using not_holding [OF assms(1)] i by (auto intro: holders_ready_set assms(1))
  next
    case (acquire c l m)
    then show ?thesis using assms(1) i by (auto simp: holders_ready_def)
  next
    case (run c l m)
    obtain r w where m: "m ((ts_world s)\<lparr>nw_caller := th_caller (ts_threads s ! i)\<rparr>) = (r, w)"
      by (cases "m ((ts_world s)\<lparr>nw_caller := th_caller (ts_threads s ! i)\<rparr>)")
    show ?thesis
    proof (cases "\<exists>st. r = Ok st")
      case True
      then obtain st where r: "r = Ok st" by blast
      let ?s = "s\<lparr>ts_world := w, ts_held := release l (ts_held s)\<rparr>"
      have kept: "ts_held s k = Some j" "l \<noteq> Some k" if "release l (ts_held s) k = Some j" for k j
        using that by (cases l; auto simp: release_def split: if_splits)+
      have "holders_ready ?s" using assms(1) kept by (fastforce simp: holders_ready_def)
      moreover have "release l (ts_held s) k \<noteq> Some i" for k
        using kept not_holding [OF assms(1), of i k] run(1) by fastforce
      ultimately show ?thesis
        unfolding run(3) run_now_def m r using i by (simp add: holders_ready_set)
    next
      case False
      then show ?thesis
        using assms(1) unfolding run(3) run_now_def m by (cases r) (auto simp: holders_ready_def)
    qed
  qed
qed

end
