(* ===== verification/Thread_Progress.thy ===== *)
theory Thread_Progress
  imports Nss_Threads
begin

text \<open>
  Threads never wait for each other for ever: no entry point takes a mutex while it holds another, so
  the holder of a mutex can always go on, and a call has a bounded number of pieces.
\<close>

section \<open>How many pieces are left\<close>

inductive within :: "nat \<Rightarrow> stage \<Rightarrow> bool" where
  within_reply: "within n (Reply r)"
| within_piece: "(\<And>w st w'. m w = (Ok st, w') \<Longrightarrow> within n st) \<Longrightarrow> within (Suc n) (Piece l m)"

inductive_cases within_pieceE: "within n (Piece l m)"

lemma within_mono: "within n st \<Longrightarrow> n \<le> k \<Longrightarrow> within k st"
proof (induction n st arbitrary: k rule: within.induct)
  case (within_reply n r)
  show ?case by (rule within.within_reply)
next
  case (within_piece m n l)
  then obtain j where "k = Suc j" "n \<le> j" by (cases k) auto
  with within_piece.IH show ?case by (auto intro: within.within_piece)
qed

lemma within_piece_of: "(\<And>a. within n (k a)) \<Longrightarrow> within (Suc n) (piece l m k)"
  unfolding piece_def
  by (rule within_piece) (auto simp: bindp_def matchp_def ret_def fail_def split: prod.splits outcome.splits)

lemma within_plain: "within n (plain st)" "within n (with_array r)"
  by (simp_all add: plain_def with_array_def within_reply)

lemma within_service:
  assumes "\<And>a. within 0 (k a)"
  shows "within 2 (service_stages N unavail body k)"
proof -
  have "within (Suc (Suc 0)) (service_stages N unavail body k)"
    unfolding service_stages_def
    by (rule within_piece_of) (auto intro!: within_piece_of assms split: option.split)
  then show ?thesis by (simp add: numeral_2_eq_2)
qed

lemma within_fetch:
  assumes "\<And>x. within n (k x)"
  shows "within (pages + n) (fetch_stages H c dec resource pages start all k)"
proof (induction pages arbitrary: start all)
  case 0
  show ?case by (simp add: assms)
next
  case (Suc pages)
  have "within (pages + n) (k x)" for x by (rule within_mono [OF assms]) simp
  with Suc show ?case
    by (auto simp: Let_def intro!: within_piece_of split: option.split)
qed

text \<open>A call has at most 1003 pieces: the once-cell, the pages, the import, the new enumeration.\<close>

lemma within_setent: "within 1003 (setent_stages N dec resource import_one l publish)"
proof -
  have imp: "within (Suc (Suc 0)) (import_stages import_one l publish rs)" for import_one rs
    unfolding import_stages_def
    by (rule within_piece_of) (auto intro!: within_piece_of within_plain split: option.split)
  have listed: "within (Suc (Suc 0)) (case x of None \<Rightarrow> plain Unavail | Some rs \<Rightarrow> import_stages import_one l publish rs)"
    for x import_one
    by (cases x) (simp_all add: imp within_plain)
  have "within (Suc (max_pagination_pages + Suc (Suc 0))) (setent_stages N dec resource import_one l publish)"
    unfolding setent_stages_def
  proof (rule within_piece_of)
    fix st :: "nss_state option"
    show "within (max_pagination_pages + Suc (Suc 0)) (case st of None \<Rightarrow> plain Unavail
      | Some ns \<Rightarrow> fetch_stages (env_http (pe_env N)) (ns_scim ns) dec resource max_pagination_pages 1 []
          (\<lambda>listed. case listed of None \<Rightarrow> plain Unavail | Some rs \<Rightarrow> import_stages (import_one ns) l publish rs))"
      using within_fetch [OF listed] by (cases st) (simp_all only: option.case within_plain)
  qed
  then show ?thesis by (simp add: max_pagination_pages_def)
qed

lemma within_call: "within 1003 (call_stages N c)"
proof (cases c)
  case Setpwent
  then show ?thesis by (simp add: within_setent)
next
  case Setgrent
  then show ?thesis by (simp add: within_setent)
qed (auto intro: within_mono [OF within_service] within_mono [OF within_piece_of [of 0]] within_plain split: option.split)

section \<open>A budget of turns\<close>

definition holds_lock :: "threads \<Rightarrow> nat \<Rightarrow> bool" where
  "holds_lock s i \<longleftrightarrow> (\<exists>l. ts_held s l = Some i)"

text \<open>A piece takes two turns (one to take the lock), a call two more.\<close>

definition turns_per_call :: nat where "turns_per_call = 2008"

definition thread_budget :: "bool \<Rightarrow> thread \<Rightarrow> nat \<Rightarrow> bool" where
  "thread_budget held t b \<longleftrightarrow>
     (case th_now t of
        None \<Rightarrow> b = turns_per_call * length (th_todo t)
      | Some (c, st) \<Rightarrow> \<exists>n. within n st \<and> b + (if held then 1 else 0) = turns_per_call * length (th_todo t) + 2 * n + 1)"

definition budget :: "threads \<Rightarrow> nat \<Rightarrow> bool" where
  "budget s b \<longleftrightarrow> (\<exists>f. (\<forall>i < length (ts_threads s). thread_budget (holds_lock s i) (ts_threads s ! i) (f i)) \<and>
     b = (\<Sum>i < length (ts_threads s). f i))"

lemma budget_step:
  assumes "budget s b" "i < length (ts_threads s)" "length (ts_threads s') = length (ts_threads s)"
    and "\<And>j. j < length (ts_threads s) \<Longrightarrow> j \<noteq> i \<Longrightarrow> ts_threads s' ! j = ts_threads s ! j \<and> holds_lock s' j = holds_lock s j"
    and "\<And>c. thread_budget (holds_lock s i) (ts_threads s ! i) c \<Longrightarrow>
      \<exists>c' < c. thread_budget (holds_lock s' i) (ts_threads s' ! i) c'"
  shows "\<exists>b' < b. budget s' b'"
proof -
  let ?n = "length (ts_threads s)"
  obtain f where f: "\<forall>j < ?n. thread_budget (holds_lock s j) (ts_threads s ! j) (f j)" "b = (\<Sum>j < ?n. f j)"
    using assms(1) by (auto simp: budget_def)
  obtain c' where c': "c' < f i" "thread_budget (holds_lock s' i) (ts_threads s' ! i) c'"
    using assms(2,5) f(1) by blast
  let ?f = "f(i := c')"
  have "\<forall>j < ?n. thread_budget (holds_lock s' j) (ts_threads s' ! j) (?f j)"
    using f(1) c'(2) assms(4) by auto
  moreover have "(\<Sum>j < ?n. ?f j) < (\<Sum>j < ?n. f j)"
    by (rule sum_strict_mono_ex1) (use c'(1) assms(2) in auto)
  ultimately show ?thesis unfolding budget_def f(2) assms(3) by blast
qed

lemma turn_spends:
  assumes "budget s b" "holders_ready s" "thread_turn N i s = Some s'" "\<not> ts_aborted s'"
  shows "\<exists>b' < b. budget s' b'"
proof -
  let ?t = "ts_threads s ! i"
  have i: "i < length (ts_threads s)" using turn_index [OF assms(3)] by simp
  from assms(3) show ?thesis
  proof (cases rule: turn_cases)
    case (start c cs)
    then have idle: "\<not> holds_lock s i" using not_holding [OF assms(2)] by (auto simp: holds_lock_def)
    show ?thesis
    proof (rule budget_step [OF assms(1) i])
      fix d assume "thread_budget (holds_lock s i) ?t d"
      then have d: "d = turns_per_call + turns_per_call * length cs" using start by (simp add: thread_budget_def)
      have "thread_budget (holds_lock s' i) (ts_threads s' ! i) (turns_per_call * length cs + 2007)"
        using idle i within_call [of N c] unfolding start(3)
        by (auto simp: thread_budget_def holds_lock_def intro!: exI [of _ 1003])
      then show "\<exists>c' < d. thread_budget (holds_lock s' i) (ts_threads s' ! i) c'"
        using d by (intro exI [of _ "turns_per_call * length cs + 2007"]) (simp add: turns_per_call_def)
    qed (use i start(3) in \<open>simp_all add: holds_lock_def\<close>)
  next
    case (reply c r)
    then have idle: "\<not> holds_lock s i" using not_holding [OF assms(2)] by (auto simp: holds_lock_def)
    show ?thesis
    proof (rule budget_step [OF assms(1) i])
      fix d assume "thread_budget (holds_lock s i) ?t d"
      then have "turns_per_call * length (th_todo ?t) < d" using reply(1) idle by (auto simp: thread_budget_def)
      then show "\<exists>c' < d. thread_budget (holds_lock s' i) (ts_threads s' ! i) c'"
        using i unfolding reply(2) by (intro exI [of _ "turns_per_call * length (th_todo ?t)"]) (simp add: thread_budget_def)
    qed (use i reply(2) in \<open>simp_all add: holds_lock_def\<close>)
  next
    case (acquire c l m)
    have idle: "\<not> holds_lock s i"
    proof
      assume "holds_lock s i"
      then obtain k where "ts_held s k = Some i" by (auto simp: holds_lock_def)
      then have "k = l" using not_holding [OF assms(2), of i k] acquire(1) by fastforce
      with acquire(2) \<open>ts_held s k = Some i\<close> show False by simp
    qed
    show ?thesis
    proof (rule budget_step [OF assms(1) i])
      have now: "holds_lock s' i" using acquire(3) by (auto simp: holds_lock_def)
      fix d assume "thread_budget (holds_lock s i) ?t d"
      then obtain n where n: "within n (Piece (Some l) m)" "d = turns_per_call * length (th_todo ?t) + 2 * n + 1"
        using acquire(1) idle by (auto simp: thread_budget_def)
      then show "\<exists>c' < d. thread_budget (holds_lock s' i) (ts_threads s' ! i) c'"
        using now acquire(1,3) by (intro exI [of _ "d - 1"]) (auto simp: thread_budget_def)
    next
      fix j assume j: "j < length (ts_threads s)" "j \<noteq> i"
      have "ts_held s' k = Some j \<longleftrightarrow> ts_held s k = Some j" for k using acquire(2,3) j(2) by auto
      then show "ts_threads s' ! j = ts_threads s ! j \<and> holds_lock s' j = holds_lock s j"
        using acquire(3) by (simp add: holds_lock_def)
    qed (use acquire(3) in simp)
  next
    case (run c l m)
    obtain r w where m: "m ((ts_world s)\<lparr>nw_caller := th_caller ?t\<rparr>) = (r, w)"
      by (cases "m ((ts_world s)\<lparr>nw_caller := th_caller ?t\<rparr>)")
    then obtain st where r: "r = Ok st"
      using assms(4) run(3) by (cases r) (auto simp: run_now_def)
    have s': "s' = set_thread i (?t\<lparr>th_now := Some (c, st), th_caller := nw_caller w\<rparr>)
        (s\<lparr>ts_world := w, ts_held := release l (ts_held s)\<rparr>)"
      using run(3) m r by (simp add: run_now_def)
    have mine: "ts_held s k = Some i \<Longrightarrow> l = Some k" for k
      using not_holding [OF assms(2), of i k] run(1) by fastforce
    then have free: "\<not> holds_lock s' i"
      using i by (cases l) (auto simp: s' holds_lock_def release_def split: if_splits)
    show ?thesis
    proof (rule budget_step [OF assms(1) i])
      fix d assume "thread_budget (holds_lock s i) ?t d"
      then obtain n where n: "within n (Piece l m)" "turns_per_call * length (th_todo ?t) + 2 * n \<le> d"
        using run(1) by (auto simp: thread_budget_def split: if_splits)
      from n(1) obtain k where k: "n = Suc k" "within k st" using m [unfolded r] by (cases rule: within_pieceE) auto
      have "thread_budget (holds_lock s' i) (ts_threads s' ! i) (turns_per_call * length (th_todo ?t) + 2 * k + 1)"
        using i k(2) free by (auto simp: s' thread_budget_def holds_lock_def)
      then show "\<exists>c' < d. thread_budget (holds_lock s' i) (ts_threads s' ! i) c'"
        using n(2) k(1) by (intro exI [of _ "turns_per_call * length (th_todo ?t) + 2 * k + 1"]) simp
    next
      fix j assume j: "j < length (ts_threads s)" "j \<noteq> i"
      have "release l (ts_held s) k = Some j \<longleftrightarrow> ts_held s k = Some j" for k
        using run(2) j(2) by (cases l) (auto simp: release_def)
      then show "ts_threads s' ! j = ts_threads s ! j \<and> holds_lock s' j = holds_lock s j"
        using i j by (simp add: s' holds_lock_def)
    qed (simp add: s')
  qed
qed

section \<open>No thread is stuck\<close>

definition finished :: "thread \<Rightarrow> bool" where
  "finished t \<longleftrightarrow> th_todo t = [] \<and> th_now t = None"

text \<open>A thread that cannot go on is finished or waits for one that can.\<close>

lemma turn_or_wait:
  assumes "\<not> ts_aborted s" "i < length (ts_threads s)" "\<not> finished (ts_threads s ! i)"
  shows "thread_turn N i s \<noteq> None \<or> (\<exists>l j. j \<noteq> i \<and> ts_held s l = Some j)"
  using assms
  by (auto simp: thread_turn_def finished_def Let_def split: option.split list.split stage.split)

lemma holder_can_turn:
  assumes "\<not> ts_aborted s" "holders_ready s" "ts_held s l = Some j"
  shows "thread_turn N j s \<noteq> None"
proof -
  obtain c m where "j < length (ts_threads s)" "th_now (ts_threads s ! j) = Some (c, Piece (Some l) m)"
    using assms(2,3) unfolding holders_ready_def by blast
  then show ?thesis using assms(1,3) by (simp add: thread_turn_def Let_def)
qed

lemma some_turn:
  assumes "\<not> ts_aborted s" "holders_ready s" "i < length (ts_threads s)" "\<not> finished (ts_threads s ! i)"
  shows "\<exists>j < length (ts_threads s). thread_turn N j s \<noteq> None"
  using turn_or_wait [OF assms(1,3,4), of N] holder_can_turn [OF assms(1,2), of _ _ N] assms(2,3)
  unfolding holders_ready_def by blast

text \<open>The calls of a thread are those it has done, the one under way and those to come, in order.\<close>

definition calls_of :: "thread \<Rightarrow> nss_call list" where
  "calls_of t = map fst (th_done t) @ (case th_now t of None \<Rightarrow> [] | Some (c, _) \<Rightarrow> [c]) @ th_todo t"

lemma turn_calls:
  assumes "thread_turn N i s = Some s'"
  shows "map calls_of (ts_threads s') = map calls_of (ts_threads s)"
proof -
  have i: "i < length (ts_threads s)" using turn_index [OF assms] by simp
  have set: "map calls_of (ts_threads (set_thread i t u)) = map calls_of (ts_threads s)"
    if "calls_of t = calls_of (ts_threads s ! i)" "ts_threads u = ts_threads s" for t u
  proof -
    have "(map calls_of (ts_threads s))[i := calls_of t] = map calls_of (ts_threads s)"
      using i by (simp add: that(1) list_update_same_conv)
    then show ?thesis by (simp add: set_thread_def map_update that(2))
  qed
  from assms show ?thesis
  proof (cases rule: turn_cases)
    case (run c l m)
    then show ?thesis by (auto simp: run_now_def calls_of_def split: prod.split outcome.split intro!: set)
  qed (auto simp: calls_of_def intro!: set)
qed

section \<open>Rounds\<close>

lemma run_aborted: "ts_aborted s \<Longrightarrow> run_threads N sched s = s"
  by (induction sched) (auto simp: thread_turn_def)

lemma run_spends:
  assumes "budget s b" "holders_ready s" "\<not> ts_aborted (run_threads N sched s)"
  shows "\<exists>b' \<le> b. budget (run_threads N sched s) b'"
  using assms
proof (induction sched arbitrary: s b)
  case (Cons i sched)
  show ?case
  proof (cases "thread_turn N i s")
    case (Some s')
    have "\<not> ts_aborted s'" using Cons.prems(3) Some run_aborted by auto
    from turn_spends [OF Cons.prems(1,2) Some this] obtain c where c: "c < b" "budget s' c" by blast
    have run: "run_threads N (i # sched) s = run_threads N sched s'" by (simp add: Some)
    from Cons.IH [OF c(2) holders_ready_turn [OF Cons.prems(2) Some]] Cons.prems(3) obtain d
      where "d \<le> c" "budget (run_threads N sched s') d" unfolding run by blast
    then show ?thesis using c(1) unfolding run by (intro exI [of _ d]) simp
  qed (use Cons in auto)
qed auto

lemma round_spends:
  assumes "budget s b" "holders_ready s" "\<not> ts_aborted (run_threads N sched s)"
    and "j \<in> set sched" "thread_turn N j s \<noteq> None"
  shows "\<exists>b' < b. budget (run_threads N sched s) b'"
  using assms
proof (induction sched)
  case (Cons i sched)
  show ?case
  proof (cases "thread_turn N i s")
    case (Some s')
    have "\<not> ts_aborted s'" using Cons.prems(3) Some run_aborted by auto
    from turn_spends [OF Cons.prems(1,2) Some this] obtain c where c: "c < b" "budget s' c" by blast
    have run: "run_threads N (i # sched) s = run_threads N sched s'" by (simp add: Some)
    from run_spends [OF c(2) holders_ready_turn [OF Cons.prems(2) Some], of N sched] Cons.prems(3) obtain d
      where "d \<le> c" "budget (run_threads N sched s') d" unfolding run by blast
    then show ?thesis using c(1) unfolding run by (intro exI [of _ d]) simp
  qed (use Cons in auto)
qed simp

text \<open>In a fair round every thread has a turn.\<close>

definition fair_rounds :: "nat \<Rightarrow> nat list list \<Rightarrow> bool" where
  "fair_rounds n rs \<longleftrightarrow> list_all (\<lambda>r. {..< n} \<subseteq> set r) rs"

lemma run_length: "length (ts_threads (run_threads N sched s)) = length (ts_threads s)"
proof (induction sched arbitrary: s)
  case (Cons i sched)
  have "length (ts_threads s') = length (ts_threads s)" if "thread_turn N i s = Some s'" for s'
    using arg_cong [OF turn_calls [OF that], of length] by simp
  with Cons show ?case by (auto split: option.split)
qed simp

lemma run_calls_of: "map calls_of (ts_threads (run_threads N sched s)) = map calls_of (ts_threads s)"
  by (induction sched arbitrary: s) (auto split: option.split simp: turn_calls)

lemma run_holders: "holders_ready s \<Longrightarrow> holders_ready (run_threads N sched s)"
  by (rule run_threads_invariant [of holders_ready]) (rule holders_ready_turn)

lemma finished_turn: "finished (ts_threads s ! i) \<Longrightarrow> thread_turn N i s = None"
  by (simp add: thread_turn_def finished_def)

lemma run_finished:
  assumes "\<forall>i < length (ts_threads s). finished (ts_threads s ! i)"
  shows "run_threads N sched s = s"
proof -
  have "thread_turn N i s = None" for i
    using assms finished_turn [of s i N] by (cases "i < length (ts_threads s)") (auto simp: thread_turn_def)
  then show ?thesis by (induction sched) simp_all
qed

lemma unfinished_costs:
  assumes "budget s b" "holders_ready s" "i < length (ts_threads s)" "\<not> finished (ts_threads s ! i)"
  shows "0 < b"
proof -
  obtain f where f: "\<forall>j < length (ts_threads s). thread_budget (holds_lock s j) (ts_threads s ! j) (f j)"
    "b = (\<Sum>j < length (ts_threads s). f j)" using assms(1) by (auto simp: budget_def)
  have mine: "thread_budget (holds_lock s i) (ts_threads s ! i) (f i)" using f(1) assms(3) by blast
  have "0 < f i"
  proof (cases "th_now (ts_threads s ! i)")
    case None
    then show ?thesis using mine assms(4) by (auto simp: thread_budget_def finished_def turns_per_call_def)
  next
    case (Some p)
    obtain c st where p: "p = (c, st)" by (cases p)
    show ?thesis
    proof (cases "holds_lock s i")
      case True
      then obtain l m where "st = Piece (Some l) m"
        using assms(2) Some p unfolding holds_lock_def holders_ready_def by fastforce
      then obtain n where n: "within n (Piece (Some l) m)" "f i + 1 = turns_per_call * length (th_todo (ts_threads s ! i)) + 2 * n + 1"
        using mine Some p True by (auto simp: thread_budget_def)
      from n(1) obtain k where "n = Suc k" by (cases rule: within_pieceE) blast
      with n(2) show ?thesis by simp
    qed (use mine Some p in \<open>auto simp: thread_budget_def\<close>)
  qed
  also have "f i \<le> b" unfolding f(2) by (rule member_le_sum) (use assms(3) in auto)
  finally show ?thesis .
qed

lemma rounds_finish:
  assumes "budget s b" "holders_ready s" "b \<le> length rs" "fair_rounds (length (ts_threads s)) rs"
    and "\<not> ts_aborted (run_threads N (concat rs) s)" "i < length (ts_threads s)"
  shows "finished (ts_threads (run_threads N (concat rs) s) ! i)"
  using assms
proof (induction rs arbitrary: s b)
  case Nil
  then show ?case using unfinished_costs [OF Nil(1,2,6)] by auto
next
  case (Cons r rs)
  let ?n = "length (ts_threads s)" and ?r = "run_threads N r s"
  show ?case
  proof (cases "\<forall>j < ?n. finished (ts_threads s ! j)")
    case True
    then show ?thesis using run_finished [OF True] Cons.prems(6) by simp
  next
    case False
    have whole: "run_threads N (concat (r # rs)) s = run_threads N (concat rs) ?r"
      by (simp add: run_threads_append)
    have calm: "\<not> ts_aborted s" "\<not> ts_aborted ?r"
      using Cons.prems(5) run_aborted [of s N] run_aborted [of ?r N] unfolding whole by auto
    obtain m where "m < ?n" "\<not> finished (ts_threads s ! m)" using False by blast
    from some_turn [OF calm(1) Cons.prems(2) this, of N] obtain j where j: "j < ?n" "thread_turn N j s \<noteq> None"
      by blast
    have "j \<in> set r" using Cons.prems(4) j(1) by (auto simp: fair_rounds_def)
    from round_spends [OF Cons.prems(1,2) calm(2) this j(2)] obtain c where c: "c < b" "budget ?r c" by blast
    show ?thesis
      unfolding whole
      by (rule Cons.IH [OF c(2) run_holders [OF Cons.prems(2)]])
        (use c(1) Cons.prems whole run_length in \<open>auto simp: fair_rounds_def\<close>)
  qed
qed

text \<open>From the start: every call of every thread is answered, in order.\<close>

lemma new_holders: "holders_ready (new_threads w work)"
  by (simp add: holders_ready_def new_threads_def)

definition all_turns :: "(nss_call list \<times> caller) list \<Rightarrow> nat" where
  "all_turns work = turns_per_call * (\<Sum>(cs, c) \<leftarrow> work. length cs)"

lemma new_budget: "budget (new_threads w work) (all_turns work)"
proof -
  have "(\<Sum>(cs, c) \<leftarrow> work. length cs) = (\<Sum>i < length work. length (fst (work ! i)))"
    by (simp add: sum_list_sum_nth atLeast0LessThan split_def)
  then show ?thesis
    unfolding budget_def all_turns_def
    by (intro exI [of _ "\<lambda>i. turns_per_call * length (fst (work ! i))"])
      (auto simp: new_threads_def thread_budget_def split_def sum_distrib_left)
qed

lemma rounds_answer:
  assumes "all_turns work \<le> length rs" "fair_rounds (length work) rs" "\<not> ts_aborted (run_threads N (concat rs) (new_threads w work))"
    and "i < length work"
  shows "map fst (th_done (ts_threads (run_threads N (concat rs) (new_threads w work)) ! i)) = fst (work ! i)"
proof -
  let ?s = "new_threads w work" and ?t = "run_threads N (concat rs) (new_threads w work)"
  have len: "length (ts_threads ?s) = length work" by (simp add: new_threads_def)
  have "finished (ts_threads ?t ! i)"
    using rounds_finish [OF new_budget [of w] new_holders assms(1), of N i] assms(2,3,4) len by simp
  moreover have "calls_of (ts_threads ?t ! i) = calls_of (ts_threads ?s ! i)"
    using arg_cong [OF run_calls_of, of "\<lambda>xs. xs ! i" N "concat rs" ?s] assms(4) len run_length [of N "concat rs" ?s]
    by simp
  ultimately show ?thesis using assms(4) by (simp add: finished_def calls_of_def new_threads_def split_def)
qed

end
