(* ===== verification/Thread_Safety.thy ===== *)
theory Thread_Safety
  imports Thread_Progress
begin

text \<open>
  What holds in every interleaving of the threads of a process. The interface \<open>nss_threads\<close> is the
  one of the sequential calls, for every thread, together with what makes threads independent: the
  shared part of the invariant does not speak of the pointers of a thread, and it survives every
  single request of a listing. Its two interpretations carry the safety of the module and the ranges
  of the ids it shows over to threads.
\<close>

section \<open>Pieces that keep an invariant\<close>

inductive stage_safe :: "(nss_world \<Rightarrow> bool) \<Rightarrow> (nss_reply \<Rightarrow> caller \<Rightarrow> bool) \<Rightarrow> stage \<Rightarrow> caller \<Rightarrow> bool"
  for I Q
where
  safe_reply: "Q r c \<Longrightarrow> stage_safe I Q (Reply r) c"
| safe_piece: "(\<And>w. I w \<Longrightarrow> \<exists>st w'. m w = (Ok st, w') \<and> I w' \<and> stage_safe I Q st (nw_caller w')) \<Longrightarrow>
    stage_safe I Q (Piece l m) c"

inductive_cases safe_replyE: "stage_safe I Q (Reply r) c"
inductive_cases safe_pieceE: "stage_safe I Q (Piece l m) c"

lemma safe_piece_of:
  assumes "replies I m R" "\<And>a w. R a w \<Longrightarrow> stage_safe I Q (k a) (nw_caller w)"
  shows "stage_safe I Q (piece l m k) c"
  unfolding piece_def
proof (rule safe_piece)
  fix w assume "I w"
  with assms(1) obtain a w' where "m w = (Ok a, w')" "I w'" "R a w'" by (rule repliesE)
  then show "\<exists>st w'. bindp m (\<lambda>a. ret (k a)) w = (Ok st, w') \<and> I w' \<and> stage_safe I Q st (nw_caller w')"
    using assms(2) by (auto simp: bindp_run ret_run)
qed

lemma safe_case:
  assumes "stage_safe I Q p cl" "\<And>n. stage_safe I Q (f n) cl"
  shows "stage_safe I Q (case x of None \<Rightarrow> p | Some n \<Rightarrow> f n) cl"
  using assms by (cases x) simp_all

lemma safe_fetch:
  assumes "\<And>start. serves I (get_json H (decode_list_response dec) (page_request c resource start)) (\<lambda>_ _. True)"
    and "\<And>x cl. stage_safe I Q (k x) cl"
  shows "stage_safe I Q (fetch_stages H c dec resource pages start all k) cl"
proof (induction pages arbitrary: start all cl)
  case (Suc pages)
  have "replies I (matchp (get_json H (decode_list_response dec) (page_request c resource start))
      (\<lambda>resp. ret (Some resp)) (\<lambda>_. ret None)) (\<lambda>_ _. True)"
    by (rule replies_matchp [OF assms(1)]) (simp_all add: replies_ret)
  from safe_piece_of [OF this] Suc assms(2) show ?case
    by (auto simp: Let_def split: option.split)
qed (simp add: assms(2))

section \<open>The interface\<close>

text \<open>\<open>shared\<close> is the part of the invariant about what the threads share, \<open>own i\<close> the one about what the
  pointers of thread \<open>i\<close> reach.\<close>

locale nss_threads =
  fixes N :: proc_env
    and ns :: nss_state
    and shared :: "nss_world \<Rightarrow> bool"
    and own :: "nat \<Rightarrow> caller \<Rightarrow> bool"
    and good_user :: "user \<Rightarrow> bool"
    and good_group :: "group \<Rightarrow> bool"
    and good_gid :: "u32 \<Rightarrow> bool"
    and good_buf :: "nat \<Rightarrow> nat \<Rightarrow> nat \<Rightarrow> bool"
  assumes service: "nss_service N ns (\<lambda>w. shared w \<and> own i (nw_caller w)) good_user good_group good_gid (good_buf i)"
    and shared_caller: "shared (w\<lparr>nw_caller := c\<rparr>) = shared w"
    and user_page: "serves (\<lambda>w. shared w \<and> own i (nw_caller w)) (get_json (env_http (pe_env N))
      (decode_list_response decode_scim_user) (page_request (ns_scim ns) ''Users'' start)) (\<lambda>_ _. True)"
    and group_page: "serves (\<lambda>w. shared w \<and> own i (nw_caller w)) (get_json (env_http (pe_env N))
      (decode_list_response decode_scim_group) (page_request (ns_scim ns) ''Groups'' start)) (\<lambda>_ _. True)"
begin

abbreviation inv_of :: "nat \<Rightarrow> nss_world \<Rightarrow> bool" where
  "inv_of i w \<equiv> shared w \<and> own i (nw_caller w)"

definition good_reply :: "nss_call \<Rightarrow> nss_reply \<Rightarrow> caller \<Rightarrow> bool" where
  "good_reply c r cl \<longleftrightarrow> (\<forall>w. nw_caller w = cl \<longrightarrow> nss_service.shows_good good_user good_group good_gid c r w)"

definition good_call :: "nat \<Rightarrow> nss_call \<Rightarrow> bool" where
  "good_call i c \<longleftrightarrow> pred_option (\<lambda>(buf, len). good_buf i buf len) (call_buffer c)"

text \<open>The head of a lookup knows the state and holds the mutex.\<close>

lemma safe_state:
  assumes "\<And>cl. stage_safe (inv_of i) Q (k (Some ns)) cl"
  shows "stage_safe (inv_of i) Q (piece l (get_state N) k) cl"
proof (rule safe_piece_of)
  show "replies (inv_of i) (get_state N) (\<lambda>st _. st = Some ns)"
    using nss_service.known [OF service, of _ i] by (auto simp: replies_def get_state_known)
qed (use assms in simp)

lemma safe_service:
  assumes "replies (inv_of i) unavail R" "replies (inv_of i) (body (ns_service ns)) R"
    and "\<And>a w. R a w \<Longrightarrow> stage_safe (inv_of i) Q (k a) (nw_caller w)"
  shows "stage_safe (inv_of i) Q (service_stages N unavail body k) cl"
  unfolding service_stages_def
  by (rule safe_state, simp, rule safe_piece_of [OF nss_service.replies_unless_poisoned [OF service assms(1,2)] assms(3)])

lemma safe_import:
  assumes "\<And>r. replies (inv_of i) (import_one r) (\<lambda>x _. pred_option good x)"
    and "\<And>w vs. inv_of i w \<Longrightarrow> \<forall>v \<in> set vs. good v \<Longrightarrow> inv_of i (publish vs w)"
    and "\<And>st cl. Q (st, None) cl"
  shows "stage_safe (inv_of i) Q (import_stages import_one l publish rs) cl"
proof -
  have plain: "stage_safe (inv_of i) Q (plain st) cl" for st cl
    unfolding plain_def by (rule safe_reply) (rule assms(3))
  let ?R = "\<lambda>x (_ :: nss_world). pred_option (\<lambda>vs. \<forall>v \<in> set vs. good v) x"
  have none: "replies (inv_of i) (ret None) ?R" by (simp add: replies_ret)
  have vs: "replies (inv_of i) (bindp (collectp import_one rs) (\<lambda>vs. ret (Some (List.map_filter (\<lambda>v. v) vs)))) ?R"
    by (rule replies_bindp [OF replies_collectp [OF assms(1)]])
      (rule replies_ret, simp only: option.pred_inject, rule nss_service.good_entries [OF service])
  have last: "stage_safe (inv_of i) Q (piece (Some l) (\<lambda>w. ret Success (publish vs w)) plain) cl"
    if "\<forall>v \<in> set vs. good v" for vs cl
  proof (rule safe_piece_of)
    show "replies (inv_of i) (\<lambda>w. ret Success (publish vs w)) (\<lambda>_ _. True)"
      using assms(2) that by (simp add: replies_def ret_def)
  qed (rule plain)
  show ?thesis
    unfolding import_stages_def
    by (rule safe_piece_of [OF nss_service.replies_unless_poisoned [OF service none vs]])
      (auto intro: plain last split: option.split)
qed

text \<open>What a reply shows depends on the pointers of the thread alone.\<close>

lemmas shown_defs = nss_service.shows_good.simps [OF service] nss_service.shows_good_user_def [OF service]
  nss_service.shows_good_group_def [OF service]

lemma shown_same:
  assumes "nw_caller v = nw_caller w"
  shows "nss_service.shows_good good_user good_group good_gid c r v =
      nss_service.shows_good good_user good_group good_gid c r w"
proof -
  obtain st a where r: "r = (st, a)" by (cases r)
  show ?thesis unfolding r by (cases c; cases a) (simp_all only: shown_defs assms)
qed

lemma reply_shown:
  "nss_service.shows_good good_user good_group good_gid c r w \<Longrightarrow> good_reply c r (nw_caller w)"
  using shown_same unfolding good_reply_def by blast

lemma safe_plain:
  assumes "nss_service.shows_good good_user good_group good_gid c (st, None) w"
  shows "stage_safe (inv_of i) (good_reply c) (plain st) (nw_caller w)"
  unfolding plain_def by (rule safe_reply) (rule reply_shown [OF assms])

lemma safe_status:
  assumes "\<And>w. nss_service.shows_good good_user good_group good_gid c (st, None) w"
  shows "stage_safe (inv_of i) (good_reply c) (piece l (reply_status st) plain) cl"
proof (rule safe_piece_of)
  show "replies (inv_of i) (reply_status st) (\<lambda>a _. a = st)"
    using nss_service.set_errno [OF service, of _ i] by (simp add: replies_def reply_status_def ret_def)
qed (use safe_plain [OF assms] in simp)

lemma safe_answer:
  assumes "good_buf i b l"
  shows "serves (inv_of i) m (\<lambda>x _. pred_option good_user x) \<Longrightarrow>
      replies (inv_of i) (answer_user m b l) (nss_service.shows_good_user good_user)"
    and "serves (inv_of i) n (\<lambda>x _. pred_option good_group x) \<Longrightarrow>
      replies (inv_of i) (answer_group n b l) (nss_service.shows_good_group good_group)"
proof -
  assume m: "serves (inv_of i) m (\<lambda>x _. pred_option good_user x)"
  show "replies (inv_of i) (answer_user m b l) (nss_service.shows_good_user good_user)"
    unfolding answer_user_def
    by (rule nss_service.replies_found [OF service m nss_service.replies_fill_user [OF service _ assms]])
      (simp_all add: shown_defs)
next
  assume n: "serves (inv_of i) n (\<lambda>x _. pred_option good_group x)"
  show "replies (inv_of i) (answer_group n b l) (nss_service.shows_good_group good_group)"
    unfolding answer_group_def
    by (rule nss_service.replies_found [OF service n nss_service.replies_fill_group [OF service _ assms]])
      (simp_all add: shown_defs)
qed

lemma unavail:
  "(\<And>w. R Unavail w) \<Longrightarrow> replies (inv_of i) (reply_status Unavail) R"
  by (rule nss_service.replies_reply [OF service])

lemma safe_user_lookup:
  assumes "good_buf i b l" "\<And>svc. svc = ns_service ns \<Longrightarrow> serves (inv_of i) (m svc) (\<lambda>x _. pred_option good_user x)"
    and "\<And>st w. nss_service.shows_good_user good_user st w \<Longrightarrow> nss_service.shows_good good_user good_group good_gid c (st, None) w"
  shows "stage_safe (inv_of i) (good_reply c)
    (service_stages N (reply_status Unavail) (\<lambda>svc. answer_user (m svc) b l) plain) cl"
  by (rule safe_service [OF unavail safe_answer(1) [OF assms(1,2)] safe_plain [OF assms(3)]])
    (simp_all add: shown_defs)

lemma safe_group_lookup:
  assumes "good_buf i b l" "\<And>svc. svc = ns_service ns \<Longrightarrow> serves (inv_of i) (m svc) (\<lambda>x _. pred_option good_group x)"
    and "\<And>st w. nss_service.shows_good_group good_group st w \<Longrightarrow> nss_service.shows_good good_user good_group good_gid c (st, None) w"
  shows "stage_safe (inv_of i) (good_reply c)
    (service_stages N (reply_status Unavail) (\<lambda>svc. answer_group (m svc) b l) plain) cl"
  by (rule safe_service [OF unavail safe_answer(2) [OF assms(1,2)] safe_plain [OF assms(3)]])
    (simp_all add: shown_defs)

lemma safe_array:
  assumes "nss_service.gids_good good_gid a r w"
  shows "stage_safe (inv_of i) (good_reply (InitgroupsDyn u p a limit)) (with_array r) (nw_caller w)"
  unfolding with_array_def
  by (rule safe_reply, rule reply_shown) (use assms in \<open>simp add: shown_defs nss_service.gids_good_def [OF service]\<close>)

lemma safe_initgroups:
  "stage_safe (inv_of i) (good_reply (InitgroupsDyn u p a limit)) (call_stages N (InitgroupsDyn u p a limit)) cl"
proof -
  note gids = nss_service.replies_gids [OF service, of i _ p a, folded answer_gids_def]
  have none: "stage_safe (inv_of i) (good_reply (InitgroupsDyn u p a limit))
      (piece l (bindp (reply_status NotFound) (\<lambda>s. ret (s, a))) with_array) cl" for l cl
    by (rule safe_piece_of [OF nss_service.replies_same_gids [OF service] safe_array])
  show ?thesis
    unfolding call_stages.simps
    by (rule safe_case [OF none], rule safe_service, rule nss_service.replies_same_gids [OF service], rule gids, rule safe_array)
qed

lemma safe_setent:
  "stage_safe (inv_of i) (good_reply Setpwent) (call_stages N Setpwent) cl"
  "stage_safe (inv_of i) (good_reply Setgrent) (call_stages N Setgrent) cl"
proof -
  have any: "good_reply c (st, None) cl" if "c = Setpwent \<or> c = Setgrent" for c st cl
    using that by (auto simp: good_reply_def shown_defs)
  then have plain: "stage_safe (inv_of i) (good_reply c) (plain st) cl" if "c = Setpwent \<or> c = Setgrent" for c st cl
    using that unfolding plain_def by (intro safe_reply) simp
  have users: "inv_of i (publish_users vs w)" if "inv_of i w" "\<forall>v \<in> set vs. good_user v" for vs w
    using nss_service.set_enum [OF service that, of 0] that by (simp add: publish_users_def)
  have groups: "inv_of i (publish_groups vs w)" if "inv_of i w" "\<forall>v \<in> set vs. good_group v" for vs w
    using nss_service.set_group_enum [OF service that, of 0] that by (simp add: publish_groups_def)
  have listed: "stage_safe (inv_of i) (good_reply Setpwent) (case x of None \<Rightarrow> plain Unavail
      | Some rs \<Rightarrow> import_stages (enum_user (pe_env N) (ns_service ns)) UserEnumLock publish_users rs) cl" for x cl
    by (rule safe_case, rule plain, simp, rule safe_import, rule nss_service.entry [OF service], rule users, assumption+, rule any, simp)
  have glisted: "stage_safe (inv_of i) (good_reply Setgrent) (case x of None \<Rightarrow> plain Unavail
      | Some rs \<Rightarrow> import_stages (enum_group (pe_env N) (ns_service ns)) GroupEnumLock publish_groups rs) cl" for x cl
    by (rule safe_case, rule plain, simp, rule safe_import, rule nss_service.group_entry [OF service], rule groups, assumption+, rule any, simp)
  show "stage_safe (inv_of i) (good_reply Setpwent) (call_stages N Setpwent) cl"
    "stage_safe (inv_of i) (good_reply Setgrent) (call_stages N Setgrent) cl"
    unfolding call_stages.simps setent_stages_def
    by (rule safe_state, simp only: option.case, rule safe_fetch, rule user_page group_page, rule listed glisted)+
qed

lemma call_safe:
  assumes "good_call i c"
  shows "stage_safe (inv_of i) (good_reply c) (call_stages N c) cl"
proof (cases c)
  case (Getpwnam n b l)
  then have b: "good_buf i b l" using assms by (simp add: good_call_def)
  show ?thesis
    unfolding Getpwnam call_stages.simps
    by (rule safe_case, rule safe_status, simp add: shown_defs, rule safe_user_lookup [OF b])
      (simp_all add: nss_service.by_name [OF service] shown_defs)
next
  case (Getpwuid u b l)
  then have b: "good_buf i b l" using assms by (simp add: good_call_def)
  show ?thesis
    unfolding Getpwuid call_stages.simps
    by (rule safe_user_lookup [OF b]) (simp_all add: nss_service.by_uid [OF service] shown_defs)
next
  case (Getgrnam n b l)
  then have b: "good_buf i b l" using assms by (simp add: good_call_def)
  show ?thesis
    unfolding Getgrnam call_stages.simps
    by (rule safe_case, rule safe_status, simp add: shown_defs, rule safe_group_lookup [OF b])
      (simp_all add: nss_service.group_name [OF service] shown_defs)
next
  case (Getgrgid u b l)
  then have b: "good_buf i b l" using assms by (simp add: good_call_def)
  show ?thesis
    unfolding Getgrgid call_stages.simps
    by (rule safe_group_lookup [OF b]) (simp_all add: nss_service.group_gid [OF service] shown_defs)
next
  case (InitgroupsDyn u p a limit)
  show ?thesis unfolding InitgroupsDyn by (rule safe_initgroups)
next
  case (Getpwent b l)
  then have b: "good_buf i b l" using assms by (simp add: good_call_def)
  show ?thesis
    unfolding Getpwent call_stages.simps
    by (rule safe_piece_of [OF nss_service.replies_getpwent [OF service b] safe_plain]) (simp add: shown_defs)
next
  case (Getgrent b l)
  then have b: "good_buf i b l" using assms by (simp add: good_call_def)
  show ?thesis
    unfolding Getgrent call_stages.simps
    by (rule safe_piece_of [OF nss_service.replies_getgrent [OF service b] safe_plain]) (simp add: shown_defs)
next
  case Endpwent
  show ?thesis
    unfolding Endpwent call_stages.simps
    by (rule safe_piece_of [OF nss_service.replies_endent(1) [OF service] safe_plain]) (simp add: shown_defs)
next
  case Endgrent
  show ?thesis
    unfolding Endgrent call_stages.simps
    by (rule safe_piece_of [OF nss_service.replies_endent(2) [OF service] safe_plain]) (simp add: shown_defs)
qed (simp_all only: safe_setent)

text \<open>Every interleaving.\<close>

definition thread_ok :: "nat \<Rightarrow> thread \<Rightarrow> bool" where
  "thread_ok i t \<longleftrightarrow> own i (th_caller t) \<and> (\<forall>c \<in> set (th_todo t). good_call i c) \<and>
     (\<forall>(c, r, cl) \<in> set (th_done t). good_reply c r cl) \<and>
     (case th_now t of None \<Rightarrow> True | Some (c, st) \<Rightarrow> stage_safe (inv_of i) (good_reply c) st (th_caller t))"

definition threads_ok :: "threads \<Rightarrow> bool" where
  "threads_ok s \<longleftrightarrow> \<not> ts_aborted s \<and> shared (ts_world s) \<and> (\<forall>i < length (ts_threads s). thread_ok i (ts_threads s ! i))"

lemma threads_ok_turn:
  assumes "threads_ok s" "thread_turn N i s = Some s'"
  shows "threads_ok s'"
proof -
  let ?t = "ts_threads s ! i"
  have i: "i < length (ts_threads s)" using turn_index [OF assms(2)] by simp
  then have t: "thread_ok i ?t" using assms(1) by (simp add: threads_ok_def)
  have set: "threads_ok (set_thread i u v)"
    if "thread_ok i u" "shared (ts_world v)" "ts_threads v = ts_threads s" "\<not> ts_aborted v" for u v
    using assms(1) i that by (auto simp: threads_ok_def)
  have calm: "shared (ts_world s)" "\<not> ts_aborted s" using assms(1) by (simp_all add: threads_ok_def)
  from assms(2) show ?thesis
  proof (cases rule: turn_cases)
    case (start c cs)
    then have "thread_ok i (?t\<lparr>th_todo := cs, th_now := Some (c, call_stages N c)\<rparr>)"
      using t call_safe [of i c] by (simp add: thread_ok_def)
    then show ?thesis unfolding start(3) by (rule set) (simp_all add: calm)
  next
    case (reply c r)
    then have "good_reply c r (th_caller ?t)" using t by (auto simp: thread_ok_def elim: safe_replyE)
    then have "thread_ok i (?t\<lparr>th_now := None, th_done := th_done ?t @ [(c, r, th_caller ?t)]\<rparr>)"
      using t by (auto simp: thread_ok_def)
    then show ?thesis unfolding reply(2) by (rule set) (simp_all add: calm)
  next
    case (acquire c l m)
    then show ?thesis using assms(1) by (simp add: threads_ok_def)
  next
    case (run c l m)
    let ?w = "(ts_world s)\<lparr>nw_caller := th_caller ?t\<rparr>"
    have "stage_safe (inv_of i) (good_reply c) (Piece l m) (th_caller ?t)" "inv_of i ?w"
      using t run(1) calm(1) by (simp_all add: thread_ok_def shared_caller)
    then obtain st w where m: "m ?w = (Ok st, w)" "inv_of i w" "stage_safe (inv_of i) (good_reply c) st (nw_caller w)"
      by (elim safe_pieceE) blast
    then have "thread_ok i (?t\<lparr>th_now := Some (c, st), th_caller := nw_caller w\<rparr>)"
      using t by (simp add: thread_ok_def)
    then show ?thesis unfolding run(3) run_now_def m(1) using m(2) calm(2) by (auto intro: set)
  qed
qed

lemma threads_stay_ok:
  assumes "shared w" "\<And>i. i < length work \<Longrightarrow> own i (snd (work ! i)) \<and> (\<forall>c \<in> set (fst (work ! i)). good_call i c)"
  shows "threads_ok (run_threads N sched (new_threads w work))"
proof -
  have "threads_ok (new_threads w work)"
    using assms by (auto simp: threads_ok_def thread_ok_def new_threads_def split_def)
  with threads_ok_turn show ?thesis by (rule run_threads_invariant [of threads_ok])
qed

end

section \<open>The module stays safe\<close>

definition shared_safe :: "proc_env \<Rightarrow> nss_state \<Rightarrow> nat \<times> nat \<Rightarrow> nss_world \<Rightarrow> bool" where
  "shared_safe N ns n w \<longleftrightarrow> well_configured ns \<and> nw_state w = Some (Some ns) \<and> tables_ok (pe_env N) w \<and>
     sent_since (env_http (pe_env N)) n (own_request (sv_scim (ns_service ns))) w"

lemma shared_safe_split:
  "(\<lambda>w. well_configured ns \<and> module_safe N ns n m lo hi w) =
   (\<lambda>w. shared_safe N ns n w \<and> same_outside lo hi m (mem (nw_caller w)))"
  by (auto simp: fun_eq_iff shared_safe_def module_safe_def in_place_def)

lemma page_serves:
  assumes "\<And>w dt rq. P w \<Longrightarrow> own_request c rq \<Longrightarrow> P (w\<lparr>sent := sent w @ [rq],
    redirected := redirected w @ he_redirects H (sent w) rq, mono := mono w + dt\<rparr>)"
  shows "serves P (get_json H (decode_list_response dec) (page_request c resource start)) (\<lambda>_ _. True)"
proof (rule servesI)
  fix w r w' assume w: "P w" and run: "get_json H (decode_list_response dec) (page_request c resource start) w = (r, w')"
  have "own_request c (page_request c resource start)"
    using own_scim_request [of c resource] by (simp add: page_request_def)
  with get_json_result [OF run] assms [OF w this] show "P w' \<and> r \<noteq> Panic \<and> (\<forall>a. r = Ok a \<longrightarrow> True)" by auto
qed

interpretation safe_threads: nss_threads N ns "shared_safe N ns n"
  "\<lambda>i c. same_outside (lo i) (hi i) (m i) (mem c)" "\<lambda>_. True" "\<lambda>_. True" "\<lambda>_. True"
  "\<lambda>i buf len. lo i \<le> buf \<and> buf + len \<le> hi i"
  for N ns n m lo hi
proof (rule nss_threads.intro)
  fix i
  show "nss_service N ns (\<lambda>w. shared_safe N ns n w \<and> same_outside (lo i) (hi i) (m i) (mem (nw_caller w)))
      (\<lambda>_. True) (\<lambda>_. True) (\<lambda>_. True) (\<lambda>buf len. lo i \<le> buf \<and> buf + len \<le> hi i)"
    using safe.nss_service_axioms [where N = N and ns = ns and n = n and m = "m i" and lo = "lo i" and hi = "hi i"]
    unfolding shared_safe_split .
next
  fix w c show "shared_safe N ns n (w\<lparr>nw_caller := c\<rparr>) = shared_safe N ns n w"
    by (simp add: shared_safe_def tables_ok_def sent_since_def agent_since_def)
next
  fix i start
  show "serves (\<lambda>w. shared_safe N ns n w \<and> same_outside (lo i) (hi i) (m i) (mem (nw_caller w)))
      (get_json (env_http (pe_env N)) (decode_list_response decode_scim_user) (page_request (ns_scim ns) ''Users'' start)) (\<lambda>_ _. True)"
    by (rule page_serves) (auto simp: shared_safe_def tables_ok_def well_configured_def intro: sent_since_step)
  show "serves (\<lambda>w. shared_safe N ns n w \<and> same_outside (lo i) (hi i) (m i) (mem (nw_caller w)))
      (get_json (env_http (pe_env N)) (decode_list_response decode_scim_group) (page_request (ns_scim ns) ''Groups'' start)) (\<lambda>_ _. True)"
    by (rule page_serves) (auto simp: shared_safe_def tables_ok_def well_configured_def intro: sent_since_step)
qed


section \<open>The ids of the ranges\<close>

definition shared_typed :: "proc_env \<Rightarrow> nss_state \<Rightarrow> nss_world \<Rightarrow> bool" where
  "shared_typed N ns w \<longleftrightarrow> ids_configured ns \<and> module_typed N ns w"

interpretation ids_threads: nss_threads N ns "shared_typed N ns" "\<lambda>_ _. True"
  "user_ids_ok (ns_service ns)" "group_ids_ok (ns_service ns)" "gid_ok (ns_service ns)" "\<lambda>_ _ _. True"
  for N ns
proof (rule nss_threads.intro)
  fix i :: nat
  show "nss_service N ns (\<lambda>w. shared_typed N ns w \<and> True) (user_ids_ok (ns_service ns)) (group_ids_ok (ns_service ns))
      (gid_ok (ns_service ns)) (\<lambda>_ _. True)"
    using ids.nss_service_axioms [where N = N and ns = ns] by (simp add: shared_typed_def)
next
  fix w c show "shared_typed N ns (w\<lparr>nw_caller := c\<rparr>) = shared_typed N ns w"
    by (simp add: shared_typed_def)
next
  fix i :: nat and start
  show "serves (\<lambda>w. shared_typed N ns w \<and> True)
      (get_json (env_http (pe_env N)) (decode_list_response decode_scim_user) (page_request (ns_scim ns) ''Users'' start)) (\<lambda>_ _. True)"
    "serves (\<lambda>w. shared_typed N ns w \<and> True)
      (get_json (env_http (pe_env N)) (decode_list_response decode_scim_group) (page_request (ns_scim ns) ''Groups'' start)) (\<lambda>_ _. True)"
    by (rule page_serves; auto simp: shared_typed_def module_typed_def typed_def enums_typed_def)+
qed

end
