(* ===== verification/Thread_Enum.thy ===== *)
theory Thread_Enum
  imports Thread_Progress Nss_Enum
begin

text \<open>
  Several threads reading one enumeration. The cursor is shared, so the threads divide the entries
  between them: whatever the interleaving no entry is handed out twice, none is skipped, and
  threads that call often enough see them all. The locale extends \<open>enumeration\<close>, the interface of a
  single reader, and is interpreted for users and groups.
\<close>

section \<open>Answers\<close>

text \<open>What the calls of a thread have answered, the reply on its way included.\<close>

definition answers_of :: "thread \<Rightarrow> (nss_reply \<times> caller) list" where
  "answers_of t = map snd (th_done t) @
     (case th_now t of Some (c, Reply r) \<Rightarrow> [(r, th_caller t)] | _ \<Rightarrow> [])"

text \<open>The callers' structs that were reported as filled.\<close>

definition filled :: "(nss_reply \<times> caller) list \<Rightarrow> caller multiset" where
  "filled rs = mset (map snd (filter (\<lambda>(r, cl). fst r = Success) rs))"

definition handed_out :: "threads \<Rightarrow> caller multiset" where
  "handed_out s = (\<Sum>t \<leftarrow> ts_threads s. filled (answers_of t))"

definition replies_given :: "threads \<Rightarrow> nat" where
  "replies_given s = (\<Sum>t \<leftarrow> ts_threads s. length (answers_of t))"

lemma sum_list_set:
  fixes f :: "'a \<Rightarrow> 'b :: comm_monoid_add"
  shows "i < length xs \<Longrightarrow> sum_list (map f (xs[i := x])) + f (xs ! i) = sum_list (map f xs) + f x"
proof (induction xs arbitrary: i)
  case (Cons y xs)
  then show ?case by (cases i) (auto simp: ac_simps)
qed simp

lemma set_answers:
  assumes "i < length (ts_threads s)" "answers_of t = answers_of (ts_threads s ! i) @ new"
  shows "handed_out (set_thread i t s) = handed_out s + filled new"
    and "replies_given (set_thread i t s) = replies_given s + length new"
proof -
  let ?f = "\<lambda>t. filled (answers_of t)" and ?g = "\<lambda>t. length (answers_of t)"
  have "?f t = ?f (ts_threads s ! i) + filled new" by (simp add: assms(2) filled_def)
  with sum_list_set [OF assms(1), of ?f t] show "handed_out (set_thread i t s) = handed_out s + filled new"
    by (simp add: handed_out_def set_thread_def)
  show "replies_given (set_thread i t s) = replies_given s + length new"
    using sum_list_set [OF assms(1), of ?g t] assms(2) by (simp add: replies_given_def set_thread_def)
qed

lemma answers_frame [simp]:
  "handed_out (s\<lparr>ts_world := w\<rparr>) = handed_out s" "replies_given (s\<lparr>ts_world := w\<rparr>) = replies_given s"
  "handed_out (s\<lparr>ts_world := w, ts_held := h\<rparr>) = handed_out s" "handed_out (s\<lparr>ts_held := h\<rparr>) = handed_out s"
  "replies_given (s\<lparr>ts_world := w, ts_held := h\<rparr>) = replies_given s" "replies_given (s\<lparr>ts_held := h\<rparr>) = replies_given s"
  by (simp_all add: handed_out_def replies_given_def)

section \<open>The interface\<close>

locale shared_enumeration = enumeration next_entry pending fits shows_entry good_buf
  for next_entry :: "nat \<Rightarrow> nat \<Rightarrow> nss_status nss"
    and pending :: "nss_world \<Rightarrow> 'v list option"
    and fits :: "'v \<Rightarrow> nat \<Rightarrow> bool"
    and shows_entry :: "nss_world \<Rightarrow> 'v \<Rightarrow> bool"
    and good_buf :: "nat \<Rightarrow> nat \<Rightarrow> bool" +
  fixes N :: proc_env
    and ent :: "nat \<Rightarrow> nat \<Rightarrow> nss_call"
    and lock :: nss_lock
    and holds :: "caller \<Rightarrow> 'v \<Rightarrow> bool"
  assumes ent_stages: "call_stages N (ent b l) = piece (Some lock) (next_entry b l) plain"
    and pending_caller: "pending (w\<lparr>nw_caller := c\<rparr>) = pending w"
    and shows_caller: "shows_entry w v = holds (nw_caller w) v"
begin

text \<open>A thread that only reads the enumeration; if \<open>roomy\<close>, with buffers every entry fits.\<close>

definition reads :: "bool \<Rightarrow> 'v list \<Rightarrow> nss_call \<Rightarrow> bool" where
  "reads roomy vs c \<longleftrightarrow> (\<exists>b l. c = ent b l \<and> good_buf b l \<and> (roomy \<longrightarrow> (\<forall>v \<in> set vs. fits v l)))"

definition reading :: "bool \<Rightarrow> 'v list \<Rightarrow> thread \<Rightarrow> bool" where
  "reading roomy vs t \<longleftrightarrow> (\<forall>c \<in> set (th_todo t). reads roomy vs c) \<and>
     (case th_now t of None \<Rightarrow> True
      | Some (c, st) \<Rightarrow> reads roomy vs c \<and> ((\<exists>r. st = Reply r) \<or> st = call_stages N c))"

text \<open>The first \<open>p\<close> entries are handed out; while some are left, no roomy call has come away empty.\<close>

definition dealt :: "bool \<Rightarrow> 'v list \<Rightarrow> nat \<Rightarrow> threads \<Rightarrow> bool" where
  "dealt roomy vs p s \<longleftrightarrow> p \<le> length vs \<and> pending (ts_world s) = Some (drop p vs) \<and>
     rel_mset holds (handed_out s) (mset (take p vs)) \<and>
     (roomy \<and> p < length vs \<longrightarrow> replies_given s = p)"

definition dealing :: "bool \<Rightarrow> 'v list \<Rightarrow> threads \<Rightarrow> bool" where
  "dealing roomy vs s \<longleftrightarrow> \<not> ts_aborted s \<and> (\<forall>i < length (ts_threads s). reading roomy vs (ts_threads s ! i)) \<and>
     (\<exists>p. dealt roomy vs p s)"

text \<open>One call: the next entry is handed out, or the cursor stays.\<close>

lemma next_dealt:
  assumes "pending w = Some (drop p vs)" "p \<le> length vs" "good_buf b l" "roomy \<longrightarrow> (\<forall>v \<in> set vs. fits v l)"
  obtains (entry) w' where "next_entry b l w = (Ok Success, w')" "p < length vs" "pending w' = Some (drop (p + 1) vs)"
      "holds (nw_caller w') (vs ! p)"
  | (other) st w' where "next_entry b l w = (Ok st, w')" "st \<noteq> Success" "pending w' = Some (drop p vs)"
      "roomy \<longrightarrow> p = length vs"
proof (cases "drop p vs")
  case Nil
  then show ?thesis using next_end [of w b l] assms(1,2) by (auto intro: other)
next
  case (Cons v rest)
  note d = drop_eq_Cons [OF Cons]
  then have v: "vs ! p = v" "v \<in> set vs" by (auto simp: nth_mem)
  show ?thesis
  proof (cases "fits v l")
    case True
    with next_shows [of w v rest b l] assms(1,3) Cons obtain w' where
      "next_entry b l w = (Ok Success, w')" "pending w' = Some rest" "shows_entry w' v" by auto
    then show ?thesis using d v(1) shows_caller by (intro entry [of w']) auto
  next
    case False
    with next_retry [of w v rest b l] assms(1,3) Cons obtain w' where
      "next_entry b l w = (Ok TryAgain, w')" "pending w' = Some (v # rest)" by auto
    then show ?thesis using False v(2) assms(4) Cons by (intro other [of TryAgain w']) auto
  qed
qed

lemma dealing_turn:
  assumes "dealing roomy vs s" "thread_turn N i s = Some s'"
  shows "dealing roomy vs s'"
proof -
  let ?t = "ts_threads s ! i"
  have i: "i < length (ts_threads s)" using turn_index [OF assms(2)] by simp
  obtain p where s: "\<not> ts_aborted s" "\<And>j. j < length (ts_threads s) \<Longrightarrow> reading roomy vs (ts_threads s ! j)" "dealt roomy vs p s"
    using assms(1) by (auto simp: dealing_def)
  note p = s(3) [unfolded dealt_def]
  have t: "reading roomy vs ?t" using s(2) i .
  have same: "dealing roomy vs (set_thread i u s)" if "reading roomy vs u" "answers_of u = answers_of ?t" for u
    using s p that set_answers [OF i, of u "[]"] i
    by (auto simp: dealing_def dealt_def filled_def intro!: exI [of _ p])
  from assms(2) show ?thesis
  proof (cases rule: turn_cases)
    case (start c cs)
    obtain b l where "c = ent b l" using t start(2) by (auto simp: reading_def reads_def)
    with start t show ?thesis unfolding start(3)
      by (intro same) (auto simp: reading_def answers_of_def ent_stages piece_def)
  next
    case (reply c r)
    with t show ?thesis unfolding reply(2) by (intro same) (auto simp: reading_def answers_of_def)
  next
    case (acquire c k m)
    with s p show ?thesis by (auto simp: dealing_def dealt_def handed_out_def replies_given_def intro!: exI [of _ p])
  next
    case (run c k m)
    let ?w = "(ts_world s)\<lparr>nw_caller := th_caller ?t\<rparr>"
    obtain b l where c: "c = ent b l" "good_buf b l" "roomy \<longrightarrow> (\<forall>v \<in> set vs. fits v l)" "Piece k m = call_stages N c"
      using t run(1) by (auto simp: reading_def reads_def)
    have m: "m = bindp (next_entry b l) (\<lambda>a. ret (plain a))" using c(4) unfolding c(1) ent_stages piece_def by simp
    have w: "pending ?w = Some (drop p vs)" using p pending_caller by simp
    have to: "s' = set_thread i (?t\<lparr>th_now := Some (c, plain st), th_caller := nw_caller w'\<rparr>)
        (s\<lparr>ts_world := w', ts_held := release k (ts_held s)\<rparr>)"
      if "next_entry b l ?w = (Ok st, w')" for st w'
      using that unfolding run(3) run_now_def m by (simp add: bindp_def matchp_def ret_def)
    have rd: "reading roomy vs (?t\<lparr>th_now := Some (c, plain st), th_caller := cl\<rparr>)" for st cl
      using t run(1) by (auto simp: reading_def plain_def)
    have an: "answers_of (?t\<lparr>th_now := Some (c, plain st), th_caller := cl\<rparr>) = answers_of ?t @ [((st, None), cl)]" for st cl
      using run(1) by (simp add: answers_of_def plain_def)
    note step = set_answers [of i "s\<lparr>ts_world := w', ts_held := h\<rparr>" for w' h, simplified, OF i an]
    from w conjunct1 [OF p] c(2,3) show ?thesis
    proof (cases rule: next_dealt)
      case (entry w')
      have "dealt roomy vs (p + 1) s'"
        using p entry(2-4) unfolding to [OF entry(1)] dealt_def
        by (auto simp: step filled_def take_Suc_conv_app_nth intro: rel_mset_Plus)
      then show ?thesis using s(1,2) i rd unfolding to [OF entry(1)] by (auto simp: dealing_def)
    next
      case (other st w')
      have "dealt roomy vs p s'"
        using p other(2-4) unfolding to [OF other(1)] dealt_def by (auto simp: step filled_def)
      then show ?thesis using s(1,2) i rd unfolding to [OF other(1)] by (auto simp: dealing_def)
    qed
  qed
qed

lemma dealing_runs:
  assumes "pending w = Some vs" "\<forall>(cs, cl) \<in> set work. \<forall>c \<in> set cs. reads roomy vs c"
  shows "dealing roomy vs (run_threads N sched (new_threads w work))"
proof -
  have none: "map (\<lambda>t. f (answers_of t)) (ts_threads (new_threads w work)) = map (\<lambda>_. f []) work" for f :: "_ \<Rightarrow> 'b"
    by (simp add: new_threads_def answers_of_def split_def)
  have "handed_out (new_threads w work) = {#}" "replies_given (new_threads w work) = 0"
    using none [of filled] none [of length] by (simp_all add: handed_out_def replies_given_def filled_def sum_list_triv)
  then have "dealt roomy vs 0 (new_threads w work)"
    using assms(1) by (simp add: dealt_def new_threads_def rel_mset_Zero)
  moreover have "reading roomy vs (ts_threads (new_threads w work) ! i)" if "i < length work" for i
    using assms(2) that by (fastforce simp: reading_def new_threads_def split_def dest: nth_mem)
  ultimately have "dealing roomy vs (new_threads w work)"
    by (auto simp: dealing_def) (simp_all add: new_threads_def)
  with dealing_turn show ?thesis by (rule run_threads_invariant [of "dealing roomy vs"])
qed

text \<open>No entry is handed out twice, and none is skipped.\<close>

lemma shared_once:
  assumes "pending w = Some vs" "\<forall>(cs, cl) \<in> set work. \<forall>c \<in> set cs. reads False vs c"
  shows "\<exists>p \<le> length vs. rel_mset holds (handed_out (run_threads N sched (new_threads w work))) (mset (take p vs))"
  using dealing_runs [OF assms, of sched] by (auto simp: dealing_def dealt_def)

text \<open>All of them, if there are calls enough.\<close>

lemma shared_all:
  assumes "pending w = Some vs" "\<forall>(cs, cl) \<in> set work. \<forall>c \<in> set cs. reads True vs c"
    and "fair_rounds (length work) rs" "all_turns work \<le> length rs" "length vs \<le> (\<Sum>(cs, cl) \<leftarrow> work. length cs)"
  shows "rel_mset holds (handed_out (run_threads N (concat rs) (new_threads w work))) (mset vs)"
proof -
  let ?s = "run_threads N (concat rs) (new_threads w work)"
  obtain p where p: "\<not> ts_aborted ?s" "dealt True vs p ?s" using dealing_runs [OF assms(1,2), of "concat rs"] by (auto simp: dealing_def)
  have len: "length (ts_threads ?s) = length work" by (simp add: run_length) (simp add: new_threads_def)
  have "length (fst (work ! i)) \<le> length (answers_of (ts_threads ?s ! i))" if "i < length work" for i
    using arg_cong [OF rounds_answer [OF assms(4,3) p(1) that], of length] by (simp add: answers_of_def)
  then have "(\<Sum>(cs, cl) \<leftarrow> work. length cs) \<le> replies_given ?s"
    using len by (simp add: replies_given_def sum_list_sum_nth atLeast0LessThan split_def) (auto intro: sum_mono)
  then have "p = length vs" using p(2) assms(5) by (auto simp: dealt_def)
  then show ?thesis using p(2) by (simp add: dealt_def)
qed

end

section \<open>Users and groups\<close>

interpretation pwent_threads: shared_enumeration nss_getpwent_r pending_users "\<lambda>u l. passwd_size u \<le> l"
  "\<lambda>w. shows_user (nw_caller w)" "\<lambda>_ _. True" N Getpwent UserEnumLock shows_user
  for N
  by unfold_locales (simp_all add: pending_users_def)

interpretation grent_threads: shared_enumeration nss_getgrent_r pending_groups "\<lambda>g l. group_size g \<le> l"
  "\<lambda>w. shows_group (nw_caller w)" "\<lambda>b l. 0 < b \<and> b + l \<le> 256 ^ 8" N Getgrent GroupEnumLock shows_group
  for N
  by unfold_locales (simp_all add: pending_groups_def)

end
