(* ===== verification/Thread_Calls.thy ===== *)
theory Thread_Calls
  imports Thread_Safety Thread_Enum
begin

text \<open>
  What the callers of the NSS module can rely on when several threads of a process call it: the
  module stays safe in every interleaving, every call is answered, ids are of the configured ranges,
  and threads that read one enumeration divide its entries between them.
\<close>

section \<open>Safety and progress\<close>

text \<open>The calls of a thread write into buffers of a region of its own.\<close>

definition own_buffers :: "(nat \<Rightarrow> nat) \<Rightarrow> (nat \<Rightarrow> nat) \<Rightarrow> (nss_call list \<times> caller) list \<Rightarrow> bool" where
  "own_buffers lo hi work \<longleftrightarrow> (\<forall>i < length work. \<forall>c \<in> set (fst (work ! i)).
     pred_option (\<lambda>(buf, len). lo i \<le> buf \<and> buf + len \<le> hi i) (call_buffer c))"

lemma threads_safe:
  assumes "well_configured ns" "nw_state w = Some (Some ns)" "schema_ok (env_db (pe_env N)) (w_cache w)"
    and "own_buffers lo hi work"
  shows "safe_threads.threads_ok N ns (wire_mark w) lo hi (\<lambda>i. mem (snd (work ! i)))
    (run_threads N sched (new_threads w work))"
  by (rule safe_threads.threads_stay_ok)
    (use assms in \<open>auto simp: shared_safe_def tables_ok_def safe_threads.good_call_def own_buffers_def\<close>)

text \<open>C15: Threads do not make the module unsafe: once the shared state is set up, whatever calls the threads
  of a process make, each with buffers of its own, and however they are interleaved, nothing panics
  or aborts the process, every request of the module goes to the configured directory, the tables keep
  their constraints, the shared state stays, and each thread's memory is as it was outside its region.
  The redirects the agent follows are at most ten for each request, and none carries the token.\<close>

theorem threads_stay_safe:
  assumes "well_configured ns" "nw_state w = Some (Some ns)" "schema_ok (env_db (pe_env N)) (w_cache w)"
    and "own_buffers lo hi work" "s = run_threads N sched (new_threads w work)"
    and "default_redirects (env_http (pe_env N))"
  shows "\<not> ts_aborted s \<and> length (ts_threads s) = length work \<and>
    nw_state (ts_world s) = Some (Some ns) \<and> schema_ok (env_db (pe_env N)) (w_cache (ts_world s)) \<and>
    token_confined (sv_scim (ns_service ns)) w (ts_world s) \<and>
    (\<forall>i < length work. same_outside (lo i) (hi i) (mem (snd (work ! i))) (mem (th_caller (ts_threads s ! i))))"
proof -
  have "length (ts_threads s) = length work" unfolding assms(5) by (simp add: run_length) (simp add: new_threads_def)
  then show ?thesis
    using threads_safe [OF assms(1-4), of sched] unfolding assms(5)
    by (auto simp: safe_threads.threads_ok_def safe_threads.thread_ok_def shared_safe_def tables_ok_def
        intro: token_confinedI [OF _ assms(6)])
qed

definition demo_work :: "(nss_call list \<times> caller) list" where
  "demo_work = [(demo_calls, sample_caller), ([Getpwent 200 40, Setpwent, Getpwent 200 40], sample_caller)]"

lemma demo_work_own: "own_buffers (\<lambda>i. [64, 200] ! i) (\<lambda>i. [104, 240] ! i) demo_work"
  by (auto simp: own_buffers_def demo_work_def demo_calls_def less_Suc_eq numeral_2_eq_2)

lemma demo_running_pre:
  "nw_state demo_running = Some (Some demo_state)"
  "schema_ok (env_db (pe_env (demo_nss True))) (w_cache demo_running)"
  by (simp_all add: demo_process_def demo_nss_def empty_cache_def schema_defs)

theorem threads_stay_safe_witness:
  "\<not> ts_aborted (run_threads (demo_nss True) [0, 1, 1, 0, 0, 1, 1, 0] (new_threads demo_running demo_work))"
proof -
  have "default_redirects (env_http (pe_env (demo_nss True)))"
    using demo_redirects [of True] by (simp add: demo_nss_def)
  from threads_stay_safe [OF demo_state_ok(1) demo_running_pre demo_work_own refl this] show ?thesis by blast
qed

text \<open>C16: Threads never block each other for ever, and none starves: no entry point waits for a mutex while it
  holds one, so when every thread is given a turn in every round, after 2008 rounds for each call
  to be made every thread has the reply to each of its calls, in the order it made them.\<close>

theorem threads_all_answered:
  assumes "well_configured ns" "nw_state w = Some (Some ns)" "schema_ok (env_db (pe_env N)) (w_cache w)"
    and "own_buffers lo hi work" "fair_rounds (length work) rs" "all_turns work \<le> length rs"
  shows "map (\<lambda>t. map fst (th_done t)) (ts_threads (run_threads N (concat rs) (new_threads w work))) = map fst work"
proof (rule nth_equalityI)
  let ?s = "run_threads N (concat rs) (new_threads w work)"
  have len: "length (ts_threads ?s) = length work" by (simp add: run_length) (simp add: new_threads_def)
  then show "length (map (\<lambda>t. map fst (th_done t)) (ts_threads ?s)) = length (map fst work)" by simp
  have calm: "\<not> ts_aborted ?s" using threads_safe [OF assms(1-4)] by (simp add: safe_threads.threads_ok_def)
  fix i assume "i < length (map (\<lambda>t. map fst (th_done t)) (ts_threads ?s))"
  then show "map (\<lambda>t. map fst (th_done t)) (ts_threads ?s) ! i = map fst work ! i"
    using rounds_answer [OF assms(6,5) calm] len by simp
qed

theorem threads_all_answered_witness:
  "map (\<lambda>t. map fst (th_done t)) (ts_threads (run_threads (demo_nss True)
     (concat (replicate 20000 [1, 0])) (new_threads demo_running demo_work))) = map fst demo_work"
  by (rule threads_all_answered [OF demo_state_ok(1) demo_running_pre demo_work_own])
    (auto simp: fair_rounds_def list_all_iff demo_work_def demo_calls_def all_turns_def turns_per_call_def less_Suc_eq numeral_2_eq_2)

section \<open>Ids\<close>

text \<open>C17: Threads see ids of the configured ranges only, in every interleaving: each uid and gid in a struct
  that a call of a thread reports as filled, and each gid \<open>initgroups_dyn\<close> adds, is in the ranges,
  also when another thread replaces or ends the enumeration in between.\<close>

theorem threads_show_ids_in_range:
  assumes "ids_configured ns" "nw_state w = Some (Some ns)"
    and "typed_cache (pe_env N) (ns_service ns) (w_cache w)" "enums_typed (ns_service ns) w"
    and "t \<in> set (ts_threads (run_threads N sched (new_threads w work)))" "(c, reply, cl) \<in> set (th_done t)"
  shows "list_all (uid_ok (ns_service ns)) (uids_shown c reply (w\<lparr>nw_caller := cl\<rparr>)) \<and>
    list_all (gid_ok (ns_service ns)) (gids_shown c reply (w\<lparr>nw_caller := cl\<rparr>))"
proof -
  have "shared_typed N ns w" using assms(1-4) by (simp add: shared_typed_def module_typed_def typed_def)
  then have "ids_threads.threads_ok N ns (run_threads N sched (new_threads w work))"
    by (rule ids_threads.threads_stay_ok) (auto simp: ids_threads.good_call_def option.pred_set)
  then have "ids_threads.good_reply ns c reply cl"
    using assms(5,6) by (fastforce simp: ids_threads.threads_ok_def ids_threads.thread_ok_def in_set_conv_nth [of t])
  then show ?thesis by (intro shown_ids) (simp add: ids_threads.good_reply_def)
qed

theorem threads_show_ids_in_range_witness:
  "list_all (\<lambda>t. list_all (\<lambda>(c, reply, cl). list_all (\<lambda>g. 2000 \<le> g) (gids_shown c reply (demo_running\<lparr>nw_caller := cl\<rparr>)))
     (th_done t)) (ts_threads (run_threads (demo_nss True) [0, 0, 0, 1, 1, 1, 0, 1] (new_threads demo_running demo_work)))"
proof -
  let ?S = "ns_service demo_state"
  have pre: "ids_configured demo_state" "nw_state demo_running = Some (Some demo_state)"
    "typed_cache (pe_env (demo_nss True)) ?S (w_cache demo_running)" "enums_typed ?S demo_running"
    using demo_state_ok by (simp_all add: ids_configured_def demo_process_def enums_typed_def empty_typed)
  have "gid_ok ?S g \<Longrightarrow> 2000 \<le> g" for g
    by (simp add: in_range_def demo_state_def demo_service_def demo_config_def word_le_nat_alt)
  then have "2000 \<le> g"
    if "t \<in> set (ts_threads (run_threads (demo_nss True) [0, 0, 0, 1, 1, 1, 0, 1] (new_threads demo_running demo_work)))"
      "(c, reply, cl) \<in> set (th_done t)" "g \<in> set (gids_shown c reply (demo_running\<lparr>nw_caller := cl\<rparr>))" for t c reply cl g
    using threads_show_ids_in_range [OF pre that(1,2)] that(3) by (simp only: list_all_iff)
  then show ?thesis unfolding list_all_iff by blast
qed

section \<open>One enumeration, several readers\<close>

text \<open>C18: Threads that read the enumeration of the users with \<open>getpwent\<close> divide it between them: after any
  schedule the structs reported as filled, over all threads, are the first entries of the list, each
  in exactly one of them; no entry goes to two threads and none is passed over, also when a buffer is
  too small and a thread has to come again.\<close>

theorem getpwent_threads_share:
  assumes "user_enum w = Some (us, 0)" "\<not> user_enum_poisoned w"
    and "\<forall>(cs, cl) \<in> set work. \<forall>c \<in> set cs. \<exists>buf len. c = Getpwent buf len"
  shows "\<exists>p \<le> length us. rel_mset shows_user (handed_out (run_threads N sched (new_threads w work))) (mset (take p us))"
proof (rule pwent_threads.shared_once)
  show "pending_users w = Some us" using assms(1,2) by (simp add: pending_users_def)
  show "\<forall>(cs, cl) \<in> set work. \<forall>c \<in> set cs. pwent_threads.reads False us c"
    using assms(3) by (fastforce simp: pwent_threads.reads_def)
qed

theorem getpwent_threads_share_witness:
  "size (handed_out (run_threads (demo_nss True) [0, 1, 0, 1, 0, 1, 1, 0, 1]
     (new_threads (demo_running\<lparr>user_enum := Some (demo_users, 0)\<rparr>)
       [([Getpwent 64 60], sample_caller), ([Getpwent 64 60, Getpwent 64 8], sample_caller)]))) \<le> 2"
proof -
  let ?w = "demo_running\<lparr>user_enum := Some (demo_users, 0)\<rparr>"
  let ?work = "[([Getpwent 64 60], sample_caller), ([Getpwent 64 60, Getpwent 64 8], sample_caller)]"
  have len: "length demo_users = 2" by (simp add: demo_users_def)
  have pre: "user_enum ?w = Some (demo_users, 0)" "\<not> user_enum_poisoned ?w"
    by (simp_all add: demo_process_def)
  have work: "\<forall>(cs, cl) \<in> set ?work. \<forall>c \<in> set cs. \<exists>buf len. c = Getpwent buf len" by simp
  obtain p where p: "p \<le> length demo_users" "rel_mset shows_user (handed_out (run_threads (demo_nss True)
      [0, 1, 0, 1, 0, 1, 1, 0, 1] (new_threads ?w ?work))) (mset (take p demo_users))"
    using getpwent_threads_share [OF pre work] by blast
  have "size (mset (take p demo_users)) \<le> 2" using p(1) len by simp
  then show ?thesis unfolding rel_mset_size [OF p(2)] .
qed

text \<open>C19: Threads that read the enumeration of the groups to the end see all of it between them: if every thread
  has its turns, the buffers are large enough and the calls of all threads together are at least as
  many as the entries, the structs reported as filled are the entries of the list, one for each.\<close>

theorem getgrent_threads_see_all:
  assumes "group_enum w = Some (gs, 0)" "\<not> group_enum_poisoned w"
    and "\<forall>(cs, cl) \<in> set work. \<forall>c \<in> set cs. \<exists>buf len. c = Getgrent buf len \<and> 0 < buf \<and> buf + len \<le> 256 ^ 8 \<and>
      (\<forall>g \<in> set gs. group_size g \<le> len)"
    and "fair_rounds (length work) rs" "all_turns work \<le> length rs" "length gs \<le> (\<Sum>(cs, cl) \<leftarrow> work. length cs)"
  shows "rel_mset shows_group (handed_out (run_threads N (concat rs) (new_threads w work))) (mset gs)"
proof (rule grent_threads.shared_all)
  show "pending_groups w = Some gs" using assms(1,2) by (simp add: pending_groups_def)
  show "\<forall>(cs, cl) \<in> set work. \<forall>c \<in> set cs. grent_threads.reads True gs c"
    using assms(3) by (simp only: grent_threads.reads_def conj_assoc simp_thms)
qed (fact assms)+

theorem getgrent_threads_see_all_witness:
  "rel_mset shows_group (handed_out (run_threads (demo_nss True) (concat (replicate 5000 [0, 1]))
     (new_threads (demo_running\<lparr>group_enum := Some ([sample_group ''ops'' 2000 [''ann'', ''bob'']], 0)\<rparr>)
       [([Getgrent 64 60], sample_caller), ([Getgrent 200 60], sample_caller)])))
     {#sample_group ''ops'' 2000 [''ann'', ''bob'']#}"
proof -
  let ?gs = "[sample_group ''ops'' 2000 [''ann'', ''bob'']]"
  let ?w = "demo_running\<lparr>group_enum := Some (?gs, 0)\<rparr>"
  let ?work = "[([Getgrent 64 60], sample_caller), ([Getgrent 200 60], sample_caller)]"
  have size: "\<forall>g \<in> set ?gs. group_size g \<le> 60" by code_simp
  have pre: "group_enum ?w = Some (?gs, 0)" "\<not> group_enum_poisoned ?w"
    by (simp_all add: demo_process_def)
  have work: "\<forall>(cs, cl) \<in> set ?work. \<forall>c \<in> set cs. \<exists>buf len. c = Getgrent buf len \<and> 0 < buf \<and> buf + len \<le> 256 ^ 8 \<and>
      (\<forall>g \<in> set ?gs. group_size g \<le> len)"
    using size by simp
  have rounds: "fair_rounds (length ?work) (replicate 5000 [0, 1])" "all_turns ?work \<le> length (replicate 5000 [0 :: nat, 1])"
    "length ?gs \<le> (\<Sum>(cs, cl) \<leftarrow> ?work. length cs)"
    by (auto simp: fair_rounds_def list_all_iff all_turns_def turns_per_call_def)
  show ?thesis
    using getgrent_threads_see_all [OF pre work rounds, of "demo_nss True"] by (simp only: mset.simps)
qed

end
