(* ===== verification/Pam_Conv.thy ===== *)
theory Pam_Conv
  imports Process Utf8
begin

text \<open>
  The conversation with the application (\<open>crates/pam_oidc/src/pam_conv.rs\<close>). What libpam answers for
  a handle is the parameter \<open>pam_handle\<close>, the application's conversation function one of the items it
  gives out. Part of the state are the messages the application was given and the heap the
  module shares with it, since the function allocates its answers and the module frees them.
\<close>

definition pam_success :: int where "pam_success = 0"
definition pam_text_info :: int where "pam_text_info = 4"
definition pam_conv_item :: int where "pam_conv_item = 5"

section \<open>The heap\<close>

record pam_message =
  pm_style :: int
  pm_msg :: string

record pam_response =
  pr_resp :: nat
  pr_retcode :: int

text \<open>Blocks by address, null being 0. An access to no block of its kind is counted as a fault.\<close>

datatype heap_block = ResponseBlock pam_response | TextBlock string

record pam_heap =
  ph_blocks :: "nat \<Rightarrow> heap_block option"
  ph_faults :: nat

definition heap_free :: "nat \<Rightarrow> pam_heap \<Rightarrow> pam_heap" where
  "heap_free p h =
     (if p = 0 then h
      else case ph_blocks h p of
        None \<Rightarrow> h\<lparr>ph_faults := ph_faults h + 1\<rparr>
      | Some _ \<Rightarrow> h\<lparr>ph_blocks := (ph_blocks h)(p := None)\<rparr>)"

text \<open>A conversation function: number of messages, messages, \<open>appdata_ptr\<close>; its code and \<open>resp\<close>.\<close>

type_synonym conv_fn = "int \<Rightarrow> pam_message list \<Rightarrow> nat \<Rightarrow> pam_heap \<Rightarrow> (int \<times> nat) \<times> pam_heap"

record pam_conv =
  pc_conv :: "conv_fn option"
  pc_appdata :: nat

text \<open>\<open>pam_get_user\<close> (code and pointer, null as \<open>None\<close>) and \<open>pam_get_item\<close>.\<close>

record pam_handle =
  ph_user :: "int \<times> string option"
  ph_item :: "int \<Rightarrow> int \<times> pam_conv option"

record conversation = process +
  pw_shown :: "pam_message list"
  pw_heap :: pam_heap

section \<open>The functions of \<open>pam_conv.rs\<close>\<close>

definition get_pam_user :: "pam_handle \<Rightarrow> (string, int) outcome" where
  "get_pam_user pamh =
     (case ph_user pamh of (code, ptr) \<Rightarrow>
        (if code \<noteq> pam_success then Err code
         else case ptr of
           None \<Rightarrow> Err code
         | Some bytes \<Rightarrow> (case to_str bytes of None \<Rightarrow> Err code | Some user \<Rightarrow> Ok user)))"

definition get_pam_conv :: "pam_handle \<Rightarrow> pam_conv option" where
  "get_pam_conv pamh =
     (case ph_item pamh pam_conv_item of (code, item) \<Rightarrow> if code \<noteq> pam_success then None else item)"

text \<open>What becomes of \<open>resp\<close>: the answer in it is freed, then the response.\<close>

definition free_response :: "nat \<Rightarrow> pam_heap \<Rightarrow> pam_heap" where
  "free_response resp h =
     (if resp = 0 then h
      else case ph_blocks h resp of
        Some (ResponseBlock r) \<Rightarrow> heap_free resp (if pr_resp r = 0 then h else heap_free (pr_resp r) h)
      | _ \<Rightarrow> h\<lparr>ph_faults := ph_faults h + 1\<rparr>)"

definition pam_info :: "pam_handle \<Rightarrow> string \<Rightarrow> ('z conversation_scheme, int, unit) prog" where
  "pam_info pamh msg w =
     (case get_pam_conv pamh of
        None \<Rightarrow> ret pam_success w
      | Some conv \<Rightarrow>
          if NUL \<in> set msg then ret pam_success w
          else
            let pam_msg = \<lparr>pm_style = pam_text_info, pm_msg = msg\<rparr>
            in case pc_conv conv of
                 None \<Rightarrow> ret pam_success w
               | Some conv_fn \<Rightarrow>
                   (case conv_fn 1 [pam_msg] (pc_appdata conv) (pw_heap w) of
                      ((code, resp), h) \<Rightarrow>
                        ret code (w\<lparr>pw_shown := pw_shown w @ [pam_msg], pw_heap := free_response resp h\<rparr>)))"

section \<open>Nothing leaks\<close>

text \<open>
  What \<open>pam_conv(3)\<close> says of a conversation function: it may answer with a response it allocates, which
  may hold a text it allocates; the caller has to free both. It touches no other block.
\<close>

definition allocates_answers :: "conv_fn \<Rightarrow> bool" where
  "allocates_answers f \<longleftrightarrow> (\<forall>n ms a h. let ((code, resp), h') = f n ms a h in
     (resp = 0 \<and> h' = h) \<or>
     (\<exists>r. resp \<noteq> 0 \<and> ph_blocks h resp = None \<and>
       ((pr_resp r = 0 \<and> h' = h\<lparr>ph_blocks := (ph_blocks h)(resp \<mapsto> ResponseBlock r)\<rparr>) \<or>
        (\<exists>t. pr_resp r \<notin> {0, resp} \<and> ph_blocks h (pr_resp r) = None \<and>
          h' = h\<lparr>ph_blocks := (ph_blocks h)(resp \<mapsto> ResponseBlock r, pr_resp r \<mapsto> TextBlock t)\<rparr>))))"

definition well_behaved :: "pam_handle \<Rightarrow> bool" where
  "well_behaved pamh \<longleftrightarrow> pred_option (\<lambda>conv. pred_option allocates_answers (pc_conv conv)) (get_pam_conv pamh)"

lemma answer_freed:
  assumes "allocates_answers f" "f n ms a h = ((code, resp), h')"
  shows "free_response resp h' = h"
proof -
  have "(resp = 0 \<and> h' = h) \<or>
     (\<exists>r. resp \<noteq> 0 \<and> ph_blocks h resp = None \<and>
       ((pr_resp r = 0 \<and> h' = h\<lparr>ph_blocks := (ph_blocks h)(resp \<mapsto> ResponseBlock r)\<rparr>) \<or>
        (\<exists>t. pr_resp r \<notin> {0, resp} \<and> ph_blocks h (pr_resp r) = None \<and>
          h' = h\<lparr>ph_blocks := (ph_blocks h)(resp \<mapsto> ResponseBlock r, pr_resp r \<mapsto> TextBlock t)\<rparr>)))"
    using assms(1) [unfolded allocates_answers_def, rule_format, of n ms a h] unfolding assms(2) by simp
  then show ?thesis
    by (elim disjE exE conjE) (auto simp: free_response_def heap_free_def fun_upd_idem fun_upd_twist)
qed

text \<open>A message leaves the heap as it was; it is an info message without a zero byte.\<close>

lemma pam_info_result:
  "\<exists>code ms h. pam_info pamh msg w = (Ok code, w\<lparr>pw_shown := pw_shown w @ ms, pw_heap := h\<rparr>) \<and>
     ms \<in> {[], [\<lparr>pm_style = pam_text_info, pm_msg = msg\<rparr>]} \<and> (ms \<noteq> [] \<longrightarrow> NUL \<notin> set msg) \<and>
     (well_behaved pamh \<longrightarrow> h = pw_heap w)"
proof (cases "\<exists>conv f. get_pam_conv pamh = Some conv \<and> NUL \<notin> set msg \<and> pc_conv conv = Some f")
  case True
  then obtain conv f where c: "get_pam_conv pamh = Some conv" "NUL \<notin> set msg" "pc_conv conv = Some f" by blast
  let ?m = "\<lparr>pm_style = pam_text_info, pm_msg = msg\<rparr>"
  obtain code resp h where f: "f 1 [?m] (pc_appdata conv) (pw_heap w) = ((code, resp), h)"
    by (cases "f 1 [?m] (pc_appdata conv) (pw_heap w)") auto
  have "well_behaved pamh \<longrightarrow> free_response resp h = pw_heap w"
    using answer_freed [of f 1 "[?m]" "pc_appdata conv" "pw_heap w" code resp h] f c by (simp add: well_behaved_def)
  then show ?thesis
    using c f by (intro exI [of _ code] exI [of _ "[?m]"] exI [of _ "free_response resp h"]) (simp add: pam_info_def ret_def)
next
  case False
  then have "pam_info pamh msg w = (Ok pam_success, w)"
    by (auto simp: pam_info_def ret_def split: option.split)
  then show ?thesis by (intro exI [of _ pam_success] exI [of _ "[]"] exI [of _ "pw_heap w"]) simp
qed

end
