(* ===== verification/Oidc.thy ===== *)
theory Oidc
  imports Http Os_Files
begin

text \<open>
  \<open>src/oidc.rs\<close>: discovery, the device authorization grant (RFC 8628) and the validation of an
  ID token. The JWT library (\<open>jsonwebtoken\<close>) is the parameter \<open>jwt_lib\<close>. Time is the
  monotonic clock of the wire, in nanoseconds; \<open>Instant\<close> holds seconds in 64 signed bits.
\<close>

datatype oidc_error =
    OidcHttp http_error
  | OidcIo io_error
  | MissingField string
  | IssuerMismatch string string
  | InsecureEndpoint string
  | AuthorizationPending
  | SlowDown
  | ExpiredToken
  | TokenError string
  | MissingIdToken
  | SubjectMismatch string string
  | IdTokenDecode string
  | JwtValidation

record oidc_endpoints =
  oe_device_authorization_endpoint :: string
  oe_token_endpoint :: string
  oe_issuer :: string
  oe_jwks_uri :: string

record device_auth_response =
  da_device_code :: string
  da_user_code :: string
  da_verification_uri :: string
  da_verification_uri_complete :: "string option"
  da_expires_in :: u64
  da_interval :: u64

definition default_interval :: u64 where "default_interval = 5"

record token_response =
  tr_access_token :: string
  tr_id_token :: "string option"
  tr_token_type :: string

record oidc_client =
  oc_endpoints :: oidc_endpoints
  oc_client_id :: string
  oc_client_secret :: "string option"

record discovery_document =
  dd_issuer :: "string option"
  dd_token_endpoint :: "string option"
  dd_device_authorization_endpoint :: "string option"
  dd_jwks_uri :: "string option"

record id_token_claims =
  ic_sub :: string
  ic_iss :: string
  ic_aud :: doc
  ic_exp :: nat
  ic_iat :: "nat option"

section \<open>Decoders\<close>

definition u64_field :: "doc \<Rightarrow> u64 option" where
  "u64_field d =
     (case d of
        DInt i \<Rightarrow> if 0 \<le> i \<and> i < 18446744073709551616 then Some (word_of_int i) else None
      | _ \<Rightarrow> None)"

definition decode_device_auth :: "doc \<Rightarrow> device_auth_response option" where
  "decode_device_auth d =
     (case struct_fields [''device_code'', ''user_code'', ''verification_uri'',
             ''verification_uri_complete'', ''expires_in'', ''interval''] d of
        Some (arr, [dc, uc, vu, vc, ex, iv]) \<Rightarrow>
          Option.bind (required as_string dc) (\<lambda>device_code.
          Option.bind (required as_string uc) (\<lambda>user_code.
          Option.bind (required as_string vu) (\<lambda>uri.
          Option.bind (bare_option as_string arr vc) (\<lambda>complete.
          Option.bind (required u64_field ex) (\<lambda>expires_in.
          Option.bind (defaulted u64_field default_interval iv) (\<lambda>interval.
            Some \<lparr>da_device_code = device_code, da_user_code = user_code, da_verification_uri = uri,
                  da_verification_uri_complete = complete, da_expires_in = expires_in,
                  da_interval = interval\<rparr>))))))
      | _ \<Rightarrow> None)"

definition decode_token_response :: "doc \<Rightarrow> token_response option" where
  "decode_token_response d =
     (case struct_fields [''access_token'', ''id_token'', ''token_type''] d of
        Some (arr, [a, i, t]) \<Rightarrow>
          Option.bind (required as_string a) (\<lambda>access.
          Option.bind (bare_option as_string arr i) (\<lambda>id_token.
          Option.bind (required as_string t) (\<lambda>token_type.
            Some \<lparr>tr_access_token = access, tr_id_token = id_token, tr_token_type = token_type\<rparr>)))
      | _ \<Rightarrow> None)"

text \<open>The one field of \<open>TokenErrorResponse\<close>.\<close>

definition decode_token_error :: "doc \<Rightarrow> string option" where
  "decode_token_error d =
     (case struct_fields [''error''] d of
        Some (_, [e]) \<Rightarrow> required as_string e
      | _ \<Rightarrow> None)"

definition decode_discovery :: "doc \<Rightarrow> discovery_document option" where
  "decode_discovery d =
     (case struct_fields [''issuer'', ''token_endpoint'', ''device_authorization_endpoint'', ''jwks_uri''] d of
        Some (arr, [i, t, e, j]) \<Rightarrow>
          Option.bind (bare_option as_string arr i) (\<lambda>issuer.
          Option.bind (bare_option as_string arr t) (\<lambda>token.
          Option.bind (bare_option as_string arr e) (\<lambda>device.
          Option.bind (bare_option as_string arr j) (\<lambda>jwks.
            Some \<lparr>dd_issuer = issuer, dd_token_endpoint = token,
                  dd_device_authorization_endpoint = device, dd_jwks_uri = jwks\<rparr>))))
      | _ \<Rightarrow> None)"

definition nat_u64 :: "doc \<Rightarrow> nat option" where
  "nat_u64 = as_uint 18446744073709551616"

definition decode_claims :: "doc \<Rightarrow> id_token_claims option" where
  "decode_claims d =
     (case struct_fields [''sub'', ''iss'', ''aud'', ''exp'', ''iat''] d of
        Some (_, [s, i, a, e, t]) \<Rightarrow>
          Option.bind (required as_string s) (\<lambda>sub.
          Option.bind (required as_string i) (\<lambda>iss.
          Option.bind (required Some a) (\<lambda>aud.
          Option.bind (required nat_u64 e) (\<lambda>exp.
          Option.bind (defaulted (as_option nat_u64) None t) (\<lambda>iat.
            Some \<lparr>ic_sub = sub, ic_iss = iss, ic_aud = aud, ic_exp = exp, ic_iat = iat\<rparr>)))))
      | _ \<Rightarrow> None)"

section \<open>Discovery\<close>

definition plain_get :: "string \<Rightarrow> request" where
  "plain_get url = \<lparr>rq_method = Get, rq_url = url, rq_query = [], rq_authorization = None, rq_form = []\<rparr>"

definition discovery_url :: "string \<Rightarrow> string" where
  "discovery_url issuer_url = trim_end_char CHR ''/'' issuer_url @ ''/.well-known/openid-configuration''"

text \<open>\<open>field.ok_or_else(...)?\<close>.\<close>

definition field_or :: "string \<Rightarrow> string option \<Rightarrow> ('s, string, oidc_error) prog" where
  "field_or name f = (case f of None \<Rightarrow> fail (MissingField name) | Some x \<Rightarrow> ret x)"

text \<open>The loop that enforces HTTPS on the endpoints.\<close>

fun check_https :: "(string \<times> string) list \<Rightarrow> ('s, unit, oidc_error) prog" where
  "check_https [] = ret ()"
| "check_https ((name, endpoint) # rest) =
     (if \<not> starts_with ''https://'' endpoint then fail (InsecureEndpoint (name @ '': '' @ endpoint))
      else check_https rest)"

definition discover_with_options ::
  "http_env \<Rightarrow> string \<Rightarrow> string \<Rightarrow> string option \<Rightarrow> bool \<Rightarrow>
   ('z wire_scheme, oidc_client, oidc_error) prog"
where
  "discover_with_options H issuer_url client_id client_secret require_https =
     (let canonical_issuer = trim_end_char CHR ''/'' issuer_url in
      tryp OidcHttp (get_json H decode_discovery (plain_get (discovery_url issuer_url))) (\<lambda>dd.
      bindp (field_or ''issuer'' (dd_issuer dd)) (\<lambda>issuer.
      bindp (field_or ''token_endpoint'' (dd_token_endpoint dd)) (\<lambda>token.
      bindp (field_or ''device_authorization_endpoint'' (dd_device_authorization_endpoint dd)) (\<lambda>device.
      bindp (field_or ''jwks_uri'' (dd_jwks_uri dd)) (\<lambda>jwks.
        if trim_end_char CHR ''/'' issuer \<noteq> canonical_issuer
        then fail (IssuerMismatch canonical_issuer issuer)
        else bindp
          (if require_https
           then check_https [(''token_endpoint'', token), (''device_authorization_endpoint'', device),
                             (''jwks_uri'', jwks)]
           else ret ()) (\<lambda>_.
          ret \<lparr>oc_endpoints = \<lparr>oe_device_authorization_endpoint = device, oe_token_endpoint = token,
                 oe_issuer = issuer, oe_jwks_uri = jwks\<rparr>,
               oc_client_id = client_id, oc_client_secret = client_secret\<rparr>)))))))"

definition discover ::
  "http_env \<Rightarrow> string \<Rightarrow> string \<Rightarrow> string option \<Rightarrow> ('z wire_scheme, oidc_client, oidc_error) prog" where
  "discover H issuer_url client_id client_secret =
     discover_with_options H issuer_url client_id client_secret True"

definition discover_insecure ::
  "http_env \<Rightarrow> string \<Rightarrow> string \<Rightarrow> string option \<Rightarrow> ('z wire_scheme, oidc_client, oidc_error) prog" where
  "discover_insecure H issuer_url client_id client_secret =
     discover_with_options H issuer_url client_id client_secret False"

section \<open>The device authorization grant\<close>

definition post_form :: "string \<Rightarrow> (string \<times> string) list \<Rightarrow> request" where
  "post_form url form = \<lparr>rq_method = Post, rq_url = url, rq_query = [], rq_authorization = None, rq_form = form\<rparr>"

definition with_secret :: "oidc_client \<Rightarrow> (string \<times> string) list \<Rightarrow> (string \<times> string) list" where
  "with_secret c form =
     form @ (case oc_client_secret c of Some secret \<Rightarrow> [(''client_secret'', secret)] | None \<Rightarrow> [])"

definition request_device_code ::
  "http_env \<Rightarrow> oidc_client \<Rightarrow> string \<Rightarrow> ('z wire_scheme, device_auth_response, oidc_error) prog" where
  "request_device_code H c scope =
     tryp OidcHttp
       (get_json H decode_device_auth
          (post_form (oe_device_authorization_endpoint (oc_endpoints c))
             (with_secret c [(''client_id'', oc_client_id c), (''scope'', scope)]))) ret"

definition poll_request :: "oidc_client \<Rightarrow> string \<Rightarrow> request" where
  "poll_request c device_code =
     post_form (oe_token_endpoint (oc_endpoints c))
       (with_secret c [(''client_id'', oc_client_id c),
          (''grant_type'', ''urn:ietf:params:oauth:grant-type:device_code''),
          (''device_code'', device_code)])"

definition poll_for_token ::
  "http_env \<Rightarrow> oidc_client \<Rightarrow> string \<Rightarrow> ('z wire_scheme, token_response, oidc_error) prog" where
  "poll_for_token H c device_code =
     tryp OidcHttp (http_send H (poll_request c device_code)) (\<lambda>(status, body).
       if 200 \<le> status \<and> status < 300
       then tryp OidcHttp (read_json H decode_token_response body) ret
       else tryp OidcHttp (read_body body) (\<lambda>text.
         case Option.bind (he_parse H text) decode_token_error of
           Some err \<Rightarrow>
             (if err = ''authorization_pending'' then fail AuthorizationPending
              else if err = ''slow_down'' then fail SlowDown
              else if err = ''expired_token'' then fail ExpiredToken
              else fail (TokenError err))
         | None \<Rightarrow> fail (TokenError text)))"

definition min_poll_interval_secs :: u64 where "min_poll_interval_secs = 5"

definition nanos :: "u64 \<Rightarrow> nat" where "nanos secs = unat secs * 1000000000"

definition sleep_secs :: "u64 \<Rightarrow> 'z wire_scheme \<Rightarrow> 'z wire_scheme" where
  "sleep_secs secs w = w\<lparr>mono := mono w + nanos secs\<rparr>"

text \<open>
  The \<open>loop\<close>: it may run for ever as far as its text goes, so it is a partial function; not
  returning would be \<open>None\<close>. The addition to the interval wraps as in a release build.
\<close>

partial_function (option) poll_loop ::
  "http_env \<Rightarrow> oidc_client \<Rightarrow> string \<Rightarrow> nat \<Rightarrow> u64 \<Rightarrow> 'z wire_scheme \<Rightarrow>
   ((token_response, oidc_error) outcome \<times> 'z wire_scheme) option"
where
  "poll_loop H c device_code deadline interval w =
     (let w1 = sleep_secs interval w in
      if deadline \<le> mono w1 then Some (Err ExpiredToken, w1)
      else case poll_for_token H c device_code w1 of
        (Ok token, w2) \<Rightarrow> Some (Ok token, w2)
      | (Err e, w2) \<Rightarrow>
          (if e = AuthorizationPending then poll_loop H c device_code deadline interval w2
           else if e = SlowDown then poll_loop H c device_code deadline (interval + 5) w2
           else Some (Err e, w2))
      | (Panic, w2) \<Rightarrow> Some (Panic, w2))"

text \<open>
  \<open>Instant::now() + Duration::from_secs(expires_in)\<close>: the deadline, or a panic when the seconds
  do not fit.
\<close>

definition deadline_of :: "nat \<Rightarrow> u64 \<Rightarrow> nat option" where
  "deadline_of now expires_in =
     (if now div 1000000000 + unat expires_in < 9223372036854775808
      then Some (now + nanos expires_in) else None)"

definition authenticate_device_flow ::
  "http_env \<Rightarrow> oidc_client \<Rightarrow> string \<Rightarrow> (string \<Rightarrow> string \<Rightarrow> ('z wire_scheme, unit, oidc_error) prog) \<Rightarrow>
   'z wire_scheme \<Rightarrow> ((token_response, oidc_error) outcome \<times> 'z wire_scheme) option"
where
  "authenticate_device_flow H c scope display w =
     (case request_device_code H c scope w of
        (Ok da, w1) \<Rightarrow>
          (case display (da_user_code da) (da_verification_uri da) w1 of
             (Ok _, w2) \<Rightarrow>
               (case deadline_of (mono w2) (da_expires_in da) of
                  None \<Rightarrow> Some (Panic, w2)
                | Some deadline \<Rightarrow>
                    poll_loop H c (da_device_code da) deadline
                      (max (da_interval da) min_poll_interval_secs) w2)
           | (Err e, w2) \<Rightarrow> Some (Err e, w2)
           | (Panic, w2) \<Rightarrow> Some (Panic, w2))
      | (Err e, w1) \<Rightarrow> Some (Err e, w1)
      | (Panic, w1) \<Rightarrow> Some (Panic, w1))"

section \<open>ID tokens\<close>

text \<open>
  What the code asks of the JWT library: the unverified header, the keys of a JWKS document, the
  decoding key of a JWK, and the verification of a token with a key under a \<open>Validation\<close>, which
  gives the claims. The last may depend on the time.
\<close>

record jwt_header =
  jh_alg :: string
  jh_kid :: "string option"

record validation =
  va_alg :: string
  va_iss :: "string list"
  va_aud :: "string list"
  va_required :: "string list"
  va_exp :: bool

record ('jwk, 'key) jwt_lib =
  jl_header :: "string \<Rightarrow> jwt_header option"
  jl_jwks :: "doc \<Rightarrow> 'jwk list option"
  jl_kid :: "'jwk \<Rightarrow> string option"
  jl_key :: "'jwk \<Rightarrow> 'key option"
  jl_decode :: "nat \<Rightarrow> string \<Rightarrow> 'key \<Rightarrow> validation \<Rightarrow> doc option"

definition select_jwk :: "('jwk, 'key) jwt_lib \<Rightarrow> string option \<Rightarrow> 'jwk list \<Rightarrow> 'jwk option" where
  "select_jwk J kid jwks =
     (case kid of
        Some k \<Rightarrow> find (\<lambda>j. jl_kid J j = Some k) jwks
      | None \<Rightarrow> (case jwks of [] \<Rightarrow> None | j # _ \<Rightarrow> Some j))"

definition no_jwk :: "string option \<Rightarrow> string" where
  "no_jwk kid =
     (case kid of
        Some k \<Rightarrow> ''no JWK with kid '' @ [CHR 0x22] @ k @ [CHR 0x22]
      | None \<Rightarrow> ''JWKS is empty'')"

definition id_token_validation :: "oidc_client \<Rightarrow> string \<Rightarrow> validation" where
  "id_token_validation c alg =
     \<lparr>va_alg = alg, va_iss = [oe_issuer (oc_endpoints c)], va_aud = [oc_client_id c],
      va_required = [''sub'', ''exp'', ''iss''], va_exp = True\<rparr>"

definition validate_id_token ::
  "http_env \<Rightarrow> ('jwk, 'key) jwt_lib \<Rightarrow> oidc_client \<Rightarrow> string \<Rightarrow>
   ('z wire_scheme, id_token_claims, oidc_error) prog"
where
  "validate_id_token H J c id_token =
     (case jl_header J id_token of
        None \<Rightarrow> fail JwtValidation
      | Some header \<Rightarrow>
          tryp OidcHttp (get_json H (jl_jwks J) (plain_get (oe_jwks_uri (oc_endpoints c)))) (\<lambda>jwks.
          case select_jwk J (jh_kid header) jwks of
            None \<Rightarrow> fail (IdTokenDecode (no_jwk (jh_kid header)))
          | Some jwk \<Rightarrow>
              (case jl_key J jwk of
                 None \<Rightarrow> fail JwtValidation
               | Some key \<Rightarrow> (\<lambda>w.
                   case Option.bind
                     (jl_decode J (mono w) id_token key (id_token_validation c (jh_alg header)))
                     decode_claims of
                     None \<Rightarrow> fail JwtValidation w
                   | Some claims \<Rightarrow> ret claims w))))"

end
