(* ===== verification/Pam_Module.thy ===== *)
theory Pam_Module
  imports Pam_Conv Oidc
begin

text \<open>
  The PAM module (\<open>crates/pam_oidc/src\<close>): the two statics of \<open>state.rs\<close> and the entry points of
  \<open>ffi.rs\<close>, on top of the conversation with the application.
\<close>

definition pam_perm_denied :: int where "pam_perm_denied = 6"
definition pam_auth_err :: int where "pam_auth_err = 7"
definition pam_authinfo_unavail :: int where "pam_authinfo_unavail = 9"
definition pam_authtok_err :: int where "pam_authtok_err = 20"

record pam_world = conversation +
  pw_service :: "service option option"
  pw_oidc_client :: "oidc_client option option"

type_synonym 'a pam = "(pam_world, 'a, unit) prog"

section \<open>The shared state\<close>

definition get_service :: "proc_env \<Rightarrow> service option pam" where
  "get_service N w =
     (case pw_service w of
        Some svc \<Rightarrow> ret svc w
      | None \<Rightarrow>
          bindp
            (bindp (init_logging N ''pam_oidc'' facility_authpriv) (\<lambda>_.
             matchp (load_config N)
               (\<lambda>cfg. open_service N cfg
                  (scim_client_new (cs_base_url (cfg_scim cfg)) (cs_bearer_token (cfg_scim cfg))))
               (\<lambda>_. ret None)))
            (\<lambda>svc v. ret svc (v\<lparr>pw_service := Some svc\<rparr>)) w)"

definition get_oidc_client :: "proc_env \<Rightarrow> oidc_client option pam" where
  "get_oidc_client N w =
     (case pw_oidc_client w of
        Some c \<Rightarrow> ret c w
      | None \<Rightarrow>
          bindp
            (bindp (init_logging N ''pam_oidc'' facility_authpriv) (\<lambda>_.
             matchp (load_config N)
               (\<lambda>cfg.
                  let oc = cfg_oidc cfg;
                      discover_fn = (if co_allow_insecure oc then discover_insecure else discover)
                  in matchp (discover_fn (env_http (pe_env N)) (co_issuer_url oc) (co_client_id oc) (co_client_secret oc))
                       (\<lambda>c. ret (Some c)) (\<lambda>_. ret None))
               (\<lambda>_. ret None)))
            (\<lambda>c v. ret c (v\<lparr>pw_oidc_client := Some c\<rparr>)) w)"

section \<open>Entry points\<close>

definition sign_in_message :: "string \<Rightarrow> string \<Rightarrow> string" where
  "sign_in_message user_code verification_uri =
     ''To sign in, visit: '' @ verification_uri @ [CHR 0x0A] @
     ''Enter code: '' @ user_code @ [CHR 0x0A] @ ''Waiting for authentication...''"

text \<open>The \<open>match result\<close> of \<open>authenticate_impl\<close>: the token of the flow against the PAM user.\<close>

definition verify_subject ::
  "proc_env \<Rightarrow> ('jwk, 'key) jwt_lib \<Rightarrow> oidc_client \<Rightarrow> string \<Rightarrow> token_response \<Rightarrow> int pam" where
  "verify_subject N J client username token =
     (case tr_id_token token of
        None \<Rightarrow> ret pam_auth_err
      | Some id_token_raw \<Rightarrow>
          matchp (validate_id_token (env_http (pe_env N)) J client id_token_raw)
            (\<lambda>claims.
               if ic_sub claims = username then ret pam_success
               else bindp (get_service N) (\<lambda>svc. case svc of
                   None \<Rightarrow> ret pam_auth_err
                 | Some svc \<Rightarrow>
                     matchp (lookup_user_by_name (pe_env N) svc username)
                       (\<lambda>found. case found of
                          Some user \<Rightarrow>
                            if u_external_id user = ic_sub claims then ret pam_success else ret pam_auth_err
                        | None \<Rightarrow> ret pam_auth_err)
                       (\<lambda>_. ret pam_auth_err)))
            (\<lambda>_. ret pam_auth_err))"

text \<open>An entry point that runs the device flow may not return as far as its text goes.\<close>

definition authenticate_impl ::
  "proc_env \<Rightarrow> ('jwk, 'key) jwt_lib \<Rightarrow> pam_handle \<Rightarrow> pam_world \<Rightarrow>
   ((int, unit) outcome \<times> pam_world) option"
where
  "authenticate_impl N J pamh w =
     (case get_pam_user pamh of
        Ok username \<Rightarrow>
          (case get_oidc_client N w of
             (Ok (Some client), w1) \<Rightarrow>
               (case authenticate_device_flow (env_http (pe_env N)) client ''openid''
                   (\<lambda>user_code verification_uri v.
                      ret () (snd (pam_info pamh (sign_in_message user_code verification_uri) v))) w1 of
                  None \<Rightarrow> None
                | Some (Ok token, w2) \<Rightarrow> Some (verify_subject N J client username token w2)
                | Some (Err e, w2) \<Rightarrow> Some (Ok pam_auth_err, w2)
                | Some (Panic, w2) \<Rightarrow> Some (Panic, w2))
           | (Ok None, w1) \<Rightarrow> Some (Ok pam_authinfo_unavail, w1)
           | (Err e, w1) \<Rightarrow> Some (Err e, w1)
           | (Panic, w1) \<Rightarrow> Some (Panic, w1))
      | _ \<Rightarrow> Some (Ok pam_auth_err, w))"

text \<open>Every entry point but \<open>pam_sm_setcred\<close> sets up the log first.\<close>

abbreviation log_pam :: "proc_env \<Rightarrow> pam_world \<Rightarrow> pam_world" where
  "log_pam N \<equiv> start_log N ''pam_oidc'' facility_authpriv"

definition pam_sm_authenticate ::
  "proc_env \<Rightarrow> ('jwk, 'key) jwt_lib \<Rightarrow> pam_handle \<Rightarrow> pam_world \<Rightarrow>
   ((int, unit) outcome \<times> pam_world) option"
where
  "pam_sm_authenticate N J pamh w = authenticate_impl N J pamh (log_pam N w)"

definition pam_sm_setcred :: "int pam" where
  "pam_sm_setcred = ret pam_success"

definition chauthtok_impl :: "proc_env \<Rightarrow> pam_handle \<Rightarrow> int pam" where
  "chauthtok_impl N pamh =
     bindp (get_oidc_client N) (\<lambda>c. case c of
        None \<Rightarrow> ret pam_authtok_err
      | Some client \<Rightarrow>
          bindp (pam_info pamh
            (''Password changes are not supported via PAM for OIDC accounts.'' @ [CHR 0x0A] @
             ''Please change your password at your identity provider:'' @ [CHR 0x0A] @ ''  '' @
             oe_issuer (oc_endpoints client))) (\<lambda>_. ret pam_authtok_err))"

definition pam_sm_chauthtok :: "proc_env \<Rightarrow> pam_handle \<Rightarrow> int pam" where
  "pam_sm_chauthtok N pamh w = chauthtok_impl N pamh (log_pam N w)"

definition acct_mgmt_impl :: "proc_env \<Rightarrow> pam_handle \<Rightarrow> int pam" where
  "acct_mgmt_impl N pamh =
     (case get_pam_user pamh of
        Ok username \<Rightarrow>
          bindp (get_service N) (\<lambda>svc. case svc of
             None \<Rightarrow> ret pam_authinfo_unavail
           | Some svc \<Rightarrow>
               matchp (check_user_active (pe_env N) svc username)
                 (\<lambda>active. if active then ret pam_success else ret pam_perm_denied)
                 (\<lambda>_. ret pam_authinfo_unavail))
      | _ \<Rightarrow> ret pam_auth_err)"

definition pam_sm_acct_mgmt :: "proc_env \<Rightarrow> pam_handle \<Rightarrow> int pam" where
  "pam_sm_acct_mgmt N pamh w = acct_mgmt_impl N pamh (log_pam N w)"

text \<open>The callback the device flow gets.\<close>

abbreviation show_sign_in :: "pam_handle \<Rightarrow> string \<Rightarrow> string \<Rightarrow> (pam_world, unit, oidc_error) prog" where
  "show_sign_in pamh \<equiv> \<lambda>user_code verification_uri v.
     ret () (snd (pam_info pamh (sign_in_message user_code verification_uri) v))"

lemma log_sel [simp]:
  "pw_service (start_log N i f w) = pw_service w" "pw_oidc_client (start_log N i f w) = pw_oidc_client w"
  "pw_shown (start_log N i f w) = pw_shown w" "pw_heap (start_log N i f w) = pw_heap w"
  by (simp_all add: start_log_def)

end
