(* ===== verification/Oidc_Laws.thy ===== *)
theory Oidc_Laws
  imports Oidc Scim_Laws
begin

text \<open>
  What the OIDC client promises: the endpoints it keeps, the end of the device flow and the
  number of its requests, and what an accepted ID token has gone through.
\<close>

section \<open>Discovery\<close>

lemma check_https_Ok: "check_https es s = (r, s') \<Longrightarrow> s' = s \<and> r \<noteq> Panic \<and>
    (r = Ok () \<longrightarrow> (\<forall>(n, e) \<in> set es. starts_with ''https://'' e))"
  by (induction es) (auto simp: prog_inv split: if_splits)

lemma field_or_Ok: "field_or n f s = (Ok x, s') \<longleftrightarrow> f = Some x \<and> s' = s"
  by (auto simp: field_or_def prog_inv split: option.splits)

lemma discover_with_options_Ok:
  assumes "discover_with_options H issuer_url client_id secret require_https w = (Ok c, w')"
  shows "trim_end_char CHR ''/'' (oe_issuer (oc_endpoints c)) = trim_end_char CHR ''/'' issuer_url \<and>
    oc_client_id c = client_id \<and> oc_client_secret c = secret \<and>
    sent w' = sent w @ [plain_get (discovery_url issuer_url)] \<and>
    (require_https \<longrightarrow>
       starts_with ''https://'' (oe_token_endpoint (oc_endpoints c)) \<and>
       starts_with ''https://'' (oe_device_authorization_endpoint (oc_endpoints c)) \<and>
       starts_with ''https://'' (oe_jwks_uri (oc_endpoints c)))"
  using assms
  by (auto simp: discover_with_options_def Let_def prog_inv field_or_Ok dest!: get_json_result check_https_Ok
      split: if_splits)

text \<open>C24: discovery gives a client only when the document's issuer is the configured one up to trailing
  slashes and names all endpoints, and, unless opted out, each of them is an HTTPS URL; the only
  request is a plain GET of the well-known document.\<close>

theorem discovery_checks_endpoints:
  assumes "discover_with_options H issuer_url client_id secret require_https w = (Ok c, w')"
  shows "trim_end_char CHR ''/'' (oe_issuer (oc_endpoints c)) = trim_end_char CHR ''/'' issuer_url \<and>
    oc_client_id c = client_id \<and> oc_client_secret c = secret \<and>
    sent w' = sent w @ [plain_get (discovery_url issuer_url)] \<and>
    (require_https \<longrightarrow>
       starts_with ''https://'' (oe_token_endpoint (oc_endpoints c)) \<and>
       starts_with ''https://'' (oe_device_authorization_endpoint (oc_endpoints c)) \<and>
       starts_with ''https://'' (oe_jwks_uri (oc_endpoints c)))"
  by (rule discover_with_options_Ok [OF assms])

text \<open>A discovery document, and an identity provider that always serves it.\<close>

definition sample_discovery :: doc where
  "sample_discovery = DObj
     [(''issuer'', DStr ''http://idp''), (''token_endpoint'', DStr ''https://idp/token''),
      (''device_authorization_endpoint'', DStr ''https://idp/device''), (''jwks_uri'', DStr ''https://idp/jwks'')]"

definition sample_idp :: http_env where
  "sample_idp = \<lparr>he_net = (\<lambda>log rq. (Reply 200 (Some (rq_url rq)), 1000)),
     he_redirects = (\<lambda>_ _. []),
     he_parse = (\<lambda>url.
       if url = ''https://idp/device'' then Some (DObj [(''device_code'', DStr ''dc''), (''user_code'', DStr ''UC''),
         (''verification_uri'', DStr ''https://idp/v''), (''expires_in'', DInt 9223372036854775808)])
       else if url = ''https://idp/token'' then Some (DObj [(''error'', DStr ''authorization_pending'')])
       else Some sample_discovery),
     he_percent_encode = (\<lambda>_ s. s)\<rparr>"

definition sample_wire :: wire where
  "sample_wire = \<lparr>sent = [], redirected = [], mono = 0\<rparr>"

theorem discovery_checks_endpoints_witness:
  "\<exists>c. fst (discover_with_options sample_idp ''http://idp/'' ''id'' None True sample_wire) = Ok c \<and>
     starts_with ''https://'' (oe_token_endpoint (oc_endpoints c))"
proof -
  have "\<exists>c w'. discover_with_options sample_idp ''http://idp/'' ''id'' None True sample_wire = (Ok c, w')"
    by (rule runs_Ok) code_simp
  then obtain c w' where run: "discover_with_options sample_idp ''http://idp/'' ''id'' None True sample_wire = (Ok c, w')"
    by blast
  from discovery_checks_endpoints [OF run] show ?thesis by (simp add: run)
qed

text \<open>The HTTPS requirement covers the three endpoints of the document only: an issuer URL with plain
  HTTP, over which the document itself is fetched, passes with the requirement on.\<close>

theorem discovery_allows_http_issuer:
  "case discover sample_idp ''http://idp'' ''id'' None sample_wire of
     (Ok c, w) \<Rightarrow> oe_issuer (oc_endpoints c) = ''http://idp'' \<and>
       map rq_url (sent w) = [''http://idp/.well-known/openid-configuration'']
   | _ \<Rightarrow> False"
  by code_simp

text \<open>
  Nor does it cover where the agent is redirected to: with the requirement on and every URL of the
  document on HTTPS, a redirect by the issuer still makes the agent fetch over plain HTTP.
\<close>

definition moved_idp :: http_env where
  "moved_idp = sample_idp\<lparr>
     he_redirects := (\<lambda>log rq. [plain_get ''http://old-idp/.well-known/openid-configuration'']),
     he_parse := (\<lambda>url. Some (DObj [(''issuer'', DStr ''https://idp''), (''token_endpoint'', DStr ''https://idp/token''),
       (''device_authorization_endpoint'', DStr ''https://idp/device''), (''jwks_uri'', DStr ''https://idp/jwks'')]))\<rparr>"

theorem redirects_leave_https:
  "default_redirects moved_idp \<and>
   (case discover moved_idp ''https://idp'' ''id'' None sample_wire of
      (Ok c, w) \<Rightarrow> map rq_url (sent w) = [''https://idp/.well-known/openid-configuration''] \<and>
        map rq_url (redirected w) = [''http://old-idp/.well-known/openid-configuration'']
    | _ \<Rightarrow> False)"
proof
  show "default_redirects moved_idp" by (simp add: default_redirects_def moved_idp_def plain_get_def)
qed code_simp

section \<open>The device flow\<close>

lemma poll_for_token_result:
  assumes "poll_for_token H c dc w = (r, w')"
  shows "sent w' = sent w @ [poll_request c dc] \<and> mono w \<le> mono w' \<and> r \<noteq> Panic"
  using assms
  by (auto simp: poll_for_token_def prog_inv read_body_def dest!: http_send_result read_json_state
      split: prod.splits if_splits option.splits)

text \<open>The clock of a flow whose deadline an \<open>Instant\<close> can hold.\<close>

definition instant_limit :: nat where
  "instant_limit = 9223372036854775808 * 1000000000"

lemma nanos_ge: "5 \<le> unat i \<Longrightarrow> 5000000000 \<le> nanos i"
  by (simp add: nanos_def)

lemma interval_grows:
  assumes "nanos i < instant_limit"
  shows "unat (i + 5 :: u64) = unat i + 5"
proof -
  have "unat i < 9223372036854775808" using assms by (simp add: nanos_def instant_limit_def)
  then have "unat i + unat (5 :: u64) < 2 ^ LENGTH(64)" by simp
  then have "unat (i + 5) = unat i + unat (5 :: u64)" by (rule unat_add_lem [THEN iffD1])
  then show ?thesis by simp
qed

lemma poll_count:
  fixes k m m' d :: nat
  assumes "m + k \<le> m'" "m' < d" "0 < k"
  shows "1 + (d - m') div k \<le> (d - m) div k"
proof -
  have "(d - m) div k = Suc ((d - m - k) div k)"
    by (rule le_div_geq) (use assms in auto)
  moreover have "(d - m') div k \<le> (d - m - k) div k"
    by (rule div_le_mono) (use assms in simp)
  ultimately show ?thesis by simp
qed

lemma poll_loop_step:
  fixes w :: "'z wire_scheme"
  assumes "5 \<le> unat i" "d \<le> instant_limit"
  obtains (finished) r w' where "poll_loop H c dc d i w = Some (r, w')" "r \<noteq> Panic"
      "(r = Err ExpiredToken \<and> sent w' = sent w) \<or>
       (sent w' = sent w @ [poll_request c dc] \<and> mono w + 5000000000 < d)"
    | (again) j w2 where "poll_loop H c dc d i w = poll_loop H c dc d j w2" "5 \<le> unat j"
      "sent w2 = sent w @ [poll_request c dc]" "mono w + 5000000000 \<le> mono w2" "mono w + 5000000000 < d"
proof -
  define w1 where "w1 = sleep_secs i w"
  have w1: "sent w1 = sent w" "mono w1 = mono w + nanos i" by (simp_all add: w1_def sleep_secs_def)
  note eq = poll_loop.simps [of H c dc d i w, folded w1_def, unfolded Let_def]
  note five = nanos_ge [OF assms(1)]
  show thesis
  proof (cases "d \<le> mono w1")
    case True
    then show ?thesis using eq w1 by (intro finished [of "Err ExpiredToken" w1]) simp_all
  next
    case False
    then have lim: "nanos i < instant_limit" "mono w + 5000000000 < d" using w1(2) assms(2) five by simp_all
    obtain r w2 where poll: "poll_for_token H c dc w1 = (r, w2)" by (cases "poll_for_token H c dc w1")
    note res = poll_for_token_result [OF poll]
    have mono: "mono w + 5000000000 \<le> mono w2" using res w1(2) five by simp
    show ?thesis
    proof (cases "r = Err AuthorizationPending \<or> r = Err SlowDown")
      case True
      then show ?thesis
      proof
        assume "r = Err AuthorizationPending"
        with False eq poll res w1 mono lim(2) show ?thesis by (intro again [of i w2]) (simp_all add: assms(1))
      next
        assume "r = Err SlowDown"
        with False eq poll res w1 mono lim interval_grows [OF lim(1)] show ?thesis
          by (intro again [of "i + 5" w2]) simp_all
      qed
    next
      case no: False
      with False eq poll res w1 lim(2) show ?thesis
        by (intro finished [of r w2]; cases r) auto
    qed
  qed
qed

text \<open>The loop returns, without a panic, after at most one poll for every five seconds it had.\<close>

lemma poll_loop_returns:
  assumes "5 \<le> unat i" "d \<le> instant_limit"
  shows "\<exists>r w'. poll_loop H c dc d i w = Some (r, w') \<and> r \<noteq> Panic \<and>
    (\<exists>k \<le> (d - mono w) div 5000000000. sent w' = sent w @ replicate k (poll_request c dc))"
  using assms(1)
proof (induction "d - mono w" arbitrary: w i rule: less_induct)
  case less
  show ?case
    using less.prems assms(2)
  proof (cases rule: poll_loop_step [of i d H c dc w])
    case (finished r w')
    from finished(3) show ?thesis
    proof
      assume "r = Err ExpiredToken \<and> sent w' = sent w"
      with finished(1,2) show ?thesis by (intro exI [of _ r] exI [of _ w'] conjI exI [of _ 0]) simp_all
    next
      assume a: "sent w' = sent w @ [poll_request c dc] \<and> mono w + 5000000000 < d"
      then have "1 \<le> (d - mono w) div 5000000000"
        using poll_count [of "mono w" 5000000000 "mono w + 5000000000" d] by simp
      with a finished(1,2) show ?thesis
        by (intro exI [of _ r] exI [of _ w'] conjI exI [of _ 1]) simp_all
    qed
  next
    case (again j w2)
    have "d - mono w2 < d - mono w" using again(4,5) by linarith
    from less.hyps [OF this again(2)] obtain r w' k where IH: "poll_loop H c dc d j w2 = Some (r, w')" "r \<noteq> Panic"
      "k \<le> (d - mono w2) div 5000000000" "sent w' = sent w2 @ replicate k (poll_request c dc)" by blast
    have "Suc k \<le> (d - mono w) div 5000000000"
    proof (cases "mono w2 < d")
      case True
      from poll_count [OF again(4) this] IH(3) show ?thesis by simp
    next
      case False
      with IH(3) have "k = 0" by simp
      then show ?thesis using poll_count [of "mono w" 5000000000 "mono w + 5000000000" d] again(5) by simp
    qed
    with IH again(1,3) show ?thesis
      by (intro exI [of _ r] exI [of _ w'] conjI exI [of _ "Suc k"]) simp_all
  qed
qed

lemma max_interval: "5 \<le> unat (max i min_poll_interval_secs)"
proof -
  have "min_poll_interval_secs \<le> max i min_poll_interval_secs" by simp
  then have "unat min_poll_interval_secs \<le> unat (max i min_poll_interval_secs)" by (simp only: word_le_nat_alt)
  then show ?thesis by (simp add: min_poll_interval_secs_def)
qed

lemma deadline_of_Some:
  assumes "deadline_of now e = Some d"
  shows "d = now + nanos e \<and> d \<le> instant_limit"
proof -
  have e: "now div 1000000000 + unat e < 9223372036854775808" "d = now + nanos e"
    using assms by (auto simp: deadline_of_def split: if_splits)
  have "now < (now div 1000000000 + 1) * 1000000000" by (simp add: dividend_less_times_div)
  then have "d < (now div 1000000000 + unat e + 1) * 1000000000"
    unfolding e(2) nanos_def by (simp add: algebra_simps)
  also have "\<dots> \<le> instant_limit" unfolding instant_limit_def by (rule mult_le_mono1) (use e(1) in simp)
  finally show ?thesis using e(2) by simp
qed

definition device_request :: "oidc_client \<Rightarrow> string \<Rightarrow> request" where
  "device_request c scope =
     post_form (oe_device_authorization_endpoint (oc_endpoints c))
       (with_secret c [(''client_id'', oc_client_id c), (''scope'', scope)])"

lemma request_device_code_result:
  assumes "request_device_code H c scope w = (r, w1)"
  shows "sent w1 = sent w @ [device_request c scope] \<and> r \<noteq> Panic"
  using assms by (auto simp: request_device_code_def device_request_def prog_inv dest!: get_json_result)

lemma device_flow_result:
  assumes "\<And>u v s. sent (snd (display u v s)) = sent s"
  shows "\<exists>r w' dc k. authenticate_device_flow H c scope display w = Some (r, w') \<and>
    sent w' = sent w @ device_request c scope # replicate k (poll_request c dc) \<and>
    (\<forall>da w1. request_device_code H c scope w = (Ok da, w1) \<longrightarrow>
       dc = da_device_code da \<and> k \<le> unat (da_expires_in da) div 5)"
proof -
  obtain q w1 where req: "request_device_code H c scope w = (q, w1)" by (cases "request_device_code H c scope w")
  note sent1 = request_device_code_result [OF req]
  show ?thesis
  proof (cases q)
    case (Ok da)
    obtain s w2 where disp: "display (da_user_code da) (da_verification_uri da) w1 = (s, w2)"
      by (cases "display (da_user_code da) (da_verification_uri da) w1")
    have sent2: "sent w2 = sent w1" using assms [of "da_user_code da" "da_verification_uri da" w1] disp by simp
    note flow = authenticate_device_flow_def [of H c scope display w]
    show ?thesis
    proof (cases "\<exists>x d. s = Ok x \<and> deadline_of (mono w2) (da_expires_in da) = Some d")
      case True
      then obtain x d where s: "s = Ok x" "deadline_of (mono w2) (da_expires_in da) = Some d" by blast
      note d = deadline_of_Some [OF s(2)]
      obtain r w' k where loop: "poll_loop H c (da_device_code da) d (max (da_interval da) min_poll_interval_secs) w2 = Some (r, w')"
        "k \<le> (d - mono w2) div 5000000000" "sent w' = sent w2 @ replicate k (poll_request c (da_device_code da))"
        using poll_loop_returns [OF max_interval conjunct2 [OF d]] by blast
      have "k \<le> unat (da_expires_in da) div 5"
        using loop(2) d by (simp add: nanos_def)
      with loop(1,3) show ?thesis
        using req Ok disp s sent1 sent2 flow
        by (intro exI [of _ r] exI [of _ w'] exI [of _ "da_device_code da"] exI [of _ k]) simp
    next
      case False
      then obtain r where "authenticate_device_flow H c scope display w = Some (r, w2)"
        using req Ok disp flow by (cases s; cases "deadline_of (mono w2) (da_expires_in da)") simp_all
      then show ?thesis using sent1 sent2 req Ok
        by (intro exI [of _ r] exI [of _ w2] exI [of _ "da_device_code da"] exI [of _ 0]) simp
    qed
  next
    case (Err e)
    with req sent1 show ?thesis
      by (intro exI [of _ "Err e"] exI [of _ w1] exI [of _ "[]"] exI [of _ 0]) (simp add: authenticate_device_flow_def)
  next
    case Panic
    with sent1 show ?thesis by simp
  qed
qed

text \<open>C22: the device flow always returns, and it sends one request for the device code and then at most
  one poll for every five seconds of the code's life, each to the token endpoint; the client secret
  goes nowhere else. (The display of the instructions sends nothing.)\<close>

theorem device_flow_returns:
  assumes "\<And>u v s. sent (snd (display u v s)) = sent s"
  shows "\<exists>r w' dc k. authenticate_device_flow H c scope display w = Some (r, w') \<and>
    sent w' = sent w @ device_request c scope # replicate k (poll_request c dc) \<and>
    (\<forall>da w1. request_device_code H c scope w = (Ok da, w1) \<longrightarrow>
       dc = da_device_code da \<and> k \<le> unat (da_expires_in da) div 5)"
  by (rule device_flow_result) (rule assms)

definition sample_client :: oidc_client where
  "sample_client = \<lparr>oc_endpoints = \<lparr>oe_device_authorization_endpoint = ''https://idp/device'',
       oe_token_endpoint = ''https://idp/token'', oe_issuer = ''http://idp'', oe_jwks_uri = ''https://idp/jwks''\<rparr>,
     oc_client_id = ''id'', oc_client_secret = None\<rparr>"

theorem device_flow_returns_witness:
  "\<exists>r w'. authenticate_device_flow sample_idp sample_client ''openid'' (\<lambda>_ _. ret ()) sample_wire = Some (r, w')"
  using device_flow_returns [of "\<lambda>_ _. ret ()" sample_idp sample_client "''openid''" sample_wire]
  by (auto simp: ret_def)

text \<open>An identity provider that answers a lifetime too long for an \<open>Instant\<close> makes the addition of the
  deadline panic: the flow ends in a panic, which aborts the process that loaded the module.\<close>

theorem device_flow_panics_on_huge_lifetime:
  assumes "request_device_code H c scope w = (Ok da, w1)"
    and "display (da_user_code da) (da_verification_uri da) w1 = (Ok (), w2)"
    and "9223372036854775808 \<le> unat (da_expires_in da)"
  shows "authenticate_device_flow H c scope display w = Some (Panic, w2)"
  using assms by (simp add: authenticate_device_flow_def deadline_of_def)

theorem device_flow_panics_on_huge_lifetime_witness:
  "\<exists>w2. authenticate_device_flow sample_idp sample_client ''openid'' (\<lambda>_ _. ret ()) sample_wire = Some (Panic, w2)"
proof -
  have "case fst (request_device_code sample_idp sample_client ''openid'' sample_wire) of
      Ok da \<Rightarrow> da_expires_in da = 9223372036854775808 | _ \<Rightarrow> False" by code_simp
  then obtain da w1 where req: "request_device_code sample_idp sample_client ''openid'' sample_wire = (Ok da, w1)"
    "da_expires_in da = 9223372036854775808"
    by (cases "request_device_code sample_idp sample_client ''openid'' sample_wire") (auto split: outcome.splits)
  show ?thesis
    using device_flow_panics_on_huge_lifetime [OF req(1), of "\<lambda>_ _. ret ()" w1] req(2) by (simp add: ret_def)
qed

section \<open>ID tokens\<close>

lemma validate_id_token_Ok:
  assumes "validate_id_token H J c tok w = (Ok claims, w')"
  obtains header jwks jwk key d where "jl_header J tok = Some header"
    "get_json H (jl_jwks J) (plain_get (oe_jwks_uri (oc_endpoints c))) w = (Ok jwks, w')"
    "select_jwk J (jh_kid header) jwks = Some jwk" "jl_key J jwk = Some key"
    "jl_decode J (mono w') tok key (id_token_validation c (jh_alg header)) = Some d"
    "decode_claims d = Some claims"
proof -
  from assms obtain header where h: "jl_header J tok = Some header"
    by (cases "jl_header J tok") (simp_all add: validate_id_token_def prog_inv)
  with assms obtain jwks w1 where get: "get_json H (jl_jwks J) (plain_get (oe_jwks_uri (oc_endpoints c))) w = (Ok jwks, w1)"
    and rest: "(case select_jwk J (jh_kid header) jwks of None \<Rightarrow> fail (IdTokenDecode (no_jwk (jh_kid header)))
      | Some jwk \<Rightarrow> (case jl_key J jwk of None \<Rightarrow> fail JwtValidation
        | Some key \<Rightarrow> (\<lambda>w. case Option.bind
             (jl_decode J (mono w) tok key (id_token_validation c (jh_alg header))) decode_claims of
             None \<Rightarrow> fail JwtValidation w | Some claims \<Rightarrow> ret claims w))) w1 = (Ok claims, w')"
    unfolding validate_id_token_def by (simp only: option.case tryp_eq) blast
  from rest obtain jwk where jwk: "select_jwk J (jh_kid header) jwks = Some jwk"
    by (cases "select_jwk J (jh_kid header) jwks") (simp_all add: prog_inv)
  with rest obtain key where key: "jl_key J jwk = Some key"
    by (cases "jl_key J jwk") (simp_all add: prog_inv)
  with rest jwk have "(case Option.bind (jl_decode J (mono w1) tok key (id_token_validation c (jh_alg header))) decode_claims of
      None \<Rightarrow> fail JwtValidation w1 | Some claims \<Rightarrow> ret claims w1) = (Ok claims, w')" by simp
  then have "w1 = w'" "Option.bind (jl_decode J (mono w1) tok key (id_token_validation c (jh_alg header))) decode_claims = Some claims"
    by (simp_all add: prog_inv split: option.splits)
  then show thesis using that [OF h _ jwk key] get by (auto simp: bind_eq_Some_conv)
qed

text \<open>C23: an ID token is accepted only when the JWT library decoded it with a key of the JWKS the client
  fetched from the discovered URI (the key named by the token's header, if it names one), under a
  validation that demands the discovered issuer, the configured client as audience, and an expiry;
  the claims returned are those of that token.\<close>

theorem id_token_validated:
  assumes "validate_id_token H J c tok w = (Ok claims, w')"
  shows "sent w' = sent w @ [plain_get (oe_jwks_uri (oc_endpoints c))] \<and>
    (\<exists>header jwks jwk key d.
       jl_header J tok = Some header \<and>
       get_json H (jl_jwks J) (plain_get (oe_jwks_uri (oc_endpoints c))) w = (Ok jwks, w') \<and>
       jwk \<in> set jwks \<and> (jh_kid header = None \<or> jl_kid J jwk = jh_kid header) \<and> jl_key J jwk = Some key \<and>
       jl_decode J (mono w') tok key \<lparr>va_alg = jh_alg header, va_iss = [oe_issuer (oc_endpoints c)],
         va_aud = [oc_client_id c], va_required = [''sub'', ''exp'', ''iss''], va_exp = True\<rparr> = Some d \<and>
       decode_claims d = Some claims)"
proof -
  obtain header jwks jwk key d where *: "jl_header J tok = Some header"
    "get_json H (jl_jwks J) (plain_get (oe_jwks_uri (oc_endpoints c))) w = (Ok jwks, w')"
    "select_jwk J (jh_kid header) jwks = Some jwk" "jl_key J jwk = Some key"
    "jl_decode J (mono w') tok key (id_token_validation c (jh_alg header)) = Some d"
    "decode_claims d = Some claims"
    by (rule validate_id_token_Ok [OF assms])
  have "jwk \<in> set jwks \<and> (jh_kid header = None \<or> jl_kid J jwk = jh_kid header)"
    using *(3) by (auto simp: select_jwk_def find_Some_iff split: option.splits list.splits)
  with * get_json_result [OF *(2)] show ?thesis by (auto simp: id_token_validation_def)
qed

text \<open>A JWT library that knows one key and takes the text \<open>t\<close> for a token of \<open>ann\<close>.\<close>

definition sample_jwt :: "(u16, u16) jwt_lib" where
  "sample_jwt = \<lparr>jl_header = (\<lambda>tok. if tok = ''t'' then Some \<lparr>jh_alg = ''RS256'', jh_kid = Some ''k''\<rparr> else None),
     jl_jwks = (\<lambda>d. Some [1]), jl_kid = (\<lambda>j. if j = 1 then Some ''k'' else None), jl_key = (\<lambda>j. Some (j + 1)),
     jl_decode = (\<lambda>now tok key v.
       if key = 2 \<and> va_aud v = [''id''] then Some (DObj [(''sub'', DStr ''ann''), (''iss'', DStr ''http://idp''),
         (''aud'', DStr ''id''), (''exp'', DInt 5)])
       else None)\<rparr>"

theorem id_token_validated_witness:
  "\<exists>claims. fst (validate_id_token sample_idp sample_jwt sample_client ''t'' sample_wire) = Ok claims \<and>
     (\<exists>key v. jl_decode sample_jwt 1000 ''t'' key v \<noteq> None \<and> va_aud v = [''id''])"
proof -
  have "\<exists>claims w'. validate_id_token sample_idp sample_jwt sample_client ''t'' sample_wire = (Ok claims, w')"
    by (rule runs_Ok) code_simp
  then obtain claims w' where run: "validate_id_token sample_idp sample_jwt sample_client ''t'' sample_wire = (Ok claims, w')"
    by blast
  have aud: "oc_client_id sample_client = ''id''" by (simp add: sample_client_def)
  from id_token_validated [OF run] obtain key v where "jl_decode sample_jwt (mono w') ''t'' key v \<noteq> None"
    "va_aud v = [''id'']" unfolding aud by fastforce
  then have "jl_decode sample_jwt 1000 ''t'' key v \<noteq> None \<and> va_aud v = [''id'']"
    by (simp add: sample_jwt_def)
  with run show ?thesis by auto
qed

end
