(* ===== verification/Example_Sign_In.thy ===== *)
theory Example_Sign_In
  imports Pam_Module Oidc_Laws Service_Spec
begin

text \<open>
  An identity provider that answers every request with its URL, whose documents are the ones below;
  its directory knows \<open>ann\<close> under the identifier \<open>a\<close>, which is the subject of the token it issues.
\<close>

definition login_http :: http_env where
  "login_http = \<lparr>
     he_net = (\<lambda>log rq. (Reply 200 (Some (rq_url rq)), 0)),
     he_redirects = (\<lambda>_ _. []),
     he_parse = (\<lambda>url.
       if url = ''https://idp/device'' then Some (DObj [(''device_code'', DStr ''dc''), (''user_code'', DStr ''UC''),
         (''verification_uri'', DStr ''https://idp/v''), (''expires_in'', DInt 600)])
       else if url = ''https://idp/token'' then Some (DObj [(''access_token'', DStr ''x''),
         (''id_token'', DStr ''t''), (''token_type'', DStr ''Bearer'')])
       else if url = ''https://idp/Users'' then Some (DObj [(''totalResults'', DInt 1), (''Resources'', DArr
         [DObj [(''id'', DStr ''a''), (''userName'', DStr ''ann'')]])])
       else Some (DObj [])),
     he_percent_encode = (\<lambda>_ s. s)\<rparr>"

definition login_jwt :: "(u16, u16) jwt_lib" where
  "login_jwt = \<lparr>jl_header = (\<lambda>_. Some \<lparr>jh_alg = ''RS256'', jh_kid = None\<rparr>),
     jl_jwks = (\<lambda>_. Some [1]), jl_kid = (\<lambda>_. None), jl_key = (\<lambda>j. Some j),
     jl_decode = (\<lambda>now tok key v.
       if tok = ''t'' \<and> va_aud v = [''c'']
       then Some (DObj [(''sub'', DStr ''a''), (''iss'', DStr ''https://idp''), (''aud'', DStr ''c''), (''exp'', DInt 5)])
       else None)\<rparr>"

definition login_env :: proc_env where
  "login_env = \<lparr>pe_env = (demo_env True)\<lparr>env_http := login_http\<rparr>, pe_env_var = (\<lambda>_. None),
     pe_parse_toml = (\<lambda>_. None), pe_conn_open = (\<lambda>_. ret empty_cache)\<rparr>"

definition login_client :: oidc_client where
  "login_client = \<lparr>oc_endpoints = \<lparr>oe_device_authorization_endpoint = ''https://idp/device'',
       oe_token_endpoint = ''https://idp/token'', oe_issuer = ''https://idp'', oe_jwks_uri = ''https://idp/jwks''\<rparr>,
     oc_client_id = ''c'', oc_client_secret = None\<rparr>"

text \<open>An application that answers every message with an empty text, at the first free addresses from 8.\<close>

definition answer_places :: "nat list" where
  "answer_places = [8 ..< 64]"

lemma answer_places: "distinct answer_places" "p \<in> set answer_places \<Longrightarrow> p \<noteq> 0"
  by (simp_all add: answer_places_def del: upt_rec_numeral)

definition polite_conv :: conv_fn where
  "polite_conv n ms a h =
     (case filter (\<lambda>p. ph_blocks h p = None) answer_places of
        p # q # _ \<Rightarrow> ((0, p), h\<lparr>ph_blocks := (ph_blocks h)(p \<mapsto> ResponseBlock \<lparr>pr_resp = q, pr_retcode = 0\<rparr>, q \<mapsto> TextBlock [])\<rparr>)
      | _ \<Rightarrow> ((5, 0), h))"

lemma polite_allocates: "allocates_answers polite_conv"
  unfolding allocates_answers_def
proof (intro allI)
  fix n ms a and h :: pam_heap
  let ?free = "filter (\<lambda>p. ph_blocks h p = None) answer_places"
  show "let ((code, resp), h') = polite_conv n ms a h in
     (resp = 0 \<and> h' = h) \<or>
     (\<exists>r. resp \<noteq> 0 \<and> ph_blocks h resp = None \<and>
       ((pr_resp r = 0 \<and> h' = h\<lparr>ph_blocks := (ph_blocks h)(resp \<mapsto> ResponseBlock r)\<rparr>) \<or>
        (\<exists>t. pr_resp r \<notin> {0, resp} \<and> ph_blocks h (pr_resp r) = None \<and>
          h' = h\<lparr>ph_blocks := (ph_blocks h)(resp \<mapsto> ResponseBlock r, pr_resp r \<mapsto> TextBlock t)\<rparr>)))"
  proof (cases "\<exists>p q rest. ?free = p # q # rest")
    case True
    then obtain p q rest where free: "?free = p # q # rest" by blast
    have "distinct ?free" using answer_places(1) by simp
    then have "q \<noteq> p" unfolding free by simp
    have "x \<noteq> 0 \<and> ph_blocks h x = None" if "x \<in> set ?free" for x using that answer_places(2) by simp
    then have "p \<noteq> 0 \<and> ph_blocks h p = None" "q \<noteq> 0 \<and> ph_blocks h q = None" unfolding free by simp_all
    with \<open>q \<noteq> p\<close> show ?thesis
      by (simp add: polite_conv_def free) (rule exI [of _ "\<lparr>pr_resp = q, pr_retcode = 0\<rparr>"], auto)
  next
    case False
    then show ?thesis by (auto simp: polite_conv_def split: list.split)
  qed
qed

definition login_handle :: pam_handle where
  "login_handle = \<lparr>ph_user = (0, Some ''ann''), ph_item = (\<lambda>_. (0, Some \<lparr>pc_conv = Some polite_conv, pc_appdata = 0\<rparr>))\<rparr>"

definition login_world :: "oidc_client option option \<Rightarrow> pam_world" where
  "login_world c = \<lparr>sent = [], redirected = [], mono = 0, w_cache = empty_cache,
     p_fs = \<lparr>fs_stat = (\<lambda>_. Err (IoError 2)), fs_text = (\<lambda>_. Err (IoError 2)),
              fs_chmod_error = (\<lambda>_. None), fs_euid = 0\<rparr>,
     p_log = log_init (\<lambda>_. None) ''pam_oidc'' facility_authpriv silent_log,
     pw_shown = [], pw_heap = \<lparr>ph_blocks = (\<lambda>_. None), ph_faults = 0\<rparr>,
     pw_service = Some (Some (demo_service Deny)), pw_oidc_client = c\<rparr>"

lemma login_logged [simp]: "start_log N i f (login_world c) = login_world c"
  by (simp add: login_world_def start_log_def log_init_def Let_def)

lemma login_polite: "well_behaved login_handle"
  by (simp add: well_behaved_def get_pam_conv_def login_handle_def polite_allocates)

lemma login_user: "get_pam_user login_handle = Ok ''ann''"
  by code_simp

lemma login_send: "http_send login_http rq w = (Ok (200, Some (rq_url rq)), w\<lparr>sent := sent w @ [rq]\<rparr>)"
  by (simp add: http_send_def login_http_def)

lemma login_get:
  "get_json login_http dec rq w =
     (case Option.bind (he_parse login_http (rq_url rq)) dec of None \<Rightarrow> Err BadJson | Some x \<Rightarrow> Ok x,
      w\<lparr>sent := sent w @ [rq]\<rparr>)"
  by (simp add: get_json_def http_call_def read_json_def read_body_def bindp_def matchp_def login_send
      ret_def fail_def split: option.split)

lemma login_device: "Option.bind (he_parse login_http ''https://idp/device'') decode_device_auth =
    Some \<lparr>da_device_code = ''dc'', da_user_code = ''UC'', da_verification_uri = ''https://idp/v'',
      da_verification_uri_complete = None, da_expires_in = 600, da_interval = 5\<rparr>"
  by code_simp

abbreviation "login_token_response \<equiv> \<lparr>tr_access_token = ''x'', tr_id_token = Some ''t'', tr_token_type = ''Bearer''\<rparr>"

lemma login_poll: "Option.bind (he_parse login_http ''https://idp/token'') decode_token_response = Some login_token_response"
  by code_simp

lemma login_client_uris [simp]:
  "rq_url (post_form u f) = u" "oe_device_authorization_endpoint (oc_endpoints login_client) = ''https://idp/device''"
  "oe_token_endpoint (oc_endpoints login_client) = ''https://idp/token''"
  by (simp_all add: post_form_def login_client_def)

text \<open>The state the flow leaves.\<close>

definition login_after :: "request list \<Rightarrow> nat \<Rightarrow> pam_message list \<Rightarrow> pam_world" where
  "login_after rqs t shown = (login_world (Some (Some login_client)))\<lparr>sent := rqs, mono := t, pw_shown := shown\<rparr>"

lemma login_verified:
  "fst (verify_subject login_env login_jwt login_client ''ann'' login_token_response (login_after rqs t shown)) =
     Ok pam_success"
  by code_simp

lemma login_token:
  "\<exists>rqs t shown. authenticate_device_flow login_http login_client ''openid'' (show_sign_in login_handle)
     (login_world (Some (Some login_client))) = Some (Ok login_token_response, login_after rqs t shown)"
proof -
  let ?w = "login_world (Some (Some login_client))"
  let ?w1 = "?w\<lparr>sent := [device_request login_client ''openid'']\<rparr>"
  let ?w2 = "?w1\<lparr>pw_shown := [\<lparr>pm_style = pam_text_info, pm_msg = sign_in_message ''UC'' ''https://idp/v''\<rparr>]\<rparr>"
  have device: "request_device_code login_http login_client ''openid'' ?w =
      (Ok \<lparr>da_device_code = ''dc'', da_user_code = ''UC'', da_verification_uri = ''https://idp/v'',
        da_verification_uri_complete = None, da_expires_in = 600, da_interval = 5\<rparr>, ?w1)"
    by (simp add: request_device_code_def tryp_def matchp_def login_get login_device ret_def device_request_def)
      (simp add: login_world_def)
  have nul: "NUL \<notin> set (sign_in_message ''UC'' ''https://idp/v'')" by code_simp
  have shown: "show_sign_in login_handle ''UC'' ''https://idp/v'' ?w1 = (Ok (), ?w2)"
  proof -
    obtain code resp h where run: "polite_conv 1 [\<lparr>pm_style = pam_text_info, pm_msg = sign_in_message ''UC'' ''https://idp/v''\<rparr>] 0
        (pw_heap ?w1) = ((code, resp), h)" by (metis surj_pair)
    with answer_freed [OF polite_allocates run] nul show ?thesis
      by (simp add: pam_info_def get_pam_conv_def login_handle_def pam_success_def ret_def Let_def) (simp add: login_world_def)
  qed
  have poll: "poll_for_token login_http login_client ''dc'' v =
      (Ok login_token_response, v\<lparr>sent := sent v @ [poll_request login_client ''dc'']\<rparr>)" for v :: pam_world
    using login_poll
    by (simp add: poll_for_token_def tryp_def matchp_def login_send poll_request_def read_json_def read_body_def
        bindp_def ret_def)
  show ?thesis
    by (simp add: authenticate_device_flow_def device shown poll poll_loop.simps sleep_secs_def nanos_def
        deadline_of_def min_poll_interval_secs_def max_def)
      (auto simp: login_world_def login_after_def)
qed

end
