(* ===== verification/Pam_Laws.thy ===== *)
theory Pam_Laws
  imports Example_Sign_In
begin

text \<open>
  What the PAM module promises: who it lets in, which verdict it gives on an account, that its
  entry points return, and what becomes of a first discovery that failed.
\<close>

section \<open>The client of the process\<close>

lemma on_fs_eq: "on_fs m w = (r, w') \<longleftrightarrow> (\<exists>t. m (p_fs w) = (r, t) \<and> w' = w\<lparr>p_fs := t\<rparr>)"
  by (simp add: on_fs_def zoomp_eq)

lemma load_config_result:
  assumes "load_config N w = (r, w')"
  shows "sent w' = sent w \<and> w_cache w' = w_cache w"
  using assms
  by (auto simp: load_config_def on_fs_eq)

lemma load_config_shared:
  assumes "load_config N (w :: pam_world) = (r, w')"
  shows "pw_oidc_client w' = pw_oidc_client w \<and> pw_service w' = pw_service w \<and> pw_shown w' = pw_shown w \<and> pw_heap w' = pw_heap w"
  using assms by (auto simp: load_config_def on_fs_eq)

text \<open>A client that belongs to a configuration.\<close>

definition vetted_client :: "config \<Rightarrow> oidc_client \<Rightarrow> bool" where
  "vetted_client cfg c \<longleftrightarrow>
     trim_end_char CHR ''/'' (oe_issuer (oc_endpoints c)) = trim_end_char CHR ''/'' (co_issuer_url (cfg_oidc cfg)) \<and>
     oc_client_id c = co_client_id (cfg_oidc cfg) \<and> oc_client_secret c = co_client_secret (cfg_oidc cfg) \<and>
     (\<not> co_allow_insecure (cfg_oidc cfg) \<longrightarrow>
        starts_with ''https://'' (oe_token_endpoint (oc_endpoints c)) \<and>
        starts_with ''https://'' (oe_device_authorization_endpoint (oc_endpoints c)) \<and>
        starts_with ''https://'' (oe_jwks_uri (oc_endpoints c)))"

text \<open>A process that has, or will load, the configuration \<open>cfg\<close>.\<close>

definition login_ready :: "proc_env \<Rightarrow> config \<Rightarrow> pam_world \<Rightarrow> bool" where
  "login_ready N cfg w =
     (case pw_oidc_client w of
        None \<Rightarrow> fst (load_config N w) = Ok cfg
      | Some None \<Rightarrow> True
      | Some (Some c) \<Rightarrow> vetted_client cfg c)"

lemma login_ready_log: "login_ready N cfg (log_pam M w) = login_ready N cfg w"
  by (simp add: login_ready_def split: option.split)

lemma discover_vetted:
  assumes "(if co_allow_insecure (cfg_oidc cfg) then discover_insecure else discover) H
      (co_issuer_url (cfg_oidc cfg)) (co_client_id (cfg_oidc cfg)) (co_client_secret (cfg_oidc cfg)) w = (Ok c, w')"
  shows "vetted_client cfg c"
  using assms
  by (auto simp: discover_def discover_insecure_def vetted_client_def split: if_splits
      dest!: discover_with_options_Ok)

lemma get_oidc_client_known: "pw_oidc_client w = Some c \<Longrightarrow> get_oidc_client N w = (Ok c, w)"
  by (simp add: get_oidc_client_def ret_def)

lemma get_oidc_client_sets:
  assumes "get_oidc_client N w = (Ok c, w')"
  shows "pw_oidc_client w' = Some c"
  using assms by (auto simp: get_oidc_client_def prog_inv split: option.splits)

lemma get_oidc_client_first:
  assumes "get_oidc_client N w = (Ok (Some c), w')" "pw_oidc_client w = None"
  obtains cfg v v' where "load_config N (log_pam N w) = (Ok cfg, v)"
    "(if co_allow_insecure (cfg_oidc cfg) then discover_insecure else discover) (env_http (pe_env N))
      (co_issuer_url (cfg_oidc cfg)) (co_client_id (cfg_oidc cfg)) (co_client_secret (cfg_oidc cfg)) v = (Ok c, v')"
  using assms unfolding get_oidc_client_def Let_def
  by (simp only: option.case bindp_eq matchp_eq ret_Ok init_logging_eq) auto

lemma get_oidc_client_vetted:
  assumes "login_ready N cfg w" "get_oidc_client N w = (Ok (Some c), w')"
  shows "vetted_client cfg c"
proof (cases "pw_oidc_client w")
  case None
  obtain cfg' v v' where run: "load_config N (log_pam N w) = (Ok cfg', v)"
    "(if co_allow_insecure (cfg_oidc cfg') then discover_insecure else discover) (env_http (pe_env N))
      (co_issuer_url (cfg_oidc cfg')) (co_client_id (cfg_oidc cfg')) (co_client_secret (cfg_oidc cfg')) v = (Ok c, v')"
    by (rule get_oidc_client_first [OF assms(2) None])
  from assms(1) None have "fst (load_config N (log_pam N w)) = Ok cfg" by (simp add: login_ready_def)
  with run(1) have "cfg' = cfg" by simp
  with discover_vetted [OF run(2)] show ?thesis by simp
next
  case (Some oc)
  with assms get_oidc_client_known [OF Some] show ?thesis by (simp add: login_ready_def)
qed

lemma field_or_pure: "keeps P (field_or n f)" "no_panic (field_or n f)"
  unfolding field_or_def by (intro preserved panic_free)+

lemma check_https_pure: "keeps P (check_https es)" "no_panic (check_https es)"
  by (induction es rule: check_https.induct) (auto intro!: preserved panic_free)

lemma discover_no_panic: "no_panic (discover_with_options H issuer_url client_id secret require_https)"
  unfolding discover_with_options_def Let_def
  by (intro panic_free field_or_pure check_https_pure)

lemma discover_sends:
  assumes "discover_with_options H issuer_url client_id secret require_https w = (r, w')"
  shows "sent w' = sent w @ [plain_get (discovery_url issuer_url)]"
  using assms [unfolded discover_with_options_def Let_def tryp_eq]
proof (elim disjE exE conjE, goal_cases)
  case (1 dd t)
  have "sent w' = sent t"
    by (rule keepsD [where P = "\<lambda>v. sent v = sent t" and s = t, rotated 2], rule 1(2))
      (intro preserved field_or_pure check_https_pure, rule refl)
  with get_json_result [OF 1(1)] show ?case by auto
qed (auto dest: get_json_result)

lemma discover_effect:
  assumes "discover_with_options H issuer_url client_id secret require_https (w :: pam_world) = (r, w')"
  shows "w_cache w' = w_cache w \<and> pw_service w' = pw_service w \<and> pw_shown w' = pw_shown w \<and> pw_heap w' = pw_heap w"
proof -
  have "keeps (\<lambda>v :: pam_world. w_cache v = w_cache w \<and> pw_service v = pw_service w \<and> pw_shown v = pw_shown w \<and> pw_heap v = pw_heap w)
      (discover_with_options H issuer_url client_id secret require_https)"
    unfolding discover_with_options_def Let_def
    by (intro preserved field_or_pure check_https_pure) simp
  from keepsD [OF this _ assms] show ?thesis by simp
qed

lemma get_oidc_client_effect:
  assumes "get_oidc_client N w = (Ok c, w')"
  shows "w_cache w' = w_cache w \<and> pw_service w' = pw_service w \<and> pw_shown w' = pw_shown w \<and> pw_heap w' = pw_heap w \<and>
    (sent w' = sent w \<or> (\<exists>url. sent w' = sent w @ [plain_get (discovery_url url)]))"
proof (cases "pw_oidc_client w")
  case (Some c)
  with assms get_oidc_client_known [OF Some] show ?thesis by simp
next
  case None
  obtain q v where load: "load_config N (log_pam N w) = (q, v)" by (cases "load_config N (log_pam N w)")
  note load_effect = load_config_result [OF load] load_config_shared [OF load]
  show ?thesis
  proof (cases q)
    case (Ok cfg)
    define https where "https = (\<not> co_allow_insecure (cfg_oidc cfg))"
    have "\<exists>r v'. discover_with_options (env_http (pe_env N)) (co_issuer_url (cfg_oidc cfg)) (co_client_id (cfg_oidc cfg))
        (co_client_secret (cfg_oidc cfg)) https v = (r, v') \<and> w' = v'\<lparr>pw_oidc_client := Some c\<rparr>"
      using assms None load Ok
      by (cases https) (auto simp: https_def get_oidc_client_def discover_def discover_insecure_def Let_def prog_inv)
    then show ?thesis using load_effect discover_effect discover_sends by fastforce
  qed (use assms None load load_effect in \<open>auto simp: get_oidc_client_def prog_inv\<close>)
qed

section \<open>Signing in\<close>

lemmas pam_codes = pam_success_def pam_perm_denied_def pam_auth_err_def pam_authinfo_unavail_def pam_authtok_err_def

lemma authenticate_cases:
  assumes "pam_sm_authenticate N J pamh w = Some (Ok pam_success, w')"
  obtains username client w1 token w2 where "get_pam_user pamh = Ok username"
    "get_oidc_client N (log_pam N w) = (Ok (Some client), w1)"
    "authenticate_device_flow (env_http (pe_env N)) client ''openid'' (show_sign_in pamh) w1 = Some (Ok token, w2)"
    "verify_subject N J client username token w2 = (Ok pam_success, w')"
  using assms
  by (auto simp: pam_sm_authenticate_def authenticate_impl_def pam_codes split: outcome.splits prod.splits option.splits)

lemma verify_subject_success:
  assumes "verify_subject N J client username token w = (Ok pam_success, w')"
  obtains (direct) raw claims where "tr_id_token token = Some raw"
      "validate_id_token (env_http (pe_env N)) J client raw w = (Ok claims, w')" "ic_sub claims = username"
    | (federated) raw claims w3 svc w4 user where "tr_id_token token = Some raw"
      "validate_id_token (env_http (pe_env N)) J client raw w = (Ok claims, w3)"
      "get_service N w3 = (Ok (Some svc), w4)"
      "lookup_user_by_name (pe_env N) svc username w4 = (Ok (Some user), w')"
      "u_external_id user = ic_sub claims"
proof (cases "tr_id_token token")
  case None
  with assms show ?thesis by (simp add: verify_subject_def prog_inv pam_codes)
next
  case (Some raw)
  with assms obtain claims w3 where valid: "validate_id_token (env_http (pe_env N)) J client raw w = (Ok claims, w3)"
    and run: "(if ic_sub claims = username then ret pam_success
      else bindp (get_service N) (\<lambda>svc. case svc of None \<Rightarrow> ret pam_auth_err
        | Some svc \<Rightarrow> matchp (lookup_user_by_name (pe_env N) svc username)
            (\<lambda>found. case found of Some user \<Rightarrow>
                 if u_external_id user = ic_sub claims then ret pam_success else ret pam_auth_err
               | None \<Rightarrow> ret pam_auth_err) (\<lambda>_. ret pam_auth_err))) w3 = (Ok pam_success, w')"
    unfolding verify_subject_def
    by (simp only: option.case matchp_eq) (auto simp: prog_inv pam_codes)
  show ?thesis
  proof (cases "ic_sub claims = username")
    case True
    with run valid Some direct show ?thesis by (simp add: prog_inv)
  next
    case False
    with run show ?thesis
      by (auto simp: prog_inv pam_codes split: option.splits if_splits intro: federated [OF Some valid])
  qed
qed

text \<open>
  In the state \<open>v\<close> of a run, a token's claims are vouched for: the keys are fetched from the issuer
  then, one of them is selected by the header of the token, and the JWT library accepts the token
  with it, for this issuer and audience, at the time the keys are there.
\<close>

definition vouched ::
  "http_env \<Rightarrow> ('jwk, 'key) jwt_lib \<Rightarrow> oidc_client \<Rightarrow> string \<Rightarrow> pam_world \<Rightarrow> id_token_claims \<Rightarrow> pam_world \<Rightarrow> bool" where
  "vouched H J c raw v claims v' \<longleftrightarrow>
     (\<exists>jwks jwk key header d.
        get_json H (jl_jwks J) (plain_get (oe_jwks_uri (oc_endpoints c))) v = (Ok jwks, v') \<and>
        jl_header J raw = Some header \<and> select_jwk J (jh_kid header) jwks = Some jwk \<and> jwk \<in> set jwks \<and>
        jl_key J jwk = Some key \<and>
        jl_decode J (mono v') raw key \<lparr>va_alg = jh_alg header, va_iss = [oe_issuer (oc_endpoints c)],
          va_aud = [oc_client_id c], va_required = [''sub'', ''exp'', ''iss''], va_exp = True\<rparr> = Some d \<and>
        decode_claims d = Some claims)"

text \<open>
  In the state \<open>v\<close> of a run, \<open>sub\<close> identifies the account of a name: the directory, asked then, answers
  the name with that identifier, or it answers no user and the cache has a live row of the name with it.
\<close>

definition account_of :: "env \<Rightarrow> service \<Rightarrow> string \<Rightarrow> pam_world \<Rightarrow> string \<Rightarrow> bool" where
  "account_of V S username v sub \<longleftrightarrow>
     (case fst (scim_get_user_by_name (env_http V) (sv_scim S) username v) of
        Ok (Some su) \<Rightarrow> su_id su = sub
      | _ \<Rightarrow> list_ex (\<lambda>row. fresh_bound (env_db V) (w_cache v) < ur_cached_at row \<and>
              ur_login row = username \<and> ur_external_id row = sub) (uid_cache (w_cache v)))"

lemma validated_vouched:
  assumes "validate_id_token H J c raw (w :: pam_world) = (Ok claims, w')"
  shows "vouched H J c raw w claims w'"
proof -
  obtain header jwks jwk key d where *: "jl_header J raw = Some header"
    "get_json H (jl_jwks J) (plain_get (oe_jwks_uri (oc_endpoints c))) w = (Ok jwks, w')"
    "select_jwk J (jh_kid header) jwks = Some jwk" "jl_key J jwk = Some key"
    "jl_decode J (mono w') raw key (id_token_validation c (jh_alg header)) = Some d"
    "decode_claims d = Some claims"
    by (rule validate_id_token_Ok [OF assms])
  have "jwk \<in> set jwks"
    using *(3) by (auto simp: select_jwk_def find_Some_iff split: option.splits list.splits)
  with * show ?thesis unfolding vouched_def id_token_validation_def by blast
qed

lemma found_account:
  assumes "lookup_user_by_name V S name (w :: pam_world) = (Ok (Some user), w')"
  shows "account_of V S name w (u_external_id user)"
proof -
  have "length name \<le> max_name_len"
    using assms by (auto simp: lookup_user_by_name_def prog_inv split: if_splits)
  with assms show ?thesis
  proof (cases rule: lookup_user_by_name_Ok)
    case (online su w0 u)
    then obtain t where "scim_user_to_model V S su w0 = (Ok user, t)"
      by (auto simp: import_user_def prog_inv on_cache_eq)
    then have "su_id su = u_external_id user" using scim_user_to_model_Ok by metis
    with online(1) show ?thesis by (simp add: account_of_def)
  next
    case (cached r w0)
    from cached_user_by_name_Ok [OF cached(3)] obtain row where
      "live_user (fresh_bound (env_db V) (w_cache w)) (w_cache w) row" "ur_login row = name"
      "ur_external_id row = u_external_id user"
      by (auto simp: user_of_row_def)
    with cached(1,2) show ?thesis
      by (auto simp: account_of_def live_user_def list_ex_iff split: outcome.split option.split)
  qed
qed

lemma login_ready_demo: "login_ready login_env (demo_config Deny) (login_world (Some (Some login_client)))"
proof -
  have "vetted_client (demo_config Deny) login_client" by code_simp
  then show ?thesis by (simp add: login_ready_def login_world_def)
qed

text \<open>C1: a sign-in succeeds only for the PAM user a token was issued to. In the run that ended in success the
  process had a client of the loaded configuration, its device flow ended with a token, the JWT library
  vouched for that token with a key the issuer served after the flow, for this issuer and the configured
  audience, and the subject is the user name itself or, asked after that, the identifier of the account of
  that name: what the directory answers for the name, or a live row of the cache when it answers none.\<close>

theorem authenticate_only_verified:
  assumes "login_ready N cfg w" "pam_sm_authenticate N J pamh w = Some (Ok pam_success, w')"
  shows "\<exists>username client w1 token raw w2 claims w3.
    get_pam_user pamh = Ok username \<and>
    get_oidc_client N (log_pam N w) = (Ok (Some client), w1) \<and> vetted_client cfg client \<and>
    authenticate_device_flow (env_http (pe_env N)) client ''openid'' (show_sign_in pamh) w1 = Some (Ok token, w2) \<and>
    tr_id_token token = Some raw \<and> vouched (env_http (pe_env N)) J client raw w2 claims w3 \<and>
    (ic_sub claims = username \<or>
     (\<exists>svc w4. get_service N w3 = (Ok (Some svc), w4) \<and> account_of (pe_env N) svc username w4 (ic_sub claims)))"
proof -
  obtain username client w1 token w2 where user: "get_pam_user pamh = Ok username"
    and client: "get_oidc_client N (log_pam N w) = (Ok (Some client), w1)"
    and flow: "authenticate_device_flow (env_http (pe_env N)) client ''openid'' (show_sign_in pamh) w1 = Some (Ok token, w2)"
    and verify: "verify_subject N J client username token w2 = (Ok pam_success, w')"
    by (rule authenticate_cases [OF assms(2)])
  note vetted = get_oidc_client_vetted [OF _ client, unfolded login_ready_log, OF assms(1)]
  note run = user client vetted flow
  from verify show ?thesis
  proof (cases rule: verify_subject_success)
    case (direct raw claims)
    with run validated_vouched [OF direct(2)] show ?thesis by blast
  next
    case (federated raw claims w3 svc w4 u)
    with run validated_vouched [OF federated(2)] found_account [OF federated(4)] show ?thesis
      unfolding federated(5) by blast
  qed
qed

theorem authenticate_only_verified_witness:
  "\<exists>client w2 raw claims w3. vetted_client (demo_config Deny) client \<and> vouched login_http login_jwt client raw w2 claims w3 \<and>
     (ic_sub claims = ''ann'' \<or> (\<exists>svc w4. account_of (pe_env login_env) svc ''ann'' w4 (ic_sub claims)))"
proof -
  let ?w = "login_world (Some (Some login_client))"
  obtain rqs t shown where flow:
    "authenticate_device_flow login_http login_client ''openid'' (show_sign_in login_handle) ?w =
      Some (Ok login_token_response, login_after rqs t shown)"
    using login_token by blast
  have http: "env_http (pe_env login_env) = login_http" by (simp add: login_env_def)
  have client: "get_oidc_client login_env ?w = (Ok (Some login_client), ?w)"
    by (rule get_oidc_client_known) (simp add: login_world_def)
  obtain w' where "verify_subject login_env login_jwt login_client ''ann'' login_token_response
      (login_after rqs t shown) = (Ok pam_success, w')"
    using login_verified [of rqs t shown] by (metis prod.collapse)
  then have run: "pam_sm_authenticate login_env login_jwt login_handle ?w = Some (Ok pam_success, w')"
    by (simp add: pam_sm_authenticate_def authenticate_impl_def login_user client flow http)
  from authenticate_only_verified [OF login_ready_demo run, unfolded http login_user outcome.inject]
  obtain username client raw w2 claims w3 where "''ann'' = username" "vetted_client (demo_config Deny) client"
    "vouched login_http login_jwt client raw w2 claims w3"
    "ic_sub claims = username \<or> (\<exists>svc w4. get_service login_env w3 = (Ok (Some svc), w4) \<and>
      account_of (pe_env login_env) svc username w4 (ic_sub claims))"
    by (elim exE conjE)
  then show ?thesis by blast
qed

lemma show_sign_in_silent: "sent (snd (show_sign_in pamh u v s)) = sent s"
  using pam_info_result [of pamh "sign_in_message u v" s] by (auto simp: ret_def)

lemma get_service_no_error: "get_service N w = (r, w') \<Longrightarrow> r \<noteq> Err e"
  by (auto simp: get_service_def open_service_def service_new_def prog_inv split: option.splits)

lemma get_oidc_client_no_error: "get_oidc_client N w = (r, w') \<Longrightarrow> r \<noteq> Err e"
  by (auto simp: get_oidc_client_def Let_def prog_inv split: option.splits)

lemma verify_subject_codes:
  assumes "verify_subject N J c username token w = (r, w')"
  shows "r = Panic \<or> r = Ok pam_success \<or> r = Ok pam_auth_err"
  using assms
  by (auto simp: verify_subject_def prog_inv dest: get_service_no_error split: option.splits if_splits)

lemma authenticate_impl_returns:
  "\<exists>r w'. authenticate_impl N J pamh w = Some (r, w') \<and>
     (r = Panic \<or> (\<exists>code \<in> {pam_success, pam_auth_err, pam_authinfo_unavail}. r = Ok code))"
  proof (cases "get_pam_user pamh")
  case (Ok username)
  obtain q v where client: "get_oidc_client N w = (q, v)" by (cases "get_oidc_client N w")
  show ?thesis
  proof (cases "\<exists>c. q = Ok (Some c)")
    case True
    then obtain c where q: "q = Ok (Some c)" by blast
    obtain r v' where flow: "authenticate_device_flow (env_http (pe_env N)) c ''openid'' (show_sign_in pamh) v = Some (r, v')"
      using device_flow_result [of "show_sign_in pamh" "env_http (pe_env N)" c "''openid''" v]
      by (auto simp: show_sign_in_silent)
    obtain s w' where verify: "verify_subject N J c username token v' = (s, w')" if "r = Ok token" for token
      by (cases r; cases "verify_subject N J c username (case r of Ok t \<Rightarrow> t) v'") auto
    show ?thesis
    proof (cases r)
      case (Ok token)
      with \<open>get_pam_user pamh = Ok username\<close> client q flow verify [OF Ok] verify_subject_codes [OF verify [OF Ok]]
      show ?thesis by (auto simp: authenticate_impl_def)
    qed (use Ok client q flow in \<open>simp_all add: authenticate_impl_def\<close>)
  next
    case False
    with Ok client get_oidc_client_no_error [OF client] show ?thesis
      by (cases q) (auto simp: authenticate_impl_def split: option.splits)
  qed
qed (simp_all add: authenticate_impl_def)

text \<open>C31: a sign-in always returns, and with one of three codes: success, failure, or unavailable (never a
  code that lets the stack ignore the module), unless it panics.\<close>

theorem authenticate_returns:
  "\<exists>r w'. pam_sm_authenticate N J pamh w = Some (r, w') \<and>
     (r = Panic \<or> (\<exists>code \<in> {pam_success, pam_auth_err, pam_authinfo_unavail}. r = Ok code))"
  using authenticate_impl_returns by (simp add: pam_sm_authenticate_def)

text \<open>A first discovery that failed is kept for the life of the process: every later sign-in ends in
  \<open>PAM_AUTHINFO_UNAVAIL\<close> without a single request, whatever the network does by then.\<close>

theorem failed_discovery_sticks:
  assumes "get_oidc_client N w = (Ok None, w1)" "pw_oidc_client v = pw_oidc_client w1"
    and "get_pam_user pamh = Ok username"
  shows "pam_sm_authenticate N' J pamh v = Some (Ok pam_authinfo_unavail, log_pam N' v)"
  using assms(2,3) get_oidc_client_sets [OF assms(1)] get_oidc_client_known [of "log_pam N' v" None]
  by (simp add: pam_sm_authenticate_def authenticate_impl_def)

theorem failed_discovery_sticks_witness:
  "pam_sm_authenticate login_env login_jwt login_handle (login_world (Some None)) =
     Some (Ok pam_authinfo_unavail, login_world (Some None))"
proof -
  have "case fst (get_oidc_client login_env (login_world None)) of Ok None \<Rightarrow> True | _ \<Rightarrow> False" by code_simp
  then obtain w1 where run: "get_oidc_client login_env (login_world None) = (Ok None, w1)"
    by (cases "get_oidc_client login_env (login_world None)") (auto split: outcome.splits option.splits)
  have "pw_oidc_client (login_world (Some None)) = pw_oidc_client w1"
    using get_oidc_client_sets [OF run] by (simp add: login_world_def)
  from failed_discovery_sticks [OF run this login_user] show ?thesis by simp
qed

section \<open>Account verdicts\<close>

text \<open>C8: the account verdict of a process with a service: it permits an account only when the directory
  just called it active, or when the directory failed, the policy allows cached status and a live row
  says active; it denies only when the directory does not know the name or calls it inactive, or when
  it failed and the policy is \<open>deny\<close> or the cache has no live active row; anything else is an
  unavailable service.\<close>

theorem account_verdict:
  assumes "pw_service w = Some (Some svc)" "get_pam_user pamh = Ok name" "length name \<le> 256"
    and "pam_sm_acct_mgmt N pamh w = (Ok code, w')"
    and "scim_get_user_by_name (env_http (pe_env N)) (sv_scim svc) name w = (answer, w0)"
  defines "live \<equiv> \<lambda>row. live_user (fresh_bound (env_db (pe_env N)) (w_cache w)) (w_cache w) row \<and> ur_login row = name"
  shows "code \<in> {pam_success, pam_perm_denied, pam_authinfo_unavail} \<and>
    (code = pam_success \<longrightarrow>
       (\<exists>su. answer = Ok (Some su) \<and> su_active su \<noteq> Some False) \<or>
       ((\<exists>e. answer = Err e) \<and> offline_policy (cfg_security (sv_config svc)) = CachedStatus \<and>
        (\<exists>row. live row \<and> ur_active row))) \<and>
    (code = pam_perm_denied \<longrightarrow>
       answer = Ok None \<or> (\<exists>su. answer = Ok (Some su) \<and> su_active su = Some False) \<or>
       ((\<exists>e. answer = Err e) \<and>
        (offline_policy (cfg_security (sv_config svc)) = Deny \<or>
         \<not> (\<exists>row. live row) \<or> (\<exists>row. live row \<and> \<not> ur_active row))))"
  proof -
  let ?w = "log_pam N w"
  have known: "get_service N ?w = (Ok (Some svc), ?w)"
    using assms(1) by (simp add: get_service_def ret_def)
  have scim: "scim_get_user_by_name (env_http (pe_env N)) (sv_scim svc) name ?w = (answer, log_pam N w0)"
    using assms(5) by (simp add: scim_log)
  note run = assms(4) [unfolded pam_sm_acct_mgmt_def acct_mgmt_impl_def assms(2) outcome.case, simplified bindp_eq known, simplified]
  from run obtain r where active: "check_user_active (pe_env N) svc name ?w = (r, w')"
    and code: "code = (case r of Ok a \<Rightarrow> if a then pam_success else pam_perm_denied | _ \<Rightarrow> pam_authinfo_unavail)"
    by (auto simp: prog_inv split: if_splits)
  show ?thesis
  proof (cases r)
    case (Ok a)
    show ?thesis
    proof (cases a)
      case True
      with check_user_active_True [of "pe_env N" svc name ?w w'] active Ok code scim show ?thesis
        unfolding live_def by (auto simp: pam_codes)
    next
      case False
      with check_user_active_False [of "pe_env N" svc name ?w w'] active Ok code assms(3) scim show ?thesis
        unfolding live_def by (auto simp: pam_codes)
    qed
  qed (use code in \<open>simp_all add: pam_codes\<close>)
qed

theorem account_verdict_witness:
  "\<exists>code w'. pam_sm_acct_mgmt login_env login_handle (login_world None) = (Ok code, w') \<and>
     code \<in> {pam_success, pam_perm_denied, pam_authinfo_unavail}"
proof -
  let ?S = "demo_service Deny" and ?w = "login_world None"
  have "\<exists>code w'. pam_sm_acct_mgmt login_env login_handle ?w = (Ok code, w')"
    by (rule runs_Ok) code_simp
  then obtain code w' where run: "pam_sm_acct_mgmt login_env login_handle ?w = (Ok code, w')" by blast
  obtain answer w0 where scim:
    "scim_get_user_by_name (env_http (pe_env login_env)) (sv_scim ?S) ''ann'' ?w = (answer, w0)"
    by (cases "scim_get_user_by_name (env_http (pe_env login_env)) (sv_scim ?S) ''ann'' ?w")
  from account_verdict [OF _ login_user _ run scim] run show ?thesis by (simp add: login_world_def)
qed

text \<open>A password change is refused with \<open>PAM_AUTHTOK_ERR\<close> whenever it returns; it shows at most one message,
  asks the network for nothing but a first discovery, and leaves cache and service alone.\<close>

theorem chauthtok_only_refuses:
  assumes "pam_sm_chauthtok N pamh w = (Ok code, w')"
  shows "code = pam_authtok_err \<and> w_cache w' = w_cache w \<and> pw_service w' = pw_service w \<and>
    (\<exists>ms. pw_shown w' = pw_shown w @ ms \<and> length ms \<le> 1) \<and>
    (sent w' = sent w \<or> (\<exists>url. sent w' = sent w @ [plain_get (discovery_url url)]))"
  proof -
  obtain c v where client: "get_oidc_client N (log_pam N w) = (Ok c, v)"
    using assms by (auto simp: pam_sm_chauthtok_def chauthtok_impl_def prog_inv)
  note keeps = get_oidc_client_effect [OF client]
  show ?thesis
  proof (cases c)
    case None
    with assms client keeps show ?thesis
      by (simp add: pam_sm_chauthtok_def chauthtok_impl_def prog_simps)
  next
    case (Some oc)
    with assms client obtain msg n where "pam_info pamh msg v = (Ok n, w')" "code = pam_authtok_err"
      by (auto simp: pam_sm_chauthtok_def chauthtok_impl_def prog_inv)
    with pam_info_result [of pamh msg v] keeps show ?thesis by auto
  qed
qed

theorem chauthtok_only_refuses_witness:
  "\<exists>w'. pam_sm_chauthtok login_env login_handle (login_world (Some (Some login_client))) = (Ok pam_authtok_err, w')"
proof -
  have "\<exists>code w'. pam_sm_chauthtok login_env login_handle (login_world (Some (Some login_client))) = (Ok code, w')"
    by (rule runs_Ok) code_simp
  then obtain code w' where run:
    "pam_sm_chauthtok login_env login_handle (login_world (Some (Some login_client))) = (Ok code, w')" by blast
  with chauthtok_only_refuses [OF run] show ?thesis by simp
qed

end
