(* ===== verification/Mock_Idp.thy ===== *)
theory Mock_Idp
  imports Pam_Laws "HOL-Library.List_Lexorder" "HOL-Library.Char_ord"
begin

text \<open>
  \<open>crates/mock-idp\<close>: the identity provider of the container tests, a list of mocks mounted on a
  wiremock server. How the server picks a mock is the documented behaviour of wiremock and a
  hypothesis on the parameter \<open>serve\<close>: in the order of mounting the first one that matches and is
  not used up answers, and a request without one gets 404. What the clients of the repository get
  from these mocks is proved on their own models.
\<close>

section \<open>Mocks\<close>

record mock =
  mo_method :: http_method
  mo_path :: string
  mo_query :: "(string \<times> string) list"
  mo_status :: nat
  mo_body :: doc
  mo_limit :: "nat option"

text \<open>\<open>json!\<close>: the map of an object is ordered by the names of its fields.\<close>

definition json_obj :: "(string \<times> doc) list \<Rightarrow> doc" where
  "json_obj kvs = DObj (sort_key fst kvs)"

definition list_schema :: "string \<times> doc" where
  "list_schema = (''schemas'', DArr [DStr ''urn:ietf:params:scim:api:messages:2.0:ListResponse''])"

text \<open>\<open>Mock::given(method("GET")).and(path(...)).and(query_param(...))...respond_with(200 and a body)\<close>.\<close>

definition get_mock :: "string \<Rightarrow> (string \<times> string) list \<Rightarrow> doc \<Rightarrow> mock" where
  "get_mock path query body =
     \<lparr>mo_method = Get, mo_path = path, mo_query = query, mo_status = 200, mo_body = body, mo_limit = None\<rparr>"

definition post_mock :: "string \<Rightarrow> nat \<Rightarrow> doc \<Rightarrow> mock" where
  "post_mock path status body =
     \<lparr>mo_method = Post, mo_path = path, mo_query = [], mo_status = status, mo_body = body, mo_limit = None\<rparr>"

definition quoted :: "string \<Rightarrow> string" where
  "quoted s = [CHR 0x22] @ s @ [CHR 0x22]"

definition scim_mocks :: "mock list" where
  "scim_mocks =
   [get_mock ''/Users'' [(''filter'', ''userName eq '' @ quoted ''alice'')] (json_obj
      [list_schema,
       (''totalResults'', DInt 1),
       (''Resources'', DArr [json_obj
         [(''id'', DStr ''user-uuid-alice-001''),
          (''userName'', DStr ''alice''),
          (''displayName'', DStr ''Alice Smith''),
          (''active'', DBool True),
          (''groups'', DArr [json_obj
            [(''value'', DStr ''group-uuid-eng-001''),
             (''display'', DStr ''engineering'')]])]])]),
    get_mock ''/Users'' [(''filter'', ''userName eq '' @ quoted ''disabled_bob'')] (json_obj
      [list_schema,
       (''totalResults'', DInt 1),
       (''Resources'', DArr [json_obj
         [(''id'', DStr ''user-uuid-bob-002''),
          (''userName'', DStr ''disabled_bob''),
          (''displayName'', DStr ''Bob Disabled''),
          (''active'', DBool False),
          (''groups'', DArr [])]])]),
    get_mock ''/Groups'' [(''filter'', ''displayName eq '' @ quoted ''engineering'')] (json_obj
      [list_schema,
       (''totalResults'', DInt 1),
       (''Resources'', DArr [json_obj
         [(''id'', DStr ''group-uuid-eng-001''),
          (''displayName'', DStr ''engineering''),
          (''members'', DArr [json_obj
            [(''value'', DStr ''user-uuid-alice-001''),
             (''display'', DStr ''alice'')]])]])]),
    get_mock ''/Users'' [(''startIndex'', ''1''), (''count'', ''100'')] (json_obj
      [list_schema,
       (''totalResults'', DInt 2),
       (''startIndex'', DInt 1),
       (''itemsPerPage'', DInt 100),
       (''Resources'', DArr
         [json_obj
           [(''id'', DStr ''user-uuid-alice-001''),
            (''userName'', DStr ''alice''),
            (''displayName'', DStr ''Alice Smith''),
            (''active'', DBool True),
            (''groups'', DArr [json_obj [(''value'', DStr ''group-uuid-eng-001''), (''display'', DStr ''engineering'')]])],
          json_obj
           [(''id'', DStr ''user-uuid-bob-002''),
            (''userName'', DStr ''disabled_bob''),
            (''displayName'', DStr ''Bob Disabled''),
            (''active'', DBool False),
            (''groups'', DArr [])]])]),
    get_mock ''/Groups'' [(''startIndex'', ''1''), (''count'', ''100'')] (json_obj
      [list_schema,
       (''totalResults'', DInt 1),
       (''startIndex'', DInt 1),
       (''itemsPerPage'', DInt 100),
       (''Resources'', DArr [json_obj
         [(''id'', DStr ''group-uuid-eng-001''),
          (''displayName'', DStr ''engineering''),
          (''members'', DArr [json_obj [(''value'', DStr ''user-uuid-alice-001''), (''display'', DStr ''alice'')]])]])]),
    get_mock ''/Users'' [(''count'', ''0'')] (json_obj
      [list_schema,
       (''totalResults'', DInt 2),
       (''Resources'', DArr [])]),
    get_mock ''/Users/user-uuid-alice-001'' [] (json_obj
      [(''id'', DStr ''user-uuid-alice-001''),
       (''userName'', DStr ''alice''),
       (''displayName'', DStr ''Alice Smith''),
       (''active'', DBool True),
       (''groups'', DArr [json_obj [(''value'', DStr ''group-uuid-eng-001''), (''display'', DStr ''engineering'')]])]),
    get_mock ''/Groups/group-uuid-eng-001'' [] (json_obj
      [(''id'', DStr ''group-uuid-eng-001''),
       (''displayName'', DStr ''engineering''),
       (''members'', DArr [json_obj [(''value'', DStr ''user-uuid-alice-001''), (''display'', DStr ''alice'')]])])]"

definition oidc_mocks :: "string \<Rightarrow> mock list" where
  "oidc_mocks base =
   [get_mock ''/.well-known/openid-configuration'' [] (json_obj
      [(''issuer'', DStr base),
       (''authorization_endpoint'', DStr (base @ ''/authorize'')),
       (''token_endpoint'', DStr (base @ ''/token'')),
       (''device_authorization_endpoint'', DStr (base @ ''/device'')),
       (''jwks_uri'', DStr (base @ ''/jwks'')),
       (''userinfo_endpoint'', DStr (base @ ''/userinfo''))]),
    post_mock ''/device'' 200 (json_obj
      [(''device_code'', DStr ''test-device-code-001''),
       (''user_code'', DStr ''ABCD-1234''),
       (''verification_uri'', DStr (base @ ''/activate'')),
       (''verification_uri_complete'', DStr (base @ ''/activate?code=ABCD-1234'')),
       (''expires_in'', DInt 600),
       (''interval'', DInt 1)]),
    (post_mock ''/token'' 400 (json_obj
      [(''error'', DStr ''authorization_pending''),
       (''error_description'', DStr ''The user has not yet completed authorization'')]))\<lparr>mo_limit := Some 1\<rparr>,
    post_mock ''/token'' 200 (json_obj
      [(''access_token'', DStr ''test-access-token-001''),
       (''id_token'', DStr ''test-id-token-001''),
       (''token_type'', DStr ''Bearer'')])]"

definition mock_idp :: "string \<Rightarrow> mock list" where
  "mock_idp base = scim_mocks @ oidc_mocks base"

section \<open>The server\<close>

definition mock_matches :: "string \<Rightarrow> mock \<Rightarrow> request \<Rightarrow> bool" where
  "mock_matches base m rq \<longleftrightarrow>
     rq_method rq = mo_method m \<and> rq_url rq = base @ mo_path m \<and> set (mo_query m) \<subseteq> set (rq_query rq)"

text \<open>The mock that answers, and the mocks with what is left of their limits.\<close>

fun take_mock :: "string \<Rightarrow> mock list \<Rightarrow> request \<Rightarrow> mock option \<times> mock list" where
  "take_mock base [] rq = (None, [])"
| "take_mock base (m # ms) rq =
     (if mock_matches base m rq \<and> mo_limit m \<noteq> Some 0
      then (Some m, m\<lparr>mo_limit := map_option (\<lambda>n. n - 1) (mo_limit m)\<rparr> # ms)
      else case take_mock base ms rq of (r, ms') \<Rightarrow> (r, m # ms'))"

definition mocks_after :: "string \<Rightarrow> mock list \<Rightarrow> request list \<Rightarrow> mock list" where
  "mocks_after base ms log = fold (\<lambda>rq ms. snd (take_mock base ms rq)) log ms"

definition mock_reply :: "string \<Rightarrow> mock list \<Rightarrow> request list \<Rightarrow> request \<Rightarrow> nat \<times> doc option" where
  "mock_reply base ms log rq =
     (case fst (take_mock base (mocks_after base ms log) rq) of
        Some m \<Rightarrow> (mo_status m, Some (mo_body m))
      | None \<Rightarrow> (404, None))"

text \<open>
  The clients' network leads to the server with the mocks of the program mounted: its replies are
  the documented ones, and the bodies, printed by one side, are read by the other as they were.
\<close>

definition runs_against_mock ::
  "string \<Rightarrow> http_env \<Rightarrow> (request list \<Rightarrow> request \<Rightarrow> nat \<times> doc option) \<Rightarrow> (doc \<Rightarrow> string) \<Rightarrow> bool" where
  "runs_against_mock base H serve print \<longleftrightarrow>
     (\<forall>log rq. serve log rq = mock_reply base (mock_idp base) log rq) \<and>
     (\<forall>log rq. fst (he_net H log rq) = (case serve log rq of
        (status, body) \<Rightarrow> Reply status (Some (case body of None \<Rightarrow> [] | Some d \<Rightarrow> print d)))) \<and>
     list_all (\<lambda>m. he_parse H (print (mo_body m)) = Some (mo_body m)) (mock_idp base)"

section \<open>Which mock answers\<close>

text \<open>The mounted mocks with the polls still answered by \<open>authorization_pending\<close>.\<close>

definition mocks_left :: "string \<Rightarrow> nat \<Rightarrow> mock list" where
  "mocks_left base k = scim_mocks @ (oidc_mocks base)[2 := (oidc_mocks base ! 2)\<lparr>mo_limit := Some k\<rparr>]"

definition token_request :: "string \<Rightarrow> request \<Rightarrow> bool" where
  "token_request base rq \<longleftrightarrow> rq_method rq = Post \<and> rq_url rq = base @ ''/token''"

lemma mocks_left_first: "mocks_left base 1 = mock_idp base"
  by (simp add: mocks_left_def mock_idp_def oidc_mocks_def numeral_2_eq_2)

lemma mock_sel [simp]:
  "mo_method (get_mock p q b) = Get" "mo_path (get_mock p q b) = p" "mo_query (get_mock p q b) = q"
  "mo_status (get_mock p q b) = 200" "mo_body (get_mock p q b) = b" "mo_limit (get_mock p q b) = None"
  "mo_method (post_mock p s b) = Post" "mo_path (post_mock p s b) = p" "mo_query (post_mock p s b) = []"
  "mo_status (post_mock p s b) = s" "mo_body (post_mock p s b) = b" "mo_limit (post_mock p s b) = None"
  by (simp_all add: get_mock_def post_mock_def)

lemma unlimited_kept: "mo_limit m = None \<Longrightarrow> m\<lparr>mo_limit := map_option f (mo_limit m)\<rparr> = m"
  by (cases m) simp

lemma take_mock_append:
  "list_all (\<lambda>m. mo_limit m = None) ms \<Longrightarrow> \<not> list_ex (\<lambda>m. mock_matches base m rq) ms \<Longrightarrow>
   take_mock base (ms @ ns) rq = (fst (take_mock base ns rq), ms @ snd (take_mock base ns rq))"
  "list_all (\<lambda>m. mo_limit m = None) ms \<Longrightarrow> list_ex (\<lambda>m. mock_matches base m rq) ms \<Longrightarrow>
   snd (take_mock base (ms @ ns) rq) = ms @ ns"
  by (induction ms) (auto simp: split_beta unlimited_kept)

lemma mocks_left_step:
  "snd (take_mock base (mocks_left base k) rq) = mocks_left base (if token_request base rq then k - 1 else k)"
proof -
  let ?ms = "scim_mocks @ take 2 (oidc_mocks base)"
  let ?ns = "drop 2 ((oidc_mocks base)[2 := (oidc_mocks base ! 2)\<lparr>mo_limit := Some k\<rparr>])"
  have split: "mocks_left base k = ?ms @ ?ns"
    by (simp add: mocks_left_def oidc_mocks_def numeral_2_eq_2)
  have unlimited: "list_all (\<lambda>m. mo_limit m = None) ?ms"
    by (simp add: scim_mocks_def oidc_mocks_def numeral_2_eq_2)
  have token: "\<not> list_ex (\<lambda>m. mock_matches base m rq) ?ms" if "token_request base rq"
    using that by (simp add: token_request_def mock_matches_def scim_mocks_def oidc_mocks_def numeral_2_eq_2)
  have ns: "snd (take_mock base ?ns rq) =
      drop 2 ((oidc_mocks base)[2 := (oidc_mocks base ! 2)\<lparr>mo_limit := Some (if token_request base rq then k - 1 else k)\<rparr>])"
    by (auto simp: oidc_mocks_def numeral_2_eq_2 mock_matches_def token_request_def split_beta unlimited_kept)
  show ?thesis
  proof (cases "list_ex (\<lambda>m. mock_matches base m rq) ?ms")
    case True
    with token have "\<not> token_request base rq" by blast
    with take_mock_append(2) [OF unlimited True, of ?ns, folded split] show ?thesis by simp
  next
    case False
    then show ?thesis
      unfolding split take_mock_append(1) [OF unlimited False] snd_conv ns
      by (simp add: mocks_left_def oidc_mocks_def numeral_2_eq_2)
  qed
qed

lemma mocks_after_left:
  "mocks_after base (mocks_left base k) log = mocks_left base (k - length (filter (token_request base) log))"
  by (induction log arbitrary: k) (simp_all add: mocks_after_def mocks_left_step)

text \<open>What the next request gets.\<close>

definition next_mock :: "string \<Rightarrow> request list \<Rightarrow> request \<Rightarrow> mock option" where
  "next_mock base log rq =
     fst (take_mock base (mocks_left base (1 - length (filter (token_request base) log))) rq)"

lemma mock_reply_next:
  "mock_reply base (mock_idp base) log rq =
     (case next_mock base log rq of Some m \<Rightarrow> (mo_status m, Some (mo_body m)) | None \<Rightarrow> (404, None))"
  by (simp add: mock_reply_def next_mock_def mocks_left_first [symmetric] mocks_after_left del: One_nat_def)

text \<open>The bodies, so that the mocks are told apart by what they match.\<close>

definition scim_body :: "nat \<Rightarrow> doc" where
  "scim_body i = mo_body (scim_mocks ! i)"

definition oidc_body :: "string \<Rightarrow> nat \<Rightarrow> doc" where
  "oidc_body base i = mo_body (oidc_mocks base ! i)"

lemma scim_mocks_eq:
  "scim_mocks =
     [get_mock ''/Users'' [(''filter'', name_filter ''userName'' ''alice'')] (scim_body 0),
      get_mock ''/Users'' [(''filter'', name_filter ''userName'' ''disabled_bob'')] (scim_body 1),
      get_mock ''/Groups'' [(''filter'', name_filter ''displayName'' ''engineering'')] (scim_body 2),
      get_mock ''/Users'' [(''startIndex'', ''1''), (''count'', ''100'')] (scim_body 3),
      get_mock ''/Groups'' [(''startIndex'', ''1''), (''count'', ''100'')] (scim_body 4),
      get_mock ''/Users'' [(''count'', ''0'')] (scim_body 5),
      get_mock ''/Users/user-uuid-alice-001'' [] (scim_body 6),
      get_mock ''/Groups/group-uuid-eng-001'' [] (scim_body 7)]"
  by (simp add: scim_body_def scim_mocks_def name_filter_def quoted_def)

lemma mocks_left_eq:
  "mocks_left base k = scim_mocks @
     [get_mock ''/.well-known/openid-configuration'' [] (oidc_body base 0),
      post_mock ''/device'' 200 (oidc_body base 1),
      (post_mock ''/token'' 400 (oidc_body base 2))\<lparr>mo_limit := Some k\<rparr>,
      post_mock ''/token'' 200 (oidc_body base 3)]"
  by (simp add: mocks_left_def oidc_body_def oidc_mocks_def numeral_2_eq_2 numeral_3_eq_3)

lemma name_filter_inj [simp]: "name_filter attr n = name_filter attr m \<longleftrightarrow> n = m"
  using escape_filter_value_inj by (auto simp: name_filter_def)

lemmas next_mock_simps = next_mock_def mocks_left_eq scim_mocks_eq mock_matches_def scim_request_def plain_get_def
  post_form_def split_beta

text \<open>Status and body of the next reply.\<close>

definition next_reply :: "string \<Rightarrow> request list \<Rightarrow> request \<Rightarrow> nat \<times> doc option" where
  "next_reply base log rq = mock_reply base (mock_idp base) log rq"

lemma next_scim:
  "next_reply base log (scim_request c (base @ ''/Users'') [(''filter'', name_filter ''userName'' n)]) =
     (if n = ''alice'' then (200, Some (scim_body 0)) else if n = ''disabled_bob'' then (200, Some (scim_body 1))
      else (404, None))"
  "next_reply base log (scim_request c (base @ ''/Groups'') [(''filter'', name_filter ''displayName'' n)]) =
     (if n = ''engineering'' then (200, Some (scim_body 2)) else (404, None))"
  "next_reply base log (scim_request c (base @ ''/Users'') [(''startIndex'', ''1''), (''count'', ''100'')]) =
     (200, Some (scim_body 3))"
  "next_reply base log (scim_request c (base @ ''/Groups'') [(''startIndex'', ''1''), (''count'', ''100'')]) =
     (200, Some (scim_body 4))"
  "next_reply base log (scim_request c (base @ ''/Users'') [(''count'', ''0'')]) = (200, Some (scim_body 5))"
  "next_reply base log (scim_request c (base @ ''/Users/user-uuid-alice-001'') []) = (200, Some (scim_body 6))"
  "next_reply base log (scim_request c (base @ ''/Groups/group-uuid-eng-001'') []) = (200, Some (scim_body 7))"
  by (simp_all add: next_reply_def mock_reply_next next_mock_simps)

lemma list_ex_filter: "list_ex P xs \<longleftrightarrow> filter P xs \<noteq> []"
  by (induction xs) auto

lemma next_oidc:
  "next_reply base log (plain_get (base @ ''/.well-known/openid-configuration'')) = (200, Some (oidc_body base 0))"
  "next_reply base log (post_form (base @ ''/device'') f) = (200, Some (oidc_body base 1))"
  "next_reply base log (post_form (base @ ''/token'') f) =
     (if list_ex (token_request base) log then (200, Some (oidc_body base 3)) else (400, Some (oidc_body base 2)))"
  "next_reply base log (plain_get (base @ ''/jwks'')) = (404, None)"
  by (cases "filter (token_request base) log";
      simp add: next_reply_def mock_reply_next next_mock_simps list_ex_filter)+

section \<open>What the clients read\<close>

text \<open>The resources the mocks describe.\<close>

definition mock_alice :: scim_user where
  "mock_alice = \<lparr>su_id = ''user-uuid-alice-001'', su_user_name = ''alice'', su_display_name = Some ''Alice Smith'',
     su_active = Some True, su_groups = [\<lparr>gref_value = ''group-uuid-eng-001'', gref_display = Some ''engineering''\<rparr>]\<rparr>"

definition mock_bob :: scim_user where
  "mock_bob = \<lparr>su_id = ''user-uuid-bob-002'', su_user_name = ''disabled_bob'', su_display_name = Some ''Bob Disabled'',
     su_active = Some False, su_groups = []\<rparr>"

definition mock_engineering :: scim_group where
  "mock_engineering = \<lparr>sg_id = ''group-uuid-eng-001'', sg_display_name = ''engineering'',
     sg_members = [\<lparr>mref_value = ''user-uuid-alice-001'', mref_display = Some ''alice''\<rparr>]\<rparr>"

lemma scim_bodies:
  "decode_list_response decode_scim_user (scim_body 0) = Some \<lparr>total_results = 1, resources = [mock_alice]\<rparr>"
  "decode_list_response decode_scim_user (scim_body 1) = Some \<lparr>total_results = 1, resources = [mock_bob]\<rparr>"
  "decode_list_response decode_scim_group (scim_body 2) = Some \<lparr>total_results = 1, resources = [mock_engineering]\<rparr>"
  "decode_list_response decode_scim_user (scim_body 3) = Some \<lparr>total_results = 2, resources = [mock_alice, mock_bob]\<rparr>"
  "decode_list_response decode_scim_group (scim_body 4) = Some \<lparr>total_results = 1, resources = [mock_engineering]\<rparr>"
  "decode_scim_user (scim_body 6) = Some mock_alice"
  "decode_scim_group (scim_body 7) = Some mock_engineering"
  by code_simp+

definition mock_client :: "string \<Rightarrow> string \<Rightarrow> string option \<Rightarrow> oidc_client" where
  "mock_client base client_id secret =
     \<lparr>oc_endpoints = \<lparr>oe_device_authorization_endpoint = base @ ''/device'', oe_token_endpoint = base @ ''/token'',
        oe_issuer = base, oe_jwks_uri = base @ ''/jwks''\<rparr>,
      oc_client_id = client_id, oc_client_secret = secret\<rparr>"

lemma oidc_bodies:
  "decode_discovery (oidc_body base 0) = Some \<lparr>dd_issuer = Some base, dd_token_endpoint = Some (base @ ''/token''),
     dd_device_authorization_endpoint = Some (base @ ''/device''), dd_jwks_uri = Some (base @ ''/jwks'')\<rparr>"
  "decode_device_auth (oidc_body base 1) = Some \<lparr>da_device_code = ''test-device-code-001'', da_user_code = ''ABCD-1234'',
     da_verification_uri = base @ ''/activate'', da_verification_uri_complete = Some (base @ ''/activate?code=ABCD-1234''),
     da_expires_in = 600, da_interval = 1\<rparr>"
  "decode_token_error (oidc_body base 2) = Some ''authorization_pending''"
  "decode_token_response (oidc_body base 3) = Some \<lparr>tr_access_token = ''test-access-token-001'',
     tr_id_token = Some ''test-id-token-001'', tr_token_type = ''Bearer''\<rparr>"
  by code_simp+

section \<open>Calls against the mock\<close>

definition after_call :: "http_env \<Rightarrow> request \<Rightarrow> 'z wire_scheme \<Rightarrow> 'z wire_scheme" where
  "after_call H rq w = w\<lparr>sent := sent w @ [rq], redirected := redirected w @ he_redirects H (sent w) rq,
    mono := mono w + snd (he_net H (sent w) rq)\<rparr>"

lemma after_call_sel [simp]:
  "sent (after_call H rq w) = sent w @ [rq]" "mono (after_call H rq w) = mono w + snd (he_net H (sent w) rq)"
  by (simp_all add: after_call_def)

lemma take_mock_in: "fst (take_mock base ms rq) = Some m \<Longrightarrow> m \<in> set ms"
  by (induction ms) (auto simp: split_beta split: if_splits)

lemma next_reply_body:
  assumes "next_reply base log rq = (st, Some d)"
  shows "d \<in> mo_body ` set (mock_idp base)"
proof -
  from assms obtain m where "next_mock base log rq = Some m" "mo_body m = d"
    by (auto simp: next_reply_def mock_reply_next split: option.splits)
  then have "d \<in> mo_body ` set (mocks_left base (1 - length (filter (token_request base) log)))"
    unfolding next_mock_def by (blast dest: take_mock_in)
  moreover have "mo_body ` set (mocks_left base k) = mo_body ` set (mock_idp base)" for k
    unfolding mocks_left_first [symmetric] by (simp add: mocks_left_eq)
  ultimately show ?thesis by simp
qed

lemma mock_send:
  assumes "runs_against_mock base H serve print" "next_reply base (sent w) rq = (st, body)"
  shows "http_send H rq w = (Ok (st, Some (case body of None \<Rightarrow> [] | Some d \<Rightarrow> print d)), after_call H rq w)"
proof -
  have "fst (he_net H (sent w) rq) = Reply st (Some (case body of None \<Rightarrow> [] | Some d \<Rightarrow> print d))"
    using assms by (simp add: runs_against_mock_def next_reply_def)
  then show ?thesis
    by (cases "he_net H (sent w) rq") (simp add: http_send_def Let_def after_call_def)
qed

lemma mock_parse:
  assumes "runs_against_mock base H serve print" "next_reply base log rq = (st, Some d)"
  shows "he_parse H (print d) = Some d"
  using assms(1) next_reply_body [OF assms(2)] by (auto simp: runs_against_mock_def list_all_iff)

lemma mock_call:
  assumes "runs_against_mock base H serve print"
  shows "next_reply base (sent w) rq = (200, Some d) \<Longrightarrow> http_call H rq w = (Ok (200, Some (print d)), after_call H rq w)"
    "next_reply base (sent w) rq = (404, None) \<Longrightarrow> http_call H rq w = (Err (StatusCode 404), after_call H rq w)"
  by (simp_all add: http_call_def bindp_def matchp_def mock_send [OF assms] ret_def fail_def)

lemma mock_get:
  assumes "runs_against_mock base H serve print"
  shows "next_reply base (sent w) rq = (200, Some d) \<Longrightarrow> dec d = Some x \<Longrightarrow>
      get_json H dec rq w = (Ok x, after_call H rq w)"
    "next_reply base (sent w) rq = (404, None) \<Longrightarrow> get_json H dec rq w = (Err (StatusCode 404), after_call H rq w)"
proof -
  assume "next_reply base (sent w) rq = (200, Some d)" "dec d = Some x"
  then show "get_json H dec rq w = (Ok x, after_call H rq w)"
    by (simp add: get_json_def bindp_def matchp_def read_json_def read_body_def ret_def mock_parse [OF assms]
        mock_call(1) [OF assms])
next
  assume "next_reply base (sent w) rq = (404, None)"
  then show "get_json H dec rq w = (Err (StatusCode 404), after_call H rq w)"
    by (simp add: get_json_def bindp_def matchp_def fail_def mock_call(2) [OF assms])
qed

lemma mock_listing:
  assumes "runs_against_mock base H serve print"
    and "next_reply base (sent w) (page_request c r 1) = (200, Some d)"
    and "decode_list_response dec d = Some \<lparr>total_results = length rs, resources = rs\<rparr>"
  shows "paginate_list H c dec r w = (Ok rs, after_call H (page_request c r 1) w)"
proof -
  obtain k where pages: "max_pagination_pages = Suc k"
    by (cases max_pagination_pages) (simp_all add: max_pagination_pages_def)
  have "get_json H (decode_list_response dec) (page_request c r 1) w =
      (Ok \<lparr>total_results = length rs, resources = rs\<rparr>, after_call H (page_request c r 1) w)"
    by (rule mock_get(1) [where dec = "decode_list_response dec", OF assms])
  then show ?thesis
    unfolding paginate_list_def pages by (simp add: tryp_def bindp_def matchp_def ret_def)
qed

lemma page_texts: "dec_str 1 = ''1''" "dec_str page_count = ''100''"
  by code_simp+

text \<open>The mock is the directory the container tests expect: for the clients of the repository it
  has the users alice and disabled_bob and the group engineering, by name, by id and in the listings,
  it counts as online, and any other name is an error of status 404 (where a directory would send an
  empty list), whatever was asked before.\<close>

theorem mock_directory_answers:
  assumes "runs_against_mock base H serve print" "sc_base_url c = base"
    and "\<And>i. i \<in> {''user-uuid-alice-001'', ''group-uuid-eng-001''} \<Longrightarrow> he_percent_encode H path_segment_encode i = i"
  shows "fst (scim_get_user_by_name H c n w) =
      (if n = ''alice'' then Ok (Some mock_alice) else if n = ''disabled_bob'' then Ok (Some mock_bob)
       else Err (ScimHttp (StatusCode 404))) \<and>
    fst (scim_get_group_by_name H c n w) =
      (if n = ''engineering'' then Ok (Some mock_engineering) else Err (ScimHttp (StatusCode 404))) \<and>
    fst (list_users H c w) = Ok [mock_alice, mock_bob] \<and> fst (list_groups H c w) = Ok [mock_engineering] \<and>
    fst (scim_get_user_by_id H c ''user-uuid-alice-001'' w) = Ok (Some mock_alice) \<and>
    fst (scim_get_group_by_id H c ''group-uuid-eng-001'' w) = Ok (Some mock_engineering) \<and>
    fst (is_online H c w) = Ok True"
proof -
  note run = assms(1) and base = assms(2)
  have page: "page_request c r 1 = scim_request c (base @ ''/'' @ r) [(''startIndex'', ''1''), (''count'', ''100'')]" for r
    by (simp only: page_request_def page_texts base)
  have users: "next_reply base log (page_request c ''Users'' 1) = (200, Some (scim_body 3))"
    and groups: "next_reply base log (page_request c ''Groups'' 1) = (200, Some (scim_body 4))" for log
    unfolding page using next_scim(3,4) [of base log c] by simp_all
  note simps = tryp_def matchp_def base mock_get [OF run] mock_call [OF run] next_scim scim_bodies ret_def fail_def
  have "fst (scim_get_user_by_name H c n w) =
      (if n = ''alice'' then Ok (Some mock_alice) else if n = ''disabled_bob'' then Ok (Some mock_bob)
       else Err (ScimHttp (StatusCode 404)))"
    by (simp add: scim_get_user_by_name_def simps del: One_nat_def)
  moreover have "fst (scim_get_group_by_name H c n w) =
      (if n = ''engineering'' then Ok (Some mock_engineering) else Err (ScimHttp (StatusCode 404)))"
    by (simp add: scim_get_group_by_name_def simps)
  moreover have "fst (list_users H c w) = Ok [mock_alice, mock_bob]"
    by (simp add: list_users_def mock_listing [OF run users, where rs = "[mock_alice, mock_bob]"] scim_bodies)
  moreover have "fst (list_groups H c w) = Ok [mock_engineering]"
    by (simp add: list_groups_def mock_listing [OF run groups, where rs = "[mock_engineering]"] scim_bodies)
  moreover have "fst (scim_get_user_by_id H c ''user-uuid-alice-001'' w) = Ok (Some mock_alice)"
    by (simp add: scim_get_user_by_id_def assms(3) simps read_json_def read_body_def bindp_def
        mock_parse [OF run next_scim(6)])
  moreover have "fst (scim_get_group_by_id H c ''group-uuid-eng-001'' w) = Ok (Some mock_engineering)"
    by (simp add: scim_get_group_by_id_def assms(3) simps read_json_def read_body_def bindp_def
        mock_parse [OF run next_scim(7)])
  moreover have "fst (is_online H c w) = Ok True"
    by (simp add: is_online_def simps)
  ultimately show ?thesis by blast
qed

text \<open>A concrete run: bodies are printed as their position among the mocks' bodies.\<close>

definition demo_bodies :: "doc list" where
  "demo_bodies = map mo_body (mock_idp ''http://mock:9980'')"

definition demo_print :: "doc \<Rightarrow> string" where
  "demo_print d = replicate (length (takeWhile (\<lambda>x. x \<noteq> d) demo_bodies)) CHR ''x''"

definition demo_mock_http :: http_env where
  "demo_mock_http = \<lparr>
     he_net = (\<lambda>log rq. case mock_reply ''http://mock:9980'' (mock_idp ''http://mock:9980'') log rq of
       (status, body) \<Rightarrow> (Reply status (Some (case body of None \<Rightarrow> [] | Some d \<Rightarrow> demo_print d)), 1000000)),
     he_redirects = (\<lambda>_ _. []),
     he_parse = (\<lambda>s. if length s < length demo_bodies then Some (demo_bodies ! length s) else None),
     he_percent_encode = (\<lambda>_ s. s)\<rparr>"

lemma first_position:
  "d \<in> set xs \<Longrightarrow> length (takeWhile (\<lambda>x. x \<noteq> d) xs) < length xs \<and> xs ! length (takeWhile (\<lambda>x. x \<noteq> d) xs) = d"
  by (induction xs) auto

lemma demo_parses: "d \<in> set demo_bodies \<Longrightarrow> he_parse demo_mock_http (demo_print d) = Some d"
  using first_position [of d demo_bodies] by (simp add: demo_mock_http_def demo_print_def)

lemma demo_runs:
  "runs_against_mock ''http://mock:9980'' demo_mock_http (mock_reply ''http://mock:9980'' (mock_idp ''http://mock:9980'')) demo_print"
proof -
  have "list_all (\<lambda>m. he_parse demo_mock_http (demo_print (mo_body m)) = Some (mo_body m)) (mock_idp ''http://mock:9980'')"
    unfolding list_all_iff using demo_parses by (simp add: demo_bodies_def)
  then show ?thesis
    unfolding runs_against_mock_def by (simp add: demo_mock_http_def split_beta)
qed

lemma demo_encode: "he_percent_encode demo_mock_http path_segment_encode i = i"
  by (simp add: demo_mock_http_def)

theorem mock_directory_answers_witness:
  "fst (list_users demo_mock_http (scim_client_new ''http://mock:9980/'' ''t'') demo_world) = Ok [mock_alice, mock_bob]"
proof -
  have "sc_base_url (scim_client_new ''http://mock:9980/'' ''t'') = ''http://mock:9980''" by code_simp
  from mock_directory_answers [OF demo_runs this demo_encode] show ?thesis by blast
qed

section \<open>Accounts\<close>

text \<open>The steps of a check after the directory has answered.\<close>

lemma stored_active:
  assumes "ranges_nonempty S"
  shows "case fst (bindp (scim_user_to_model V S su) (\<lambda>u.
      tryp SvcCache (on_cache (store_user (env_db V) u)) (\<lambda>_. ret (u_active u))) v) of
      Ok active \<Rightarrow> active = (su_active su \<noteq> Some False)
    | Err e \<Rightarrow> (case e of SvcCache ce \<Rightarrow> True | _ \<Rightarrow> False)
    | Panic \<Rightarrow> False"
proof -
  let ?m = "bindp (scim_user_to_model V S su) (\<lambda>u.
      tryp SvcCache (on_cache (store_user (env_db V) u)) (\<lambda>_. ret (u_active u)))"
  obtain r t where run: "?m v = (r, t)" by (cases "?m v")
  have "uid_range_size (cfg_mapping (sv_config S)) \<noteq> 0" "gid_range_size (cfg_mapping (sv_config S)) \<noteq> 0"
    using assms by (simp_all add: ranges_nonempty_def)
  then have "no_panic ?m" unfolding scim_user_to_model_def Let_def by (intro panic_free)
  then have "r \<noteq> Panic" using run by (rule no_panicD)
  moreover have "r = Err e \<Longrightarrow> case e of SvcCache ce \<Rightarrow> True | _ \<Rightarrow> False" for e
    using run by (auto simp: scim_user_to_model_def Let_def prog_inv)
  moreover have "r = Ok active \<Longrightarrow> active = (su_active su \<noteq> Some False)" for active
    using run by (auto simp: scim_user_to_model_def Let_def prog_inv split: option.splits)
  ultimately show ?thesis unfolding run by (cases r) auto
qed

text \<open>With the mock as the directory and a policy that denies offline, alice is the one active account:
  a check of any name that gives an answer says active for alice and not active for everyone else
  (disabled_bob among them), and fails only with an error of the cache.\<close>

theorem mock_one_active_account:
  assumes "runs_against_mock base (env_http V) serve print" "sc_base_url (sv_scim S) = base"
    and "offline_policy (cfg_security (sv_config S)) = Deny" "ranges_nonempty S"
  shows "case fst (check_user_active V S n w) of
      Ok active \<Rightarrow> active = (n = ''alice'')
    | Err e \<Rightarrow> (case e of SvcCache ce \<Rightarrow> True | _ \<Rightarrow> False)
    | Panic \<Rightarrow> False"
proof (cases "max_name_len < length n")
  case True
  then show ?thesis by (auto simp: check_user_active_def ret_def max_name_len_def)
next
  case False
  note run = assms(1) and base = assms(2)
  have found: "scim_get_user_by_name (env_http V) (sv_scim S) n w =
      (if n = ''alice'' then Ok (Some mock_alice) else if n = ''disabled_bob'' then Ok (Some mock_bob)
       else Err (ScimHttp (StatusCode 404)), after_call (env_http V)
         (scim_request (sv_scim S) (base @ ''/Users'') [(''filter'', name_filter ''userName'' n)]) w)"
    by (simp add: scim_get_user_by_name_def tryp_def matchp_def base mock_get [OF run] next_scim scim_bodies ret_def
        fail_def del: One_nat_def)
  define v where "v = after_call (env_http V)
    (scim_request (sv_scim S) (base @ ''/Users'') [(''filter'', name_filter ''userName'' n)]) w"
  let ?stored = "\<lambda>su. bindp (scim_user_to_model V S su) (\<lambda>u.
      tryp SvcCache (on_cache (store_user (env_db V) u)) (\<lambda>_. ret (u_active u))) v"
  have "check_user_active V S n w =
      (if n = ''alice'' then ?stored mock_alice else if n = ''disabled_bob'' then ?stored mock_bob else (Ok False, v))"
    using False by (simp add: check_user_active_def matchp_def found assms(3) ret_def v_def)
  moreover have "su_active mock_alice = Some True" "su_active mock_bob = Some False"
    by (simp_all add: mock_alice_def mock_bob_def)
  ultimately show ?thesis
    using stored_active [OF assms(4), of mock_alice V v] stored_active [OF assms(4), of mock_bob V v]
    by (auto split: outcome.splits service_error.splits)
qed

theorem mock_one_active_account_witness:
  "fst (check_user_active ((demo_env True)\<lparr>env_http := demo_mock_http\<rparr>)
     ((demo_service Deny)\<lparr>sv_scim := scim_client_new ''http://mock:9980/'' ''t''\<rparr>) ''disabled_bob'' demo_world) \<noteq> Ok True"
proof -
  let ?V = "(demo_env True)\<lparr>env_http := demo_mock_http\<rparr>"
  let ?S = "(demo_service Deny)\<lparr>sv_scim := scim_client_new ''http://mock:9980/'' ''t''\<rparr>"
  have run: "runs_against_mock ''http://mock:9980'' (env_http ?V)
      (mock_reply ''http://mock:9980'' (mock_idp ''http://mock:9980'')) demo_print"
    using demo_runs by simp
  have "sc_base_url (sv_scim ?S) = ''http://mock:9980''" by code_simp
  moreover have "offline_policy (cfg_security (sv_config ?S)) = Deny" by code_simp
  moreover have "ranges_nonempty ?S" by code_simp
  ultimately show ?thesis
    using mock_one_active_account [OF run, of ?S "''disabled_bob''" demo_world] by (auto split: outcome.splits)
qed

section \<open>Signing in\<close>

lemma mock_discovery:
  assumes "runs_against_mock base H serve print" "trim_end_char CHR ''/'' base = base"
    and "trim_end_char CHR ''/'' issuer_url = base"
  shows "discover_insecure H issuer_url client_id secret w =
      (Ok (mock_client base client_id secret), after_call H (plain_get (discovery_url issuer_url)) w)"
    "\<not> starts_with ''https://'' (base @ ''/token'') \<Longrightarrow> fst (discover H issuer_url client_id secret w) =
      Err (InsecureEndpoint (''token_endpoint: '' @ base @ ''/token''))"
proof -
  have get: "get_json H decode_discovery (plain_get (discovery_url issuer_url)) w =
      (Ok \<lparr>dd_issuer = Some base, dd_token_endpoint = Some (base @ ''/token''),
        dd_device_authorization_endpoint = Some (base @ ''/device''), dd_jwks_uri = Some (base @ ''/jwks'')\<rparr>,
       after_call H (plain_get (discovery_url issuer_url)) w)"
    by (rule mock_get(1) [where dec = decode_discovery and d = "oidc_body base 0", OF assms(1)])
      (simp_all add: discovery_url_def assms(3) next_oidc oidc_bodies)
  show "discover_insecure H issuer_url client_id secret w =
      (Ok (mock_client base client_id secret), after_call H (plain_get (discovery_url issuer_url)) w)"
    by (simp add: discover_insecure_def discover_with_options_def Let_def tryp_def bindp_def matchp_def get
        field_or_def ret_def assms(2,3) mock_client_def)
  show "fst (discover H issuer_url client_id secret w) =
      Err (InsecureEndpoint (''token_endpoint: '' @ base @ ''/token''))"
    if "\<not> starts_with ''https://'' (base @ ''/token'')"
    using that by (simp add: discover_def discover_with_options_def Let_def tryp_def bindp_def matchp_def get
        field_or_def ret_def assms(2,3) fail_def)
qed

definition mock_token :: token_response where
  "mock_token = \<lparr>tr_access_token = ''test-access-token-001'', tr_id_token = Some ''test-id-token-001'',
     tr_token_type = ''Bearer''\<rparr>"

lemma token_poll [simp]: "token_request base (poll_request (mock_client base client_id secret) dc)"
  by (simp add: token_request_def poll_request_def post_form_def mock_client_def)

lemma mock_poll:
  assumes "runs_against_mock base H serve print"
  shows "poll_for_token H (mock_client base client_id secret) dc w =
    (if list_ex (token_request base) (sent w) then Ok mock_token else Err AuthorizationPending,
     after_call H (poll_request (mock_client base client_id secret) dc) w)"
proof -
  let ?rq = "poll_request (mock_client base client_id secret) dc"
  have rq: "?rq = post_form (base @ ''/token'') (with_secret (mock_client base client_id secret) [(''client_id'', client_id),
          (''grant_type'', ''urn:ietf:params:oauth:grant-type:device_code''), (''device_code'', dc)])"
    by (simp add: poll_request_def mock_client_def)
  show ?thesis
  proof (cases "list_ex (token_request base) (sent w)")
    case True
    then have reply: "next_reply base (sent w) ?rq = (200, Some (oidc_body base 3))" unfolding rq by (simp add: next_oidc)
    show ?thesis
      using True
      by (simp add: poll_for_token_def tryp_def bindp_def matchp_def mock_send [OF assms reply] read_json_def
          read_body_def ret_def mock_parse [OF assms reply] oidc_bodies mock_token_def)
  next
    case False
    then have reply: "next_reply base (sent w) ?rq = (400, Some (oidc_body base 2))" unfolding rq by (simp add: next_oidc)
    show ?thesis
      using False
      by (simp add: poll_for_token_def tryp_def bindp_def matchp_def mock_send [OF assms reply]
          read_body_def ret_def fail_def mock_parse [OF assms reply] oidc_bodies)
  qed
qed

text \<open>Two rounds: the first poll is pending, the second has the token.\<close>

lemma mock_poll_loop:
  assumes "runs_against_mock base H serve print" "\<not> list_ex (token_request base) (sent w)"
    and "\<And>log rq. snd (he_net H log rq) < 590000000000" "mono w + 600000000000 \<le> deadline"
  shows "\<exists>w'. poll_loop H (mock_client base client_id secret) dc deadline 5 w = Some (Ok mock_token, w') \<and>
    sent w' = sent w @ replicate 2 (poll_request (mock_client base client_id secret) dc) \<and>
    mono w + 10000000000 \<le> mono w'"
proof -
  let ?c = "mock_client base client_id secret"
  let ?rq = "poll_request ?c dc"
  define w1 where "w1 = after_call H ?rq (sleep_secs 5 w)"
  define w2 where "w2 = after_call H ?rq (sleep_secs 5 w1)"
  have five: "nanos 5 = 5000000000" by (simp add: nanos_def)
  have d1: "mono w1 < mono w + 595000000000"
    using assms(3) [of "sent w" ?rq] by (simp add: w1_def sleep_secs_def five)
  have first: "poll_for_token H ?c dc (sleep_secs 5 w) = (Err AuthorizationPending, w1)"
    using assms(2) by (simp add: mock_poll [OF assms(1)] w1_def sleep_secs_def)
  have second: "poll_for_token H ?c dc (sleep_secs 5 w1) = (Ok mock_token, w2)"
    by (simp add: mock_poll [OF assms(1)] w2_def) (simp add: w1_def sleep_secs_def)
  have "poll_loop H ?c dc deadline 5 w = poll_loop H ?c dc deadline 5 w1"
    using assms(4) by (subst poll_loop.simps) (simp add: Let_def first [unfolded sleep_secs_def five] sleep_secs_def five)
  also have "\<dots> = Some (Ok mock_token, w2)"
    using assms(4) d1 by (subst poll_loop.simps) (simp add: Let_def second [unfolded sleep_secs_def five] sleep_secs_def five)
  finally show ?thesis
    by (intro exI [of _ w2]) (simp add: w2_def w1_def sleep_secs_def five numeral_2_eq_2)
qed

lemma mock_device_flow:
  assumes "runs_against_mock base H serve print" "\<not> list_ex (token_request base) (sent w1)"
    and "\<And>log rq. snd (he_net H log rq) < 590000000000" "mono w1 < 9000000590000000000000000000"
    and "\<And>v. display ''ABCD-1234'' (base @ ''/activate'') v = (Ok (), shown v) \<and> sent (shown v) = sent v \<and> mono (shown v) = mono v"
  shows "\<exists>w2. authenticate_device_flow H (mock_client base client_id secret) scope display w1 = Some (Ok mock_token, w2) \<and>
    map rq_url (drop (length (sent w1)) (sent w2)) = [base @ ''/device'', base @ ''/token'', base @ ''/token''] \<and>
    mono w1 + 10000000000 \<le> mono w2"
proof -
  let ?c = "mock_client base client_id secret"
  define rq where "rq = post_form (base @ ''/device'') (with_secret ?c [(''client_id'', client_id), (''scope'', scope)])"
  define w2 where "w2 = shown (after_call H rq w1)"
  have code_rq: "request_device_code H ?c scope = tryp OidcHttp (get_json H decode_device_auth rq) ret"
    by (simp add: request_device_code_def rq_def mock_client_def)
  have "next_reply base (sent w1) rq = (200, Some (oidc_body base 1))" unfolding rq_def by (rule next_oidc)
  then have code: "request_device_code H ?c scope w1 = (Ok \<lparr>da_device_code = ''test-device-code-001'',
      da_user_code = ''ABCD-1234'', da_verification_uri = base @ ''/activate'',
      da_verification_uri_complete = Some (base @ ''/activate?code=ABCD-1234''), da_expires_in = 600, da_interval = 1\<rparr>,
      after_call H rq w1)"
    by (simp add: code_rq tryp_def matchp_def ret_def
        mock_get(1) [where dec = decode_device_auth and d = "oidc_body base 1", OF assms(1) _ oidc_bodies(2)] del: One_nat_def)
  have seen: "sent w2 = sent w1 @ [rq]" "mono w1 \<le> mono w2" "mono w2 < 9000001180000000000000000000"
    using assms(3) [of "sent w1" rq] assms(4) by (simp_all add: w2_def assms(5))
  have fresh: "\<not> list_ex (token_request base) (sent w2)"
    using assms(2) by (simp add: seen rq_def token_request_def post_form_def)
  have deadline: "deadline_of (mono w2) 600 = Some (mono w2 + 600000000000)"
    using seen(3) by (simp add: deadline_of_def nanos_def)
  from mock_poll_loop [OF assms(1) fresh assms(3), of "mono w2 + 600000000000" client_id secret "''test-device-code-001''"]
  obtain w3 where loop: "poll_loop H ?c ''test-device-code-001'' (mono w2 + 600000000000) 5 w2 = Some (Ok mock_token, w3)"
    "sent w3 = sent w2 @ replicate 2 (poll_request ?c ''test-device-code-001'')" "mono w2 + 10000000000 \<le> mono w3"
    by auto
  have "max 1 min_poll_interval_secs = 5" by code_simp
  then have "authenticate_device_flow H ?c scope display w1 = Some (Ok mock_token, w3)"
    using loop(1) deadline by (simp add: authenticate_device_flow_def code assms(5) w2_def)
  moreover have "map rq_url (drop (length (sent w1)) (sent w3)) = [base @ ''/device'', base @ ''/token'', base @ ''/token'']"
    by (simp add: loop(2) seen(1) numeral_2_eq_2 rq_def poll_request_def post_form_def mock_client_def)
  ultimately show ?thesis using loop(3) seen(2) by (intro exI [of _ w3]) simp
qed

text \<open>C29: signing in at the mock works the way its comments promise: discovery (where plain HTTP is
  allowed) gives a client of the mock's endpoints, and the device flow shows the mock's code, is told
  once that the authorization is pending, and has the token with the second poll, ten seconds or more
  after it began; the interval of one second that the mock asks for is raised to five.\<close>

theorem mock_sign_in:
  assumes "runs_against_mock base H serve print" "trim_end_char CHR ''/'' base = base"
    and "trim_end_char CHR ''/'' issuer_url = base" "\<not> list_ex (token_request base) (sent w)"
    and "\<And>log rq. snd (he_net H log rq) < 590000000000" "mono w < 9000000000000000000000000000"
    and "\<And>v. display ''ABCD-1234'' (base @ ''/activate'') v = (Ok (), shown v) \<and> sent (shown v) = sent v \<and> mono (shown v) = mono v"
  shows "\<exists>w1 w2. discover_insecure H issuer_url client_id secret w = (Ok (mock_client base client_id secret), w1) \<and>
    authenticate_device_flow H (mock_client base client_id secret) scope display w1 = Some (Ok mock_token, w2) \<and>
    map rq_url (drop (length (sent w1)) (sent w2)) = [base @ ''/device'', base @ ''/token'', base @ ''/token''] \<and>
    mono w1 + 10000000000 \<le> mono w2"
proof -
  define w1 where "w1 = after_call H (plain_get (discovery_url issuer_url)) w"
  have disc: "discover_insecure H issuer_url client_id secret w = (Ok (mock_client base client_id secret), w1)"
    unfolding w1_def by (rule mock_discovery(1) [OF assms(1-3)])
  have fresh: "\<not> list_ex (token_request base) (sent w1)"
    using assms(4) by (simp add: w1_def token_request_def plain_get_def)
  have early: "mono w1 < 9000000590000000000000000000"
    using assms(5) [of "sent w" "plain_get (discovery_url issuer_url)"] assms(6) by (simp add: w1_def)
  from mock_device_flow [of base H serve print w1 display shown client_id secret scope,
      OF assms(1) fresh assms(5) early assms(7)]
  obtain w2 where "authenticate_device_flow H (mock_client base client_id secret) scope display w1 = Some (Ok mock_token, w2) \<and>
    map rq_url (drop (length (sent w1)) (sent w2)) = [base @ ''/device'', base @ ''/token'', base @ ''/token''] \<and>
    mono w1 + 10000000000 \<le> mono w2" by (rule exE)
  with disc show ?thesis by (intro exI [of _ w1] exI [of _ w2] conjI) simp_all
qed

theorem mock_sign_in_witness:
  "\<exists>w1 w2. authenticate_device_flow demo_mock_http (mock_client ''http://mock:9980'' ''c'' None) ''openid''
     (\<lambda>_ _. ret ()) w1 = Some (Ok mock_token, w2 :: world)"
proof -
  have base: "trim_end_char CHR ''/'' ''http://mock:9980'' = ''http://mock:9980''"
    "trim_end_char CHR ''/'' ''http://mock:9980/'' = ''http://mock:9980''" by code_simp+
  have start: "\<not> list_ex (token_request ''http://mock:9980'') (sent demo_world)"
    "mono demo_world < 9000000000000000000000000000" by (simp_all add: demo_world_def)
  have "\<exists>w1 w2 :: world. discover_insecure demo_mock_http ''http://mock:9980/'' ''c'' None demo_world =
      (Ok (mock_client ''http://mock:9980'' ''c'' None), w1) \<and>
    authenticate_device_flow demo_mock_http (mock_client ''http://mock:9980'' ''c'' None) ''openid'' (\<lambda>_ _. ret ()) w1 =
      Some (Ok mock_token, w2) \<and>
    map rq_url (drop (length (sent w1)) (sent w2)) =
      [''http://mock:9980'' @ ''/device'', ''http://mock:9980'' @ ''/token'', ''http://mock:9980'' @ ''/token''] \<and>
    mono w1 + 10000000000 \<le> mono w2"
    by (rule mock_sign_in [OF demo_runs base start(1) _ start(2), where shown = "\<lambda>v. v"])
      (simp_all add: demo_mock_http_def split_beta ret_def)
  then show ?thesis by blast
qed

text \<open>The ID token the mock hands out is no JWT, and it serves no keys: with any library that refuses to
  read it the sign-in of every user is refused, after the whole device flow.\<close>

lemma mock_token_refused:
  assumes "runs_against_mock base (env_http (pe_env N)) serve print" "get_pam_user pamh = Ok username"
    and "pw_oidc_client w = Some (Some (mock_client base client_id secret))" "\<not> list_ex (token_request base) (sent w)"
    and "\<And>log rq. snd (he_net (env_http (pe_env N)) log rq) < 590000000000" "mono w < 9000000590000000000000000000"
    and "jl_header J ''test-id-token-001'' = None"
  shows "\<exists>w'. pam_sm_authenticate N J pamh w = Some (Ok pam_auth_err, w')"
proof -
  let ?H = "env_http (pe_env N)" and ?c = "mock_client base client_id secret" and ?w = "log_pam N w"
  have start: "\<not> list_ex (token_request base) (sent ?w)" "mono ?w < 9000000590000000000000000000"
    "pw_oidc_client ?w = Some (Some ?c)" using assms(3,4,6) by simp_all
  have "show_sign_in pamh ''ABCD-1234'' (base @ ''/activate'') v =
      (Ok (), snd (pam_info pamh (sign_in_message ''ABCD-1234'' (base @ ''/activate'')) v)) \<and>
    sent (snd (pam_info pamh (sign_in_message ''ABCD-1234'' (base @ ''/activate'')) v)) = sent v \<and>
    mono (snd (pam_info pamh (sign_in_message ''ABCD-1234'' (base @ ''/activate'')) v)) = mono v" for v
    using pam_info_result [of pamh "sign_in_message ''ABCD-1234'' (base @ ''/activate'')" v] by (auto simp: ret_def)
  from mock_device_flow [of base ?H serve print ?w "show_sign_in pamh", OF assms(1) start(1) assms(5) start(2) this]
  obtain w2 where flow: "authenticate_device_flow ?H ?c ''openid'' (show_sign_in pamh) ?w = Some (Ok mock_token, w2)"
    by blast
  have "verify_subject N J ?c username mock_token w2 = (Ok pam_auth_err, w2)"
    by (simp add: verify_subject_def mock_token_def validate_id_token_def assms(7) matchp_def fail_def ret_def)
  then show ?thesis
    by (simp add: pam_sm_authenticate_def authenticate_impl_def assms(2) get_oidc_client_known [OF start(3)] flow)
qed

end
