(* ===== verification/Pam_Conv_Laws.thy ===== *)
theory Pam_Conv_Laws
  imports Pam_Laws
begin

text \<open>
  What the entry points of the PAM module do to the application they sit in: which messages it is
  given, and that the memory its answers take is given back.
\<close>

section \<open>What a sign-in leaves alone\<close>

text \<open>A predicate that neither the wire, the cache, the file system, the log nor the two statics are part of.\<close>

definition talk_only :: "(pam_world \<Rightarrow> bool) \<Rightarrow> bool" where
  "talk_only P \<longleftrightarrow> (\<forall>w x y t c fs l s oc. P w \<longrightarrow>
     P (w\<lparr>sent := x, redirected := y, mono := t\<rparr>) \<and> P (w\<lparr>w_cache := c\<rparr>) \<and> P (w\<lparr>p_fs := fs\<rparr>) \<and> P (w\<lparr>p_log := l\<rparr>) \<and>
     P (w\<lparr>pw_service := s\<rparr>) \<and> P (w\<lparr>pw_oidc_client := oc\<rparr>))"

lemma talk_heap_shown: "talk_only (\<lambda>w. pw_heap w = h \<and> pw_shown w = ms)"
  by (simp add: talk_only_def)

lemma talk_wire: "talk_only P \<Longrightarrow> P w \<Longrightarrow> P (w\<lparr>sent := x, redirected := y, mono := t\<rparr>)"
  unfolding talk_only_def by blast

lemma keeps_on_cache: "talk_only P \<Longrightarrow> keeps P (on_cache m)"
  unfolding on_cache_def by (rule keeps_zoomp [where Q = "\<lambda>_. True"]) (simp_all add: talk_only_def keeps_def)

lemma keeps_on_fs: "talk_only P \<Longrightarrow> keeps P (on_fs m)"
  unfolding on_fs_def by (rule keeps_zoomp [where Q = "\<lambda>_. True"]) (simp_all add: talk_only_def keeps_def)

lemma keeps_log: "talk_only P \<Longrightarrow> keeps P (init_logging N i f)"
  by (rule init_logging_keeps) (simp add: talk_only_def)

lemma poll_keeps:
  assumes "talk_only P"
  shows "keeps P (poll_for_token H c dc)"
  unfolding poll_for_token_def read_body_def
  by (intro preserved talk_wire [OF assms]; assumption)

lemma poll_loop_keeps:
  assumes "talk_only P" "poll_loop H c dc d i w = Some (r, w')" "P w"
  shows "P w'"
proof -
  have "P w \<longrightarrow> P (snd (r, w'))"
  proof (rule poll_loop.raw_induct [OF _ assms(2)], goal_cases)
    case (1 loop H c dc d i w y)
    let ?w1 = "sleep_secs i w"
    obtain q w2 where poll: "poll_for_token H c dc ?w1 = (q, w2)" by (cases "poll_for_token H c dc ?w1")
    have "P w \<Longrightarrow> P ?w1" using talk_wire [OF assms(1), where w = w and x = "sent w" and y = "redirected w"] by (simp add: sleep_secs_def)
    with keepsD [OF poll_keeps [OF assms(1)] _ poll] have w2: "P w \<Longrightarrow> P w2" "P w \<Longrightarrow> P ?w1" by blast+
    show ?case
      using 1(2) [unfolded Let_def poll] 1(1) [of H c dc d i w2] 1(1) [of H c dc d "i + 5" w2] w2
      by (auto split: if_splits outcome.splits)
  qed
  with assms(3) show ?thesis by simp
qed

lemma lookup_keeps:
  assumes "talk_only P"
  shows "keeps P (lookup_user_by_name V S n)"
  unfolding service_defs scim_get_user_by_name_def
  by (intro preserved talk_wire [OF assms] keeps_on_cache [OF assms]; assumption)

lemma get_service_keeps:
  assumes "talk_only P"
  shows "keeps P (get_service N)"
proof -
  have set: "keeps P (\<lambda>v. ret x (v\<lparr>pw_service := s\<rparr>))" "keeps P (\<lambda>v. ret y (v\<lparr>w_cache := c\<rparr>))" for x s y c
    using assms by (simp_all add: talk_only_def keeps_def ret_def)
  have "keeps P (service_new V cfg scim)" for V cfg scim
    unfolding service_new_def by (intro preserved keeps_on_cache [OF assms])
  then have "keeps P (\<lambda>w. bindp (bindp (init_logging N ''pam_oidc'' facility_authpriv) (\<lambda>_. matchp (load_config N)
       (\<lambda>cfg. open_service N cfg (scim_client_new (cs_base_url (cfg_scim cfg)) (cs_bearer_token (cfg_scim cfg))))
       (\<lambda>_. ret None))) (\<lambda>svc v. ret svc (v\<lparr>pw_service := Some svc\<rparr>)) w)"
    unfolding load_config_def open_service_def
    by (intro preserved keeps_on_fs [OF assms] keeps_log [OF assms] set)
  then show ?thesis unfolding get_service_def keeps_def by (auto simp: ret_def split: option.split)
qed

lemma keeps_read_clock: "keeps P (\<lambda>w. case f w of None \<Rightarrow> fail e w | Some a \<Rightarrow> ret a w)"
  by (simp add: keeps_def fail_def ret_def split: option.split)

lemma verify_keeps:
  assumes "talk_only P"
  shows "keeps P (verify_subject N J client username token)"
  unfolding verify_subject_def validate_id_token_def
  by (intro preserved keeps_read_clock talk_wire [OF assms] lookup_keeps [OF assms] get_service_keeps [OF assms]; assumption)

lemma client_keeps:
  assumes "talk_only P"
  shows "keeps P (get_oidc_client N)"
proof -
  have set: "keeps P (\<lambda>v. ret x (v\<lparr>pw_oidc_client := c\<rparr>))" for x c
    using assms by (simp add: talk_only_def keeps_def ret_def)
  have "keeps P (discover_with_options H u i s b)" for H u i s b
    unfolding discover_with_options_def Let_def
    by (intro preserved field_or_pure check_https_pure talk_wire [OF assms]; assumption)
  then have "keeps P (discover H u i s)" "keeps P (discover_insecure H u i s)" for H u i s
    by (simp_all add: discover_def discover_insecure_def)
  then have "keeps P (\<lambda>w. bindp (bindp (init_logging N ''pam_oidc'' facility_authpriv) (\<lambda>_. matchp (load_config N)
       (\<lambda>cfg. let oc = cfg_oidc cfg; discover_fn = (if co_allow_insecure oc then discover_insecure else discover)
          in matchp (discover_fn (env_http (pe_env N)) (co_issuer_url oc) (co_client_id oc) (co_client_secret oc))
               (\<lambda>c. ret (Some c)) (\<lambda>_. ret None))
       (\<lambda>_. ret None))) (\<lambda>c v. ret c (v\<lparr>pw_oidc_client := Some c\<rparr>)) w)"
    unfolding load_config_def Let_def
    by (intro preserved keeps_on_fs [OF assms] keeps_log [OF assms] set) auto
  then show ?thesis unfolding get_oidc_client_def keeps_def by (auto simp: ret_def split: option.split)
qed

lemma device_code_keeps:
  assumes "talk_only P"
  shows "keeps P (request_device_code H c scope)"
  unfolding request_device_code_def
  by (intro preserved talk_wire [OF assms]; assumption)

section \<open>Messages and memory\<close>

text \<open>At most one message, to be shown as information, and no memory kept.\<close>

definition polite :: "pam_world \<Rightarrow> pam_world \<Rightarrow> bool" where
  "polite w w' \<longleftrightarrow> pw_heap w' = pw_heap w \<and>
     (\<exists>ms. pw_shown w' = pw_shown w @ ms \<and> length ms \<le> 1 \<and>
        list_all (\<lambda>m. pm_style m = pam_text_info \<and> NUL \<notin> set (pm_msg m)) ms)"

lemma polite_refl: "pw_heap w' = pw_heap w \<Longrightarrow> pw_shown w' = pw_shown w \<Longrightarrow> polite w w'"
  by (auto simp: polite_def intro: exI [of _ "[]"])

lemma silent:
  assumes "\<And>h ms. keeps (\<lambda>w. pw_heap w = h \<and> pw_shown w = ms) m" "m w = (r, w')"
  shows "pw_heap w' = pw_heap w \<and> pw_shown w' = pw_shown w"
  using keepsD [OF assms(1) _ assms(2)] by simp

lemma polite_step:
  assumes "polite v w" "pw_heap v = pw_heap u" "pw_shown v = pw_shown u" "pw_heap w' = pw_heap w" "pw_shown w' = pw_shown w"
  shows "polite u w'"
  using assms by (simp add: polite_def)

lemma pam_info_polite:
  assumes "well_behaved pamh"
  shows "polite w (snd (pam_info pamh msg w))"
  using pam_info_result [of pamh msg w] assms by (auto simp: polite_def intro: exI [of _ "[]"])

lemma impl_polite:
  assumes "well_behaved pamh" "authenticate_impl N J pamh w = Some (r, w')"
  shows "polite w w'"
proof -
  let ?H = "env_http (pe_env N)"
  have "polite w w'"
  proof (cases "get_pam_user pamh")
    case (Ok username)
    obtain c w1 where client: "get_oidc_client N w = (c, w1)" by (cases "get_oidc_client N w")
    note s1 = silent [OF client_keeps [OF talk_heap_shown] client]
    show ?thesis
    proof (cases "\<exists>oc. c = Ok (Some oc)")
      case True
      then obtain oc where c: "c = Ok (Some oc)" by blast
      obtain q w2 where code: "request_device_code ?H oc ''openid'' w1 = (q, w2)"
        by (cases "request_device_code ?H oc ''openid'' w1")
      note s2 = silent [OF device_code_keeps [OF talk_heap_shown] code]
      show ?thesis
      proof (cases q)
        case (Ok da)
        let ?w3 = "snd (pam_info pamh (sign_in_message (da_user_code da) (da_verification_uri da)) w2)"
        have shown: "polite w2 ?w3" by (rule pam_info_polite [OF assms(1)])
        have after: "pw_heap v = pw_heap ?w3 \<and> pw_shown v = pw_shown ?w3"
          if "authenticate_device_flow ?H oc ''openid'' (show_sign_in pamh) w1 = Some (t, v)" for t v
          using that code Ok poll_loop_keeps [OF talk_heap_shown [of "pw_heap ?w3" "pw_shown ?w3"]]
          by (auto simp: authenticate_device_flow_def ret_def split: option.splits)
        obtain t v where flow: "authenticate_device_flow ?H oc ''openid'' (show_sign_in pamh) w1 = Some (t, v)"
          using assms(2) \<open>get_pam_user pamh = Ok username\<close> client c
          by (auto simp: authenticate_impl_def split: option.splits)
        note s3 = after [OF flow]
        have "pw_heap w' = pw_heap v \<and> pw_shown w' = pw_shown v"
        proof (cases t)
          case t: (Ok token)
          then have "verify_subject N J oc username token v = (r, w')"
            using assms(2) \<open>get_pam_user pamh = Ok username\<close> client c flow by (simp add: authenticate_impl_def)
          then show ?thesis using silent [OF verify_keeps [OF talk_heap_shown]] by blast
        qed (use assms(2) \<open>get_pam_user pamh = Ok username\<close> client c flow in \<open>simp_all add: authenticate_impl_def\<close>)
        with polite_step [OF shown] s1 s2 s3 show ?thesis by simp
      qed (use assms(2) \<open>get_pam_user pamh = Ok username\<close> client c code s1 s2 in
          \<open>auto simp: authenticate_impl_def authenticate_device_flow_def intro: polite_refl\<close>)
    next
      case False
      then have "w' = w1"
        using assms(2) Ok client by (cases c) (auto simp: authenticate_impl_def split: option.splits)
      with s1 show ?thesis by (simp add: polite_refl)
    qed
  qed (use assms(2) in \<open>simp_all add: authenticate_impl_def polite_refl\<close>)
  then show ?thesis .
qed

text \<open>C30: A sign-in gives the application at most one message, an info message (never a prompt) without a zero
  byte, and leaves the heap as it found it, however it ends: what the conversation function
  allocates for its answer is freed, both blocks, once each, and nothing else is.\<close>

theorem sign_in_leaks_nothing:
  assumes "well_behaved pamh" "pam_sm_authenticate N J pamh w = Some (r, w')"
  shows "pw_heap w' = pw_heap w \<and> (\<exists>ms. pw_shown w' = pw_shown w @ ms \<and> length ms \<le> 1 \<and>
    list_all (\<lambda>m. pm_style m = pam_text_info \<and> NUL \<notin> set (pm_msg m)) ms)"
  using impl_polite [OF assms(1) assms(2) [unfolded pam_sm_authenticate_def]] by (simp add: polite_def)

theorem sign_in_leaks_nothing_witness:
  "\<exists>r w'. pam_sm_authenticate login_env login_jwt login_handle (login_world (Some (Some login_client))) = Some (r, w') \<and>
     pw_heap w' = \<lparr>ph_blocks = (\<lambda>_. None), ph_faults = 0\<rparr>"
proof -
  let ?w = "login_world (Some (Some login_client))"
  have http: "env_http (pe_env login_env) = login_http" by (simp add: login_env_def)
  have client: "get_oidc_client login_env ?w = (Ok (Some login_client), ?w)"
    by (rule get_oidc_client_known) (simp add: login_world_def)
  obtain v where "authenticate_device_flow login_http login_client ''openid'' (show_sign_in login_handle) ?w =
      Some (Ok login_token_response, v)" using login_token by blast
  then obtain r w' where run: "pam_sm_authenticate login_env login_jwt login_handle ?w = Some (r, w')"
    by (auto simp: pam_sm_authenticate_def authenticate_impl_def login_user client http) (metis surj_pair)
  with sign_in_leaks_nothing [OF login_polite run] show ?thesis by (auto simp: login_world_def)
qed

text \<open>So does a password change.\<close>

lemma password_change_leaks_nothing:
  assumes "well_behaved pamh" "pam_sm_chauthtok N pamh w = (r, w')"
  shows "polite w w'"
proof -
  obtain c w1 where client: "get_oidc_client N (log_pam N w) = (c, w1)" by (cases "get_oidc_client N (log_pam N w)")
  note s1 = silent [OF client_keeps [OF talk_heap_shown] client]
  show ?thesis
  proof (cases "\<exists>oc. c = Ok (Some oc)")
    case True
    then obtain oc where c: "c = Ok (Some oc)" by blast
    have told: "snd (bindp (pam_info pamh msg) (\<lambda>_. ret k) v) = snd (pam_info pamh msg v)" for msg k v
      using pam_info_result [of pamh msg v] by (auto simp: bindp_def matchp_def ret_def)
    obtain msg where "w' = snd (pam_info pamh msg w1)"
      using arg_cong [OF assms(2), of snd] client c
      by (simp only: pam_sm_chauthtok_def chauthtok_impl_def bindp_def [of "get_oidc_client N"] matchp_def prod.case outcome.case
          option.case told snd_conv) blast
    with polite_step [OF pam_info_polite [OF assms(1), of w1 msg]] s1 show ?thesis by simp
  next
    case False
    then have "w' = w1"
      using assms(2) client by (cases c) (auto simp: pam_sm_chauthtok_def chauthtok_impl_def prog_simps split: option.splits)
    with s1 show ?thesis by (simp add: polite_refl)
  qed
qed

end
