(* ===== verification/Cache_Time.thy ===== *)
theory Cache_Time
  imports Cache_Ops
begin

text \<open>
  The life of an entry of the table of users: it stays, through whatever operations of other processes
  that are not about it, until its age reaches the time to live. Every statement reads the clock, so the
  operations are ordered by the count of statements, which only grows.
\<close>

section \<open>The count of statements grows\<close>

definition later :: "nat \<Rightarrow> cache \<Rightarrow> bool" where
  "later k c \<longleftrightarrow> k \<le> statements_run c"

named_theorems counted \<open>which programs let the count of statements grow\<close>

lemma later_statement [counted]:
  "(\<And>n. keeps (later k) (body n)) \<Longrightarrow> keeps (later k) (sql_statement E body)"
  by (fastforce simp: keeps_def later_def sql_statement_def Let_def split: option.splits)

lemma later_sql [counted]:
  "keeps (later k) (sql_select E q)" "keeps (later k) (sql_select_fresh E q')"
  "(\<And>n c. statements_run (f n c) = statements_run c) \<Longrightarrow> keeps (later k) (sql_update E f)"
  "(\<And>b c. statements_run (g b c) = statements_run c) \<Longrightarrow> keeps (later k) (sql_purge E ttl g)"
  unfolding sql_select_def sql_select_fresh_def sql_update_def sql_purge_def
  by (rule later_statement; simp add: keeps_def later_def split: outcome.split)+

lemma table_counts [simp]:
  "statements_run (insert_uid_row r c) = statements_run c" "statements_run (insert_gid_row E g c) = statements_run c"
  "statements_run (delete_members_of k c) = statements_run c"
  "statements_run (delete_expired_members b c) = statements_run c"
  "statements_run (delete_expired_groups E b c) = statements_run c"
  "statements_run (delete_expired_users b c) = statements_run c"
  by (simp_all add: table_defs Let_def)

lemma later_insert_member [counted]: "keeps (later k) (insert_member_row E m)"
  by (auto simp: keeps_def later_def insert_member_row_def)

lemma later_group_of_row [counted]: "keeps (later k) (group_of_row E r)"
  unfolding group_of_row_def get_group_members_def by (intro keeps_ret keeps_tryp keeps_bindp counted)

lemma later_run_op:
  assumes "later k c"
  shows "later k (run_op E hash op c)"
proof -
  note rules = keeps_ret keeps_tryp keeps_bindp keeps_eachp keeps_collectp keeps_option keeps_resolve_id counted
  have "keeps (later k) (resolve_uid E hash eid lo rs)" "keeps (later k) (resolve_gid E hash eid lo rs)"
    "keeps (later k) (store_user E u)" "keeps (later k) (store_group E g)"
    "keeps (later k) (get_user_by_uid E uid)" "keeps (later k) (cached_user_by_name E n)"
    "keeps (later k) (get_group_by_gid E uid)" "keeps (later k) (cached_group_by_name E n)"
    "keeps (later k) (get_groups_for_member E n)" "keeps (later k) (purge_expired E ttl)"
    for eid lo rs u g uid n ttl
    unfolding resolve_uid_def resolve_gid_def uid_owner_def gid_owner_def store_user_def store_group_def
      get_user_by_uid_def cached_user_by_name_def get_group_by_gid_def cached_group_by_name_def
      get_groups_for_member_def purge_expired_def
    by (intro rules; simp)+
  then show ?thesis using assms by (cases op) (simp_all add: keeps_def)
qed

lemma run_op_counts: "statements_run c \<le> statements_run (run_op E hash op c)"
  using later_run_op [of "statements_run c" c] by (simp add: later_def)

lemma run_ops_count: "statements_run c \<le> statements_run (fold (run_op E hash) ops c)"
  by (induction ops arbitrary: c) (auto intro: order_trans run_op_counts)

lemma purge_counts:
  assumes "purge_expired E ttl c = (Ok x, c')"
  shows "statements_run c' = statements_run c + 3"
  using assms by (auto simp: purge_expired_def prog_inv)

section \<open>The time to live is fixed\<close>

lemma table_ttl [simp]:
  "cache_ttl (insert_uid_row r c) = cache_ttl c" "cache_ttl (insert_gid_row E g c) = cache_ttl c"
  "cache_ttl (delete_members_of k c) = cache_ttl c" "cache_ttl (delete_expired_members b c) = cache_ttl c"
  "cache_ttl (delete_expired_groups E b c) = cache_ttl c" "cache_ttl (delete_expired_users b c) = cache_ttl c"
  by (simp_all add: table_defs Let_def)

lemma reads_ttl: "keeps (same_tables c) m \<Longrightarrow> cache_ttl (snd (m c)) = cache_ttl c"
  by (auto simp: keeps_def same_tables_def)

lemma run_op_ttl: "cache_ttl (run_op E hash op c) = cache_ttl c"
proof -
  have member: "keeps (\<lambda>s. cache_ttl s = cache_ttl c) (insert_member_row E m)" for m
    by (auto simp: keeps_def insert_member_row_def)
  have "keeps (\<lambda>s. cache_ttl s = cache_ttl c) (store_group E g)"
    "keeps (\<lambda>s. cache_ttl s = cache_ttl c) (store_user E u)"
    "keeps (\<lambda>s. cache_ttl s = cache_ttl c) (purge_expired E ttl)" for g u ttl
    unfolding store_group_def store_user_def purge_expired_def by (intro preserved member; simp)+
  then have "cache_ttl (snd (store_group E g c)) = cache_ttl c" "cache_ttl (snd (store_user E u c)) = cache_ttl c"
    "cache_ttl (snd (purge_expired E ttl c)) = cache_ttl c" for g u ttl
    by (simp_all add: keeps_def)
  then show ?thesis by (cases op) (auto intro!: reads_ttl preserved)
qed

lemma run_ops_ttl: "cache_ttl (fold (run_op E hash) ops c) = cache_ttl c"
  by (induction ops arbitrary: c) (simp_all add: run_op_ttl)

section \<open>Operations that are not about an entry\<close>

text \<open>The clock of the database does not run backwards.\<close>

definition clock_forward :: "engine \<Rightarrow> bool" where
  "clock_forward E \<longleftrightarrow> (\<forall>m n. m \<le> n \<longrightarrow> eng_now E m \<le> eng_now E n)"

lemma clock_forwardD: "clock_forward E \<Longrightarrow> m \<le> n \<Longrightarrow> eng_now E m \<le> eng_now E n"
  by (simp add: clock_forward_def)

text \<open>
  Stores of other accounts under other uids, and purges that give entries at least the time to live.
  Everything else changes no user.
\<close>

fun leaves_entry :: "string \<Rightarrow> u32 \<Rightarrow> u64 \<Rightarrow> cache_op \<Rightarrow> bool" where
  "leaves_entry eid uid ttl (StoreUser u) \<longleftrightarrow> u_external_id u \<noteq> eid \<and> u_uid u \<noteq> uid"
| "leaves_entry eid uid ttl (PurgeExpired s) \<longleftrightarrow> ttl \<le> s"
| "leaves_entry eid uid ttl _ \<longleftrightarrow> True"

lemma done_purge: "op_answer E hash (PurgeExpired s) c = Done \<Longrightarrow> \<exists>x c'. purge_expired E s c = (Ok x, c')"
  by (cases "purge_expired E s c"; cases "fst (purge_expired E s c)") (auto simp: answer_of_def)

lemma entry_survives:
  assumes "schema_ok E c" "directory c eid = Some row" "clock_forward E"
    and "leaves_entry eid (ur_uid row) (cache_ttl c) op"
    and "eng_now E (statements_run (run_op E hash op c)) < ur_cached_at row + int (unat (cache_ttl c))"
  shows "directory (run_op E hash op c) eid = Some row"
proof -
  from directory_simulated [OF assms(1), of op hash] show ?thesis
  proof (cases rule: dir_step.cases)
    case (stored u)
    with assms(2,4) show ?thesis by (auto simp: dir_put_def row_of_user_def)
  next
    case (purged s)
    then obtain x c' where run: "purge_expired E s c = (Ok x, c')" using done_purge by metis
    have "eng_now E (statements_run c + 2) \<le> eng_now E (statements_run c')"
      using clock_forwardD [OF assms(3)] purge_counts [OF run] by simp
    moreover have "unat (cache_ttl c) \<le> unat s" using assms(4) purged by (simp add: word_le_nat_alt)
    then have "int (unat (cache_ttl c)) \<le> int (unat s)" by (simp only: of_nat_le_iff)
    ultimately have bound: "eng_now E (statements_run c + 2) - int (unat s) < ur_cached_at row"
      using assms(5) unfolding purged(1) run_op.simps run snd_conv by linarith
    show ?thesis unfolding purged(3) dir_expire_def assms(2) using bound by (simp only: option.case) simp
  qed (use assms(2) in auto)
qed

lemma entry_survives_all:
  assumes "schema_ok E c" "directory c eid = Some row" "clock_forward E"
    and "list_all (leaves_entry eid (ur_uid row) (cache_ttl c)) ops"
    and "eng_now E (statements_run (fold (run_op E hash) ops c)) < ur_cached_at row + int (unat (cache_ttl c))"
  shows "directory (fold (run_op E hash) ops c) eid = Some row"
  using assms
proof (induction ops arbitrary: c)
  case (Cons op ops)
  let ?c = "run_op E hash op c"
  have "eng_now E (statements_run ?c) \<le> eng_now E (statements_run (fold (run_op E hash) ops ?c))"
    using clock_forwardD [OF Cons.prems(3)] run_ops_count by blast
  then have "directory ?c eid = Some row"
    using Cons.prems by (intro entry_survives) simp_all
  then show ?case
    using Cons.IH [of ?c] Cons.prems run_op_schema [OF Cons.prems(1)] by (simp add: run_op_ttl)
qed simp

end
