(* ===== verification/Offline.thy ===== *)
theory Offline
  imports Pam_Laws Nss_Spec Cache_Time
begin

text \<open>
  Both modules over one cache file. What one process learned from the directory another one answers
  when the directory cannot be reached: the status of an account, and the account itself. The worlds of
  the two processes differ in everything but the cache, other operations may come between, and the
  clock moves: an entry serves until its age reaches the time to live.
\<close>

section \<open>The entry an import leaves\<close>

lemma later_on_cache: "keeps (later k) m \<Longrightarrow> keeps (\<lambda>w. later k (w_cache w)) (on_cache m)"
  unfolding on_cache_def by (rule keeps_zoomp) simp_all

lemma later_model: "keeps (\<lambda>w. later k (w_cache w)) (scim_user_to_model V S su)"
proof -
  have "keeps (later k) (resolve_uid E hash eid lo rs)" "keeps (later k) (resolve_gid E hash eid lo rs)"
    for E hash eid lo rs
    using later_run_op [of k _ E hash "ResolveUid eid lo rs"] later_run_op [of k _ E hash "ResolveGid eid lo rs"]
    by (simp_all add: keeps_def)
  then show ?thesis
    unfolding scim_user_to_model_def Let_def by (intro preserved later_on_cache)
qed

lemma imported_entry:
  assumes "tables_ok V w" "clock_forward (env_db V)" "import_user V S su w = (Ok u, w')"
  shows "\<exists>row. directory (w_cache w') (su_id su) = Some row \<and> u = user_of_row row \<and>
    eng_now (env_db V) (statements_run (w_cache w)) \<le> ur_cached_at row"
proof -
  from assms(3) obtain t where run: "scim_user_to_model V S su w = (Ok u, t)"
    "store_user (env_db V) u (w_cache t) = (Ok (), w_cache w')"
    by (auto simp: import_user_def prog_inv on_cache_eq)
  from scim_user_to_model_Ok [OF run(1)] have m: "u_external_id u = su_id su" "same_tables (w_cache w) (w_cache t)"
    by blast+
  then have ok: "schema_ok (env_db V) (w_cache t)"
    using assms(1) same_tables_views by (auto simp: tables_ok_def)
  have "later (statements_run (w_cache w)) (w_cache t)"
    by (rule keepsD [OF later_model _ run(1)]) (simp add: later_def)
  then have "eng_now (env_db V) (statements_run (w_cache w)) \<le> eng_now (env_db V) (statements_run (w_cache t))"
    using clock_forwardD [OF assms(2)] by (simp add: later_def)
  with user_row_now [OF ok run(2)] m(1) show ?thesis
    by (auto simp: user_of_row_def row_of_user_def)
qed

section \<open>The status of an account without the directory\<close>

text \<open>No other account of the cache has the name.\<close>

definition login_unique :: "cache \<Rightarrow> string \<Rightarrow> string \<Rightarrow> bool" where
  "login_unique c name eid \<longleftrightarrow> (\<forall>k r. directory c k = Some r \<longrightarrow> ur_login r = name \<longrightarrow> k = eid)"

lemma login_unique_step:
  assumes "schema_ok E c" "login_unique c name eid" "\<And>u. op = StoreUser u \<Longrightarrow> u_name u = name \<Longrightarrow> u_external_id u = eid"
  shows "login_unique (run_op E hash op c) name eid"
proof -
  from directory_simulated [OF assms(1), of op hash] show ?thesis
    using assms(2,3) unfolding login_unique_def
    by (cases rule: dir_step.cases)
      (auto simp: dir_put_def dir_expire_def row_of_user_def split: option.splits if_splits)
qed

lemma login_unique_run:
  assumes "schema_ok E c" "login_unique c name eid" "\<And>u. StoreUser u \<in> set ops \<Longrightarrow> u_name u \<noteq> name"
  shows "login_unique (fold (run_op E hash) ops c) name eid"
  using assms
proof (induction ops arbitrary: c)
  case (Cons op ops)
  have "login_unique (run_op E hash op c) name eid"
    using Cons.prems(3) by (intro login_unique_step Cons.prems(1,2)) auto
  then show ?case using Cons.IH [OF run_op_schema [OF Cons.prems(1)]] Cons.prems(3) by simp
qed simp

lemma import_login_unique:
  assumes "tables_ok V w" "import_user V S su w = (Ok u, w')" "login_unique (w_cache w) name (su_id su)"
  shows "login_unique (w_cache w') name (su_id su)"
proof -
  from assms(2) obtain t where run: "scim_user_to_model V S su w = (Ok u, t)"
    "store_user (env_db V) u (w_cache t) = (Ok (), w_cache w')"
    by (auto simp: import_user_def prog_inv on_cache_eq)
  from scim_user_to_model_Ok [OF run(1)] have m: "u_external_id u = su_id su" "same_tables (w_cache w) (w_cache t)"
    by blast+
  then have "schema_ok (env_db V) (w_cache t)" "login_unique (w_cache t) name (su_id su)"
    using assms(1,3) same_tables_views [OF m(2)] same_tables_directory [OF m(2)]
    by (auto simp: tables_ok_def login_unique_def)
  from login_unique_step [OF this, of "StoreUser u" "\<lambda>_. 0"] run(2) m(1) show ?thesis by simp
qed

lemma status_online:
  assumes "check_user_active V S name w = (Ok a, w')" "length name \<le> max_name_len"
    and "scim_get_user_by_name (env_http V) (sv_scim S) name w = (Ok (Some su), w0)"
  shows "\<exists>u. import_user V S su w0 = (Ok u, w') \<and> a = u_active u \<and> w_cache w0 = w_cache w"
  using assms(1,2) by (cases rule: check_user_active_Ok) (use assms(3) in auto)

lemma status_offline:
  assumes "check_user_active V S name w = (Ok a, w')" "length name \<le> max_name_len"
    and "scim_get_user_by_name (env_http V) (sv_scim S) name w = (Err e, w0)"
    and "offline_policy (cfg_security (sv_config S)) = CachedStatus"
  shows "\<exists>v. cached_user_by_name (env_db V) name (w_cache w) = (Ok v, w_cache w') \<and>
    a = (case v of None \<Rightarrow> False | Some u \<Rightarrow> u_active u)"
  using assms(1,2) by (cases rule: check_user_active_Ok) (use assms(3,4) in auto)

lemma status_from_cache:
  assumes "schema_ok E c" "directory c eid = Some row" "fresh_bound E c < ur_cached_at row" "ur_login row = name"
    and "login_unique c name eid" "cached_user_by_name E name c = (Ok v, c')"
  shows "v = Some (user_of_row row)"
proof -
  have "v \<noteq> None" using lookups_find(2) [OF assms(1,6)] assms(2-4) by (cases v) (auto simp: dir_finds_def)
  then obtain u r where "v = Some u" "directory c (u_external_id u) = Some r" "ur_login r = name" "u = user_of_row r"
    using lookups_find(2) [OF assms(1,6)] by (auto simp: dir_finds_def)
  with assms(2,5) show ?thesis by (auto simp: login_unique_def)
qed

text \<open>Operations of other processes that are not about an account: neither its identifier nor its name nor
  its uid is stored again, and nothing is purged before the time to live.\<close>

definition leaves_account :: "cache \<Rightarrow> string \<Rightarrow> string \<Rightarrow> cache_op \<Rightarrow> bool" where
  "leaves_account c name eid op \<longleftrightarrow>
     (case op of
        StoreUser u \<Rightarrow> u_external_id u \<noteq> eid \<and> u_name u \<noteq> name \<and> map_option ur_uid (directory c eid) \<noteq> Some (u_uid u)
      | PurgeExpired s \<Rightarrow> cache_ttl c \<le> s
      | _ \<Rightarrow> True)"

lemma leaves_account_entry:
  "list_all (leaves_account c name eid) ops \<Longrightarrow> directory c eid = Some row \<Longrightarrow>
     list_all (leaves_entry eid (ur_uid row) (cache_ttl c)) ops"
  by (induction ops) (auto simp: leaves_account_def split: cache_op.splits)

text \<open>C4: When the directory cannot be reached and the policy allows cached status, an account has the status
  the directory gave last. A check in one process reached the directory and said \<open>a\<close>; then come any
  operations on the cache that are not about this account (failed ones included); a check in any process
  that cannot reach the directory says \<open>a\<close> too, as long as less than the time to live has passed since
  the first. The directory must have answered the very name that was asked for, and no other account of the
  cache may have it.\<close>

theorem offline_status_is_last_known:
  assumes "schema_ok (env_db V) (w_cache w)" "clock_forward (env_db V)"
    and "check_user_active V S name w = (Ok a, w1)" "scim_get_user_by_name (env_http V) (sv_scim S) name w = (Ok (Some su), w0)"
    and "su_user_name su = name" "login_unique (w_cache w) name (su_id su)"
    and "list_all (leaves_account (w_cache w1) name (su_id su)) ops"
    and "w_cache v = fold (run_op (env_db V) hash) ops (w_cache w1)"
    and "eng_now (env_db V) (statements_run (w_cache v)) <
      eng_now (env_db V) (statements_run (w_cache w)) + int (unat (cache_ttl (w_cache w)))"
    and "env_db V' = env_db V" "check_user_active V' S' name v = (Ok b, v')"
    and "scim_get_user_by_name (env_http V') (sv_scim S') name v = (Err e, v0)"
    and "offline_policy (cfg_security (sv_config S')) = CachedStatus"
  shows "b = a"
proof (cases "max_name_len < length name")
  case True
  with assms(3,11) show ?thesis by (simp add: check_user_active_def ret_def)
next
  case False
  then have len: "length name \<le> max_name_len" by simp
  let ?E = "env_db V"
  from status_online [OF assms(3) len assms(4)] obtain u
    where online: "import_user V S su w0 = (Ok u, w1)" "a = u_active u" "w_cache w0 = w_cache w" by blast
  have ok: "tables_ok V w0" using assms(1) online(3) by (simp add: tables_ok_def)
  from imported_entry [OF ok assms(2) online(1)] obtain row where row: "directory (w_cache w1) (su_id su) = Some row"
    "u = user_of_row row" "eng_now ?E (statements_run (w_cache w)) \<le> ur_cached_at row"
    unfolding online(3) by blast
  have "u_name u = name"
    using online(1) assms(5) scim_user_to_model_Ok [of V S su w0 u] by (auto simp: import_user_def prog_inv)
  then have login: "ur_login row = name" "a = ur_active row" using row(2) online(2) by (simp_all add: user_of_row_def)
  have ttl: "cache_ttl (w_cache w1) = cache_ttl (w_cache w)" using import_user_row(2) [OF ok online(1)] online(3) by simp
  have ok1: "schema_ok ?E (w_cache w1)" using keepsD [OF import_tables(1) ok online(1)] by (simp add: tables_ok_def)
  have now: "eng_now ?E (statements_run (w_cache v)) < ur_cached_at row + int (unat (cache_ttl (w_cache w1)))"
    using assms(9) row(3) unfolding ttl by linarith
  have "directory (w_cache v) (su_id su) = Some row"
    unfolding assms(8)
    by (rule entry_survives_all [OF ok1 row(1) assms(2) leaves_account_entry [OF assms(7) row(1)]])
      (use now in \<open>simp only: assms(8)\<close>)
  moreover have "schema_ok ?E (w_cache v)" unfolding assms(8) by (rule cache_ops_keep_schema [OF ok1])
  moreover have "fresh_bound ?E (w_cache v) < ur_cached_at row"
    using now unfolding fresh_bound_def assms(8) run_ops_ttl by linarith
  moreover have "login_unique (w_cache v) name (su_id su)"
    unfolding assms(8) using assms(7)
    by (intro login_unique_run [OF ok1 import_login_unique [OF ok online(1)]])
      (auto simp: assms(6) online(3) list_all_iff leaves_account_def)
  moreover from status_offline [OF assms(11) len assms(12,13)] obtain x where
    "cached_user_by_name ?E name (w_cache v) = (Ok x, w_cache v')" "b = (case x of None \<Rightarrow> False | Some u \<Rightarrow> u_active u)"
    unfolding assms(10) by blast
  ultimately show ?thesis
    using status_from_cache [of ?E "w_cache v" "su_id su" row name x] login by (simp add: user_of_row_def)
qed

text \<open>The demonstration directory with a clock that moves on with every statement.\<close>

definition ticking_env :: "bool \<Rightarrow> env" where
  "ticking_env up = (demo_env up)\<lparr>env_db := quiet_engine\<rparr>"

lemma ticking_clock: "clock_forward (env_db (ticking_env up))" "env_db (ticking_env up) = env_db (ticking_env up')"
  by (simp_all add: ticking_env_def quiet_engine_def clock_forward_def)

lemma ticking_tables: "schema_ok (env_db (ticking_env up)) (w_cache demo_world)"
  by (simp add: ticking_env_def quiet_engine_def demo_world_def empty_cache_def schema_defs)

definition other_ops :: "cache_op list" where
  "other_ops = [StoreUser (sample_user ''z'' 1004), PurgeExpired 3600, UserByUid 1000]"

theorem offline_status_is_last_known_witness:
  "\<exists>w1 v'. check_user_active (ticking_env True) (demo_service CachedStatus) ''ann'' demo_world = (Ok True, w1) \<and>
     check_user_active (ticking_env False) (demo_service CachedStatus) ''ann''
       (w1\<lparr>w_cache := fold (run_op quiet_engine (\<lambda>_. 0)) other_ops (w_cache w1)\<rparr>) = (Ok True, v')"
proof -
  let ?S = "demo_service CachedStatus" and ?V = "ticking_env True" and ?V' = "ticking_env False"
  define w1 where "w1 = snd (check_user_active ?V ?S ''ann'' demo_world)"
  define v where "v = w1\<lparr>w_cache := fold (run_op quiet_engine (\<lambda>_. 0)) other_ops (w_cache w1)\<rparr>"
  have "fst (check_user_active ?V ?S ''ann'' demo_world) = Ok True" by code_simp
  then have run: "check_user_active ?V ?S ''ann'' demo_world = (Ok True, w1)"
    by (simp add: w1_def prod_eq_iff)
  have "case fst (scim_get_user_by_name (env_http ?V) (sv_scim ?S) ''ann'' demo_world) of
      Ok (Some su) \<Rightarrow> su_user_name su = ''ann'' \<and> su_id su = ''a'' | _ \<Rightarrow> False"
    by code_simp
  then obtain su w0 where scim: "scim_get_user_by_name (env_http ?V) (sv_scim ?S) ''ann'' demo_world = (Ok (Some su), w0)"
    "su_user_name su = ''ann''" "su_id su = ''a''"
    by (cases "scim_get_user_by_name (env_http ?V) (sv_scim ?S) ''ann'' demo_world") (auto split: outcome.splits option.splits)
  have "case fst (check_user_active ?V' ?S ''ann'' v) of Ok b \<Rightarrow> True | _ \<Rightarrow> False"
    unfolding v_def w1_def by code_simp
  then obtain b v' where again: "check_user_active ?V' ?S ''ann'' v = (Ok b, v')"
    by (cases "check_user_active ?V' ?S ''ann'' v") (auto split: outcome.splits)
  have "case fst (scim_get_user_by_name (env_http ?V') (sv_scim ?S) ''ann'' v) of Err e \<Rightarrow> True | _ \<Rightarrow> False"
    unfolding v_def w1_def by code_simp
  then obtain e v0 where down: "scim_get_user_by_name (env_http ?V') (sv_scim ?S) ''ann'' v = (Err e, v0)"
    by (cases "scim_get_user_by_name (env_http ?V') (sv_scim ?S) ''ann'' v") (auto split: outcome.splits)
  have quiet: "list_all (leaves_account (w_cache w1) ''ann'' (su_id su)) other_ops"
    unfolding w1_def scim(3) by code_simp
  have cache: "w_cache v = fold (run_op (env_db ?V) (\<lambda>_. 0)) other_ops (w_cache w1)"
    by (simp add: v_def ticking_env_def)
  have now: "eng_now (env_db ?V) (statements_run (w_cache v)) <
      eng_now (env_db ?V) (statements_run (w_cache demo_world)) + int (unat (cache_ttl (w_cache demo_world)))"
    unfolding v_def w1_def by code_simp
  have "b = True"
    by (rule offline_status_is_last_known [OF ticking_tables ticking_clock(1) run scim(1,2) _ quiet cache now _ again down])
      (simp_all add: ticking_env_def demo_world_def empty_cache_def login_unique_def directory_def demo_service_def demo_config_def)
  with run again show ?thesis unfolding v_def by blast
qed

section \<open>An account that was permitted is shown\<close>

text \<open>The entry an account was permitted by: live when the check began, and of the name asked for.\<close>

lemma active_entry:
  assumes "schema_ok (env_db V) (w_cache w)" "clock_forward (env_db V)" "cache_ttl (w_cache w) \<noteq> 0"
    and "check_user_active V S name w = (Ok True, w')"
    and "\<And>su w0. scim_get_user_by_name (env_http V) (sv_scim S) name w = (Ok (Some su), w0) \<Longrightarrow> su_user_name su = name"
  shows "\<exists>row. directory (w_cache w') (ur_external_id row) = Some row \<and> ur_login row = name \<and> ur_active row \<and>
    schema_ok (env_db V) (w_cache w') \<and> cache_ttl (w_cache w') = cache_ttl (w_cache w) \<and>
    eng_now (env_db V) (statements_run (w_cache w)) < ur_cached_at row + int (unat (cache_ttl (w_cache w)))"
proof -
  have "0 < unat (cache_ttl (w_cache w))" using assms(3) by (simp add: unat_gt_0)
  then have pos: "0 < int (unat (cache_ttl (w_cache w)))" by (simp only: of_nat_0_less_iff)
  have "length name \<le> max_name_len"
    using assms(4) by (cases "max_name_len < length name") (simp_all add: check_user_active_def ret_def)
  with assms(4) show ?thesis
  proof (cases rule: check_user_active_Ok)
    case (online su w0 u)
    have ok: "tables_ok V w0" using assms(1) online(4) by (simp add: tables_ok_def)
    from imported_entry [OF ok assms(2) online(2)] obtain row where row:
      "directory (w_cache w') (su_id su) = Some row" "u = user_of_row row"
      "eng_now (env_db V) (statements_run (w_cache w)) \<le> ur_cached_at row"
      unfolding online(4) by blast
    have ok': "schema_ok (env_db V) (w_cache w')"
      using keepsD [OF import_tables(1) ok online(2)] by (simp add: tables_ok_def)
    have "ur_external_id row = su_id su" using row(1) directory_mem [OF ok'] by blast
    moreover have "u_name u = name"
      using online(2) assms(5) [OF online(1)] scim_user_to_model_Ok [of V S su w0 u] by (auto simp: import_user_def prog_inv)
    moreover have "cache_ttl (w_cache w') = cache_ttl (w_cache w)" using import_user_row(2) [OF ok online(2)] online(4) by simp
    moreover have "eng_now (env_db V) (statements_run (w_cache w)) < ur_cached_at row + int (unat (cache_ttl (w_cache w)))"
      using row(3) pos by linarith
    ultimately show ?thesis using row(1,2) ok' online(3) by (intro exI [of _ row]) (simp add: user_of_row_def)
  next
    case (cached e w0 v)
    then obtain u where u: "v = Some u" "u_active u" by (auto split: option.splits)
    have same: "same_tables (w_cache w) (w_cache w')" by (rule keepsD [OF cached_user_by_name_reads _ cached(3)]) simp
    from lookups_find(2) [OF assms(1) cached(3)] obtain r where r: "directory (w_cache w) (u_external_id u) = Some r"
      "ur_login r = name" "fresh_bound (env_db V) (w_cache w) < ur_cached_at r" "u = user_of_row r"
      unfolding u dir_finds_def by auto
    have "ur_external_id r = u_external_id u" using r(1) directory_mem [OF assms(1)] by blast
    moreover have "eng_now (env_db V) (statements_run (w_cache w)) < ur_cached_at r + int (unat (cache_ttl (w_cache w)))"
      using r(3) unfolding fresh_bound_def by linarith
    ultimately show ?thesis
      using r u same same_tables_directory [OF same] same_tables_views [OF same] assms(1)
      by (intro exI [of _ r]) (simp add: user_of_row_def same_tables_def)
  qed simp
qed

text \<open>A live entry is shown, whatever the directory of the process does.\<close>

lemma getpwuid_shows_entry:
  assumes "schema_ok (env_db (pe_env M)) (w_cache v)" "nw_state v = Some (Some ns)" "\<not> service_poisoned v"
    and "directory (w_cache v) (ur_external_id row) = Some row" "fresh_bound (env_db (pe_env M)) (w_cache v) < ur_cached_at row"
    and "eng_fault (env_db (pe_env M)) (statements_run (w_cache v)) = None" "unat (cache_ttl (w_cache v)) < 9223372036854775808"
  shows "\<exists>st v'. nss_getpwuid_r M (ur_uid row) buf buflen v = (Ok st, v') \<and>
    (if passwd_size (user_of_row row) \<le> buflen
     then st = Success \<and> shows_user (nw_caller v') (user_of_row row)
     else st = TryAgain \<and> errno (nw_caller v') = erange)"
proof -
  let ?E = "env_db (pe_env M)" and ?u = "user_of_row row"
  obtain x c where look: "get_user_by_uid ?E (ur_uid row) (w_cache v) = (Ok x, c)"
    using assms(6,7) by (auto simp: get_user_by_uid_def prog_inv)
  have "dir_serves (fresh_bound ?E (w_cache v)) (directory (w_cache v)) (ur_uid row) ?u"
    using assms(4,5) by (auto simp: dir_serves_def)
  then have "x = Some ?u" using get_user_by_uid_serves [OF assms(1) look] by blast
  with look have found: "lookup_user_by_uid (pe_env M) (ns_service ns) (ur_uid row) v = (Ok (Some ?u), v\<lparr>w_cache := c\<rparr>)"
    by (simp add: lookup_user_by_uid_eq)
  obtain st caller where fill: "fill_passwd_buf ?u buf buflen (nw_caller v) = (st, caller)"
    by (cases "fill_passwd_buf ?u buf buflen (nw_caller v)")
  have "nss_getpwuid_r M (ur_uid row) buf buflen v = (Ok st, v\<lparr>w_cache := c, nw_caller := caller\<rparr>)"
    unfolding nss_getpwuid_r_def passwd_by_uid_def with_service_known [OF assms(2,3)]
    by (simp add: matchp_def found on_caller_def fill ret_def)
  with fill_passwd_result [OF fill] show ?thesis by (auto split: if_splits)
qed

text \<open>C5: The modules agree on who is there. When the PAM module permits an account, the cache has an entry of
  that name, live at the time, and until it expires the NSS module in any process on the machine answers
  its uid with that account, whatever its own directory answers or does not, after any operations on the
  cache that are not about the account: with a buffer that is large enough it reports success and shows the
  account, and otherwise it asks for a larger one. (The lookup's own statement must not fail, nor a panic
  have poisoned the service of that process; the directory must answer the name it was asked for.)\<close>

theorem permitted_account_is_shown:
  assumes "schema_ok (env_db (pe_env N)) (w_cache w)" "clock_forward (env_db (pe_env N))"
    and "cache_ttl (w_cache w) \<noteq> 0" "unat (cache_ttl (w_cache w)) < 9223372036854775808"
    and "pw_service w = Some (Some svc)" "get_pam_user pamh = Ok name" "pam_sm_acct_mgmt N pamh w = (Ok pam_success, w')"
    and "\<And>su w0. scim_get_user_by_name (env_http (pe_env N)) (sv_scim svc) name w = (Ok (Some su), w0) \<Longrightarrow>
      su_user_name su = name"
    and "env_db (pe_env M) = env_db (pe_env N)" "nw_state v = Some (Some ns)" "\<not> service_poisoned v"
    and "eng_fault (env_db (pe_env M)) (statements_run (w_cache v)) = None"
  shows "\<exists>row. ur_login row = name \<and> ur_active row \<and> directory (w_cache w') (ur_external_id row) = Some row \<and>
    eng_now (env_db (pe_env N)) (statements_run (w_cache w)) < ur_cached_at row + int (unat (cache_ttl (w_cache w))) \<and>
    (\<forall>ops hash. list_all (leaves_entry (ur_external_id row) (ur_uid row) (cache_ttl (w_cache w))) ops \<longrightarrow>
       w_cache v = fold (run_op (env_db (pe_env N)) hash) ops (w_cache w') \<longrightarrow>
       eng_now (env_db (pe_env N)) (statements_run (w_cache v)) < ur_cached_at row + int (unat (cache_ttl (w_cache w))) \<longrightarrow>
       (\<exists>st v'. nss_getpwuid_r M (ur_uid row) buf buflen v = (Ok st, v') \<and>
          (if passwd_size (user_of_row row) \<le> buflen
           then st = Success \<and> shows_user (nw_caller v') (user_of_row row)
           else st = TryAgain \<and> errno (nw_caller v') = erange)))"
proof -
  let ?w = "log_pam N w" and ?E = "env_db (pe_env N)"
  have known: "get_service N ?w = (Ok (Some svc), ?w)" using assms(5) by (simp add: get_service_def ret_def)
  have named: "su_user_name su = name"
    if "scim_get_user_by_name (env_http (pe_env N)) (sv_scim svc) name ?w = (Ok (Some su), w0)" for su w0
    using that assms(8) by (auto simp: scim_log map_prod_def split: prod.splits)
  note run = assms(7) [unfolded pam_sm_acct_mgmt_def acct_mgmt_impl_def assms(6) outcome.case, simplified bindp_eq known, simplified]
  from run have active: "check_user_active (pe_env N) svc name ?w = (Ok True, w')"
    by (auto simp: prog_inv pam_codes split: if_splits)
  have "schema_ok ?E (w_cache ?w)" "cache_ttl (w_cache ?w) \<noteq> 0" using assms(1,3) by simp_all
  from active_entry [OF this(1) assms(2) this(2) active] named obtain row where row:
    "directory (w_cache w') (ur_external_id row) = Some row" "ur_login row = name" "ur_active row"
    "schema_ok ?E (w_cache w')" "cache_ttl (w_cache w') = cache_ttl (w_cache w)"
    "eng_now ?E (statements_run (w_cache w)) < ur_cached_at row + int (unat (cache_ttl (w_cache w)))"
    unfolding start_log_sel by blast
  have "\<exists>st v'. nss_getpwuid_r M (ur_uid row) buf buflen v = (Ok st, v') \<and>
      (if passwd_size (user_of_row row) \<le> buflen then st = Success \<and> shows_user (nw_caller v') (user_of_row row)
       else st = TryAgain \<and> errno (nw_caller v') = erange)"
    if ops: "list_all (leaves_entry (ur_external_id row) (ur_uid row) (cache_ttl (w_cache w))) ops"
      and cache: "w_cache v = fold (run_op ?E hash) ops (w_cache w')"
      and now: "eng_now ?E (statements_run (w_cache v)) < ur_cached_at row + int (unat (cache_ttl (w_cache w)))"
    for ops hash
  proof (rule getpwuid_shows_entry [OF _ assms(10,11) _ _ assms(12)])
    have ttl: "cache_ttl (w_cache v) = cache_ttl (w_cache w)" unfolding cache run_ops_ttl row(5) ..
    show "schema_ok (env_db (pe_env M)) (w_cache v)"
      unfolding assms(9) cache by (rule cache_ops_keep_schema [OF row(4)])
    show "directory (w_cache v) (ur_external_id row) = Some row"
      unfolding cache by (rule entry_survives_all [OF row(4,1) assms(2)]) (use ops now in \<open>simp_all only: cache row(5)\<close>)
    show "fresh_bound (env_db (pe_env M)) (w_cache v) < ur_cached_at row"
      using now unfolding assms(9) fresh_bound_def ttl by linarith
    show "unat (cache_ttl (w_cache v)) < 9223372036854775808" using assms(4) unfolding ttl .
  qed
  with row show ?thesis by blast
qed

definition ticking_nss :: "bool \<Rightarrow> proc_env" where
  "ticking_nss up = (demo_nss up)\<lparr>pe_env := ticking_env up\<rparr>"

theorem permitted_account_is_shown_witness:
  "\<exists>w' v'. pam_sm_acct_mgmt (ticking_nss True) login_handle (login_world None) = (Ok pam_success, w') \<and>
     nss_getpwuid_r (ticking_nss False) 1000 64 40
       (demo_running\<lparr>w_cache := fold (run_op quiet_engine (\<lambda>_. 0)) other_ops (w_cache w')\<rparr>) = (Ok Success, v')"
proof -
  let ?N = "ticking_nss True" and ?M = "ticking_nss False" and ?w = "login_world None"
  define w' where "w' = snd (pam_sm_acct_mgmt ?N login_handle ?w)"
  define v where "v = demo_running\<lparr>w_cache := fold (run_op quiet_engine (\<lambda>_. 0)) other_ops (w_cache w')\<rparr>"
  have "fst (pam_sm_acct_mgmt ?N login_handle ?w) = Ok pam_success" by code_simp
  then have run: "pam_sm_acct_mgmt ?N login_handle ?w = (Ok pam_success, w')" by (simp add: w'_def prod_eq_iff)
  have answer: "case fst (scim_get_user_by_name (env_http (pe_env ?N)) (sv_scim (demo_service Deny)) ''ann'' ?w) of
      Ok (Some su) \<Rightarrow> su_user_name su = ''ann'' | _ \<Rightarrow> False" by code_simp
  have E: "env_db (pe_env (ticking_nss up)) = quiet_engine" for up by (simp add: ticking_nss_def ticking_env_def)
  have pre: "schema_ok quiet_engine (w_cache ?w)" "cache_ttl (w_cache ?w) \<noteq> 0"
    "unat (cache_ttl (w_cache ?w)) < 9223372036854775808" "pw_service ?w = Some (Some (demo_service Deny))"
    "nw_state v = Some (Some demo_state)" "\<not> service_poisoned v" "eng_fault quiet_engine n = None" for n
    by (simp_all add: login_world_def empty_cache_def schema_defs v_def demo_process_def quiet_engine_def)
  have clock: "clock_forward quiet_engine" by (simp add: clock_forward_def quiet_engine_def)
  have named: "su_user_name su = ''ann''"
    if "scim_get_user_by_name (env_http (pe_env ?N)) (sv_scim (demo_service Deny)) ''ann'' ?w = (Ok (Some su), w0)" for su w0
    using answer that by simp
  obtain row where row: "directory (w_cache w') (ur_external_id row) = Some row" "ur_login row = ''ann''"
    and shown: "\<forall>ops hash. list_all (leaves_entry (ur_external_id row) (ur_uid row) (cache_ttl (w_cache ?w))) ops \<longrightarrow>
       w_cache v = fold (run_op quiet_engine hash) ops (w_cache w') \<longrightarrow>
       eng_now quiet_engine (statements_run (w_cache v)) < ur_cached_at row + int (unat (cache_ttl (w_cache ?w))) \<longrightarrow>
       (\<exists>st v'. nss_getpwuid_r ?M (ur_uid row) 64 40 v = (Ok st, v') \<and>
          (if passwd_size (user_of_row row) \<le> 40 then st = Success \<and> shows_user (nw_caller v') (user_of_row row)
           else st = TryAgain \<and> errno (nw_caller v') = erange))"
    using permitted_account_is_shown [where v = v and M = ?M and N = ?N and buf = 64 and buflen = 40,
        unfolded E, OF pre(1) clock pre(2,3,4) login_user run _ refl pre(5,6,7)] named by blast
  have "case uid_cache (w_cache w') of [r] \<Rightarrow> ur_uid r = 1000 \<and> ur_external_id r = ''a'' \<and> passwd_size (user_of_row r) \<le> 40 \<and>
      eng_now quiet_engine (statements_run (w_cache v)) < ur_cached_at r + 3600 | _ \<Rightarrow> False"
    unfolding v_def w'_def by code_simp
  then have r: "ur_uid row = 1000" "ur_external_id row = ''a''" "passwd_size (user_of_row row) \<le> 40"
    "eng_now quiet_engine (statements_run (w_cache v)) < ur_cached_at row + 3600"
    using row(1) by (auto simp: directory_def split: list.splits if_splits)
  have "list_all (leaves_entry ''a'' 1000 (cache_ttl (w_cache ?w))) other_ops" "int (unat (cache_ttl (w_cache ?w))) = 3600"
    by code_simp+
  with shown r have "\<exists>st v'. nss_getpwuid_r ?M (ur_uid row) 64 40 v = (Ok st, v') \<and>
          (if passwd_size (user_of_row row) \<le> 40 then st = Success \<and> shows_user (nw_caller v') (user_of_row row)
           else st = TryAgain \<and> errno (nw_caller v') = erange)"
    by (auto simp: v_def)
  then have "\<exists>v'. nss_getpwuid_r ?M 1000 64 40 v = (Ok Success, v')" using r(1,3) by auto
  with run show ?thesis unfolding v_def by blast
qed

section \<open>Two accounts of one name\<close>

text \<open>
  The name of a user is no key of the cache. When a user is removed and another of the same name
  is created, the row of the former one stays until it expires: an account that was denied a
  moment ago, with the directory reachable, is permitted when it is not.
\<close>

definition renewed_http :: http_env where
  "renewed_http = (demo_http True)\<lparr>he_parse := (\<lambda>_. Some (DObj [(''totalResults'', DInt 1), (''Resources'', DArr
     [DObj [(''id'', DStr ''b''), (''userName'', DStr ''ann''), (''active'', DBool False)]])]))\<rparr>"

definition renewed_env :: env where
  "renewed_env = (demo_env True)\<lparr>env_http := renewed_http\<rparr>"

theorem stale_login_permits:
  "let S = demo_service CachedStatus;
       w1 = snd (check_user_active (demo_env True) S ''ann'' demo_world);
       w2 = snd (check_user_active renewed_env S ''ann'' w1)
   in fst (check_user_active renewed_env S ''ann'' w1) = Ok False \<and>
      fst (check_user_active (demo_env False) S ''ann'' w2) = Ok True"
  by code_simp

end
