(* ===== verification/Race.thy ===== *)
theory Race
  imports Service_Spec
begin

text \<open>
  Every process that loads a module imports users on its own: \<open>scim_user_to_model\<close> resolves the uid in
  the shared cache, \<open>Cache::store_user\<close> records it, and nothing encloses the two. Two processes that
  both resolve before either stores give two accounts one uid.
\<close>

definition race_user :: "string \<Rightarrow> scim_user" where
  "race_user k = \<lparr>su_id = k, su_user_name = k, su_display_name = None, su_active = None, su_groups = []\<rparr>"

text \<open>A program of a process, on the cache file as another process has left it.\<close>

definition after :: "world \<Rightarrow> (world, 'a, 'e) prog \<Rightarrow> world \<Rightarrow> ('a, 'e) outcome \<times> world" where
  "after other m w = m (w\<lparr>w_cache := w_cache other\<rparr>)"

text \<open>Without a lock between the two steps, two processes that import different users from an empty
  cache are both served the same uid, and the first account is evicted by the second.\<close>

theorem racing_imports_share_uid:
  "let V = demo_env True; S = demo_service Deny;
       (first, a1) = scim_user_to_model V S (race_user ''a'') demo_world;
       (second, b1) = after a1 (scim_user_to_model V S (race_user ''b'')) demo_world
   in case (first, second) of
        (Ok u, Ok v) \<Rightarrow>
          (let (x, a2) = after b1 (on_cache (store_user (env_db V) u)) a1;
               (y, b2) = after a2 (on_cache (store_user (env_db V) v)) b1
           in x = Ok () \<and> y = Ok () \<and> u_external_id u = ''a'' \<and> u_external_id v = ''b'' \<and> u_uid u = u_uid v \<and>
              user_owner (w_cache b2) (u_uid u) = Some ''b'')
      | _ \<Rightarrow> False"
  by code_simp

end
