(* ===== verification/Group_Directory.thy ===== *)
theory Group_Directory
  imports Cache_Ops
begin

text \<open>
  The abstract directory behind the two tables of groups: a map from external identifiers to rows,
  and the set of the members listed for each. \<open>store_group\<close> and \<open>purge_expired\<close> are several
  statements without a transaction, so an operation that fails may have done a part of its work; the
  step relation says which parts. Every operation of the cache simulates a step.
\<close>

section \<open>The directory and its steps\<close>

record group_dir =
  gd_entry :: "string \<Rightarrow> gid_row option"
  gd_roster :: "string \<Rightarrow> string set"

definition group_dir_of :: "cache \<Rightarrow> group_dir" where
  "group_dir_of c = \<lparr>gd_entry = (\<lambda>k. find (\<lambda>r. gr_external_id r = k) (gid_cache c)),
     gd_roster = (\<lambda>k. set (members_of k c))\<rparr>"

text \<open>Removing entries takes their members with it exactly where foreign keys are enforced.\<close>

definition gd_remove :: "bool \<Rightarrow> (gid_row \<Rightarrow> bool) \<Rightarrow> group_dir \<Rightarrow> group_dir" where
  "gd_remove cascade gone d =
     (let hit = (\<lambda>k. \<exists>r. gd_entry d k = Some r \<and> gone r) in
      \<lparr>gd_entry = (\<lambda>k. if hit k then None else gd_entry d k),
       gd_roster = (\<lambda>k. if cascade \<and> hit k then {} else gd_roster d k)\<rparr>)"

text \<open>A new entry displaces the former one and any other entry with its gid.\<close>

definition gd_put :: "bool \<Rightarrow> gid_row \<Rightarrow> group_dir \<Rightarrow> group_dir" where
  "gd_put cascade r d =
     (let d' = gd_remove cascade (\<lambda>x. gr_external_id x = gr_external_id r \<or> gr_gid x = gr_gid r) d
      in d'\<lparr>gd_entry := (gd_entry d')(gr_external_id r := Some r)\<rparr>)"

definition gd_list :: "string \<Rightarrow> string set \<Rightarrow> group_dir \<Rightarrow> group_dir" where
  "gd_list k ms d = d\<lparr>gd_roster := (gd_roster d)(k := ms)\<rparr>"

definition gd_drop_members :: "int \<Rightarrow> group_dir \<Rightarrow> group_dir" where
  "gd_drop_members bound d =
     d\<lparr>gd_roster := (\<lambda>k. if \<exists>r. gd_entry d k = Some r \<and> gr_cached_at r \<le> bound then {} else gd_roster d k)\<rparr>"

text \<open>What a lookup of a gid may answer: a live entry with its members, or nothing when there is none.\<close>

definition gd_answers :: "int \<Rightarrow> group_dir \<Rightarrow> u32 \<Rightarrow> group option \<Rightarrow> bool" where
  "gd_answers bound d gid v \<longleftrightarrow>
     (case v of
        None \<Rightarrow> \<not> (\<exists>k r. gd_entry d k = Some r \<and> gr_gid r = gid \<and> bound < gr_cached_at r)
      | Some g \<Rightarrow> \<exists>r. gd_entry d (g_external_id g) = Some r \<and> gr_gid r = gid \<and> bound < gr_cached_at r \<and>
          g_name g = gr_name r \<and> g_gid g = gid \<and> set (g_members g) = gd_roster d (g_external_id g))"

inductive group_step :: "bool \<Rightarrow> cache_op \<Rightarrow> group_dir \<Rightarrow> group_dir \<Rightarrow> bool" for cascade where
  same: "group_step cascade op d d"
| put_only: "group_step cascade (StoreGroup g) d (gd_put cascade (group_row g now) d)"
| put_listed: "n \<le> length (g_members g) \<Longrightarrow>
    group_step cascade (StoreGroup g) d
      (gd_list (g_external_id g) (set (take n (g_members g))) (gd_put cascade (group_row g now) d))"
| drop_members: "group_step cascade (PurgeExpired ttl) d (gd_drop_members bound d)"
| drop_groups: "group_step cascade (PurgeExpired ttl) d
    (gd_remove cascade (\<lambda>r. gr_cached_at r \<le> bound') (gd_drop_members bound d))"

inductive_cases group_step_lookup: "group_step cascade (GroupByGid gid) d d'"

section \<open>What the statements do to it\<close>

lemma group_entry_mem:
  assumes "groups_ok c"
  shows "gd_entry (group_dir_of c) k = Some r \<longleftrightarrow> r \<in> set (gid_cache c) \<and> gr_external_id r = k"
proof
  assume "r \<in> set (gid_cache c) \<and> gr_external_id r = k"
  with assms show "gd_entry (group_dir_of c) k = Some r"
    unfolding group_dir_of_def by (simp, intro find_unique [where k = gr_external_id]) (auto simp: groups_ok_def)
qed (auto simp: group_dir_of_def dest: find_in)

lemma roster_mem: "m \<in> gd_roster (group_dir_of c) k \<longleftrightarrow> \<lparr>mr_group_external_id = k, mr_member_name = m\<rparr> \<in> set (group_members c)"
  by (simp add: group_dir_of_def member_in_members_of)

lemma group_dir_counter [simp]: "group_dir_of (c\<lparr>statements_run := n\<rparr>) = group_dir_of c"
  by (simp add: group_dir_of_def)

lemma group_dir_eqI:
  assumes "\<And>k. gd_entry d k = gd_entry e k" "\<And>k m. m \<in> gd_roster d k \<longleftrightarrow> m \<in> gd_roster e k"
  shows "d = (e :: group_dir)"
  using assms by (cases d; cases e) (auto simp: fun_eq_iff)

lemma group_dir_remove:
  assumes "groups_ok c"
  shows "group_dir_of (delete_gid_rows E gone c) = gd_remove (eng_foreign_keys E) gone (group_dir_of c)"
proof (rule group_dir_eqI)
  fix k m
  have d: "distinct (map gr_external_id (gid_cache c))" using assms by (simp add: groups_ok_def)
  show "gd_entry (group_dir_of (delete_gid_rows E gone c)) k =
      gd_entry (gd_remove (eng_foreign_keys E) gone (group_dir_of c)) k"
    by (auto simp: group_dir_of_def gd_remove_def delete_gid_rows_def find_filter [OF d] split: option.splits)
  show "m \<in> gd_roster (group_dir_of (delete_gid_rows E gone c)) k \<longleftrightarrow>
      m \<in> gd_roster (gd_remove (eng_foreign_keys E) gone (group_dir_of c)) k"
    using group_entry_mem [OF assms, of k]
    by (auto simp: gd_remove_def roster_mem delete_gid_rows_def)
qed

lemma group_dir_insert:
  assumes "groups_ok c"
  shows "group_dir_of (insert_gid_row E r c) = gd_put (eng_foreign_keys E) r (group_dir_of c)"
proof -
  let ?gone = "\<lambda>x. gr_external_id x = gr_external_id r \<or> gr_gid x = gr_gid r"
  let ?c = "delete_gid_rows E ?gone c"
  have "find (\<lambda>x. gr_external_id x = gr_external_id r) (gid_cache ?c) = None"
    by (auto simp: delete_gid_rows_def find_None_iff)
  then have "group_dir_of (?c\<lparr>gid_cache := gid_cache ?c @ [r]\<rparr>) =
      (group_dir_of ?c)\<lparr>gd_entry := (gd_entry (group_dir_of ?c))(gr_external_id r := Some r)\<rparr>"
    by (auto simp: group_dir_of_def members_of_def fun_eq_iff find_append split: option.splits)
  then show ?thesis
    by (simp add: insert_gid_row_def Let_def gd_put_def group_dir_remove [OF assms])
qed

lemma group_dir_clear: "group_dir_of (delete_members_of k c) = gd_list k {} (group_dir_of c)"
  by (rule group_dir_eqI) (auto simp: gd_list_def roster_mem, auto simp: group_dir_of_def delete_members_of_def)

lemma group_dir_drop_members:
  assumes "groups_ok c"
  shows "group_dir_of (delete_expired_members b c) = gd_drop_members b (group_dir_of c)"
proof (rule group_dir_eqI)
  fix k m
  show "gd_entry (group_dir_of (delete_expired_members b c)) k = gd_entry (gd_drop_members b (group_dir_of c)) k"
    by (simp add: gd_drop_members_def group_dir_of_def delete_expired_members_def)
  show "m \<in> gd_roster (group_dir_of (delete_expired_members b c)) k \<longleftrightarrow> m \<in> gd_roster (gd_drop_members b (group_dir_of c)) k"
    using group_entry_mem [OF assms, of k]
    by (auto simp: gd_drop_members_def roster_mem delete_expired_members_def)
qed

lemma group_dir_same_tables: "same_tables c d \<Longrightarrow> group_dir_of d = group_dir_of c"
  by (simp add: same_tables_def group_dir_of_def members_of_def)

text \<open>The insertion of the members, up to the one that fails.\<close>

lemma insert_members_result:
  assumes "insert_members E g ms c = (r, c')"
  shows "\<exists>n \<le> length ms. group_dir_of c' = gd_list g (gd_roster (group_dir_of c) g \<union> set (take n ms)) (group_dir_of c) \<and>
    (r = Ok () \<longrightarrow> n = length ms)"
  using assms
proof (induction ms arbitrary: c)
  case Nil
  then show ?case by (auto simp: gd_list_def prog_simps)
next
  case (Cons m ms)
  let ?step = "tryp Sqlite (sql_statement E (\<lambda>_. insert_member_row E \<lparr>mr_group_external_id = g, mr_member_name = m\<rparr>)) ret"
  obtain v t where step: "?step c = (v, t)" by (cases "?step c")
  show ?case
  proof (cases v)
    case (Ok x)
    with step have t: "group_dir_of t = gd_list g (insert m (gd_roster (group_dir_of c) g)) (group_dir_of c)"
      by (intro group_dir_eqI) (auto simp: insert_member_Ok gd_list_def roster_mem, auto simp: group_dir_of_def)
    have "insert_members E g ms t = (r, c')" using Cons.prems step Ok by (simp add: bindp_run)
    from Cons.IH [OF this] obtain n where n: "n \<le> length ms"
      "group_dir_of c' = gd_list g (gd_roster (group_dir_of t) g \<union> set (take n ms)) (group_dir_of t)"
      "r = Ok () \<longrightarrow> n = length ms" by blast
    then show ?thesis by (intro exI [of _ "Suc n"]) (simp add: t gd_list_def Un_insert_left)
  next
    case (Err e)
    have "group_dir_of t = group_dir_of c"
      using step Err by (auto simp: tryp_def matchp_def sql_statement_def insert_member_row_def fail_def ret_def Let_def
          split: option.splits if_splits outcome.splits prod.splits)
    then show ?thesis using Cons.prems step Err by (intro exI [of _ 0]) (auto simp: bindp_run gd_list_def)
  next
    case Panic
    then show ?thesis
      using step by (auto simp: tryp_def matchp_def sql_statement_def insert_member_row_def fail_def ret_def Let_def
          split: option.splits if_splits outcome.splits prod.splits)
  qed
qed

section \<open>Every operation simulates a step\<close>

lemma store_group_result:
  assumes "groups_ok c" "store_group E g c = (r, c')"
  defines "d \<equiv> gd_put (eng_foreign_keys E) (group_row g (eng_now E (statements_run c))) (group_dir_of c)"
  shows "r \<noteq> Ok () \<and> group_dir_of c' \<in> {group_dir_of c, d} \<or>
    (\<exists>n \<le> length (g_members g). (r = Ok () \<longrightarrow> n = length (g_members g)) \<and>
      group_dir_of c' = gd_list (g_external_id g) (set (take n (g_members g))) d)"
proof -
  let ?put = "sql_update E (\<lambda>n. insert_gid_row E (group_row g (eng_now E n)))"
  let ?clear = "sql_update E (\<lambda>_. delete_members_of (g_external_id g))"
  obtain v1 t1 where 1: "?put c = (v1, t1)" by (cases "?put c")
  obtain v2 t2 where 2: "?clear t1 = (v2, t2)" by (cases "?clear t1")
  have ok: "groups_ok (c\<lparr>statements_run := n\<rparr>)" for n using assms(1) by (simp add: groups_ok_def)
  from sql_update_result [OF 1] show ?thesis
  proof (elim disjE conjE exE)
    fix e assume "v1 = Err e" "t1 = c\<lparr>statements_run := Suc (statements_run c)\<rparr>"
    then have "r = Err (Sqlite e)" "c' = t1" using assms(2) 1 by (auto simp: store_group_def tryp_run)
    then show ?thesis using \<open>t1 = _\<close> by simp
  next
    assume v1: "v1 = Ok ()"
      and "t1 = insert_gid_row E (group_row g (eng_now E (statements_run c))) (c\<lparr>statements_run := Suc (statements_run c)\<rparr>)"
    then have d1: "group_dir_of t1 = d" by (simp add: group_dir_insert [OF ok] d_def)
    from sql_update_result [OF 2] show ?thesis
    proof (elim disjE conjE exE)
      fix e assume "v2 = Err e" "t2 = t1\<lparr>statements_run := Suc (statements_run t1)\<rparr>"
      then have "r = Err (Sqlite e)" "group_dir_of c' = d"
        using assms(2) 1 2 v1 d1 by (auto simp: store_group_def tryp_run)
      then show ?thesis by simp
    next
      assume v2: "v2 = Ok ()"
        and "t2 = delete_members_of (g_external_id g) (t1\<lparr>statements_run := Suc (statements_run t1)\<rparr>)"
      then have d2: "group_dir_of t2 = gd_list (g_external_id g) {} d" by (simp add: group_dir_clear d1)
      have "insert_members E (g_external_id g) (g_members g) t2 = (r, c')"
        using assms(2) 1 2 v1 v2 by (simp add: store_group_def tryp_run)
      from insert_members_result [OF this] show ?thesis by (auto simp: d2 gd_list_def)
    qed
  qed
qed

lemma purge_group_step:
  assumes "schema_ok E c" "purge_expired E ttl c = (r, c')"
  shows "group_step (eng_foreign_keys E) (PurgeExpired ttl) (group_dir_of c) (group_dir_of c')"
proof -
  obtain r1 t1 where 1: "sql_purge E ttl delete_expired_members c = (r1, t1)"
    by (cases "sql_purge E ttl delete_expired_members c")
  obtain r2 t2 where 2: "sql_purge E ttl (delete_expired_groups E) t1 = (r2, t2)"
    by (cases "sql_purge E ttl (delete_expired_groups E) t1")
  obtain r3 t3 where 3: "sql_purge E ttl delete_expired_users t2 = (r3, t3)"
    by (cases "sql_purge E ttl delete_expired_users t2")
  have users: "group_dir_of t3 = group_dir_of t2"
    using sql_purge_result [OF 3] by (auto simp: delete_expired_users_def group_dir_of_def members_of_def)
  have runs: "c' = (if r1 \<noteq> Ok () then t1 else if r2 \<noteq> Ok () then t2 else t3)"
    using assms(2) 1 2 3 unfolding purge_expired_def
    by (cases r1; cases r2; cases r3) (simp_all add: tryp_run ret_run)
  have ok: "groups_ok (c\<lparr>statements_run := n\<rparr>)" for n using assms(1) by (simp add: schema_defs)
  from sql_purge_exact [OF 1] show ?thesis
  proof (elim disjE conjE exE)
    fix n assume "r1 \<noteq> Ok ()" "t1 = c\<lparr>statements_run := n\<rparr>"
    then show ?thesis by (simp add: runs same)
  next
    fix n b assume r1: "r1 = Ok ()" and t1: "t1 = delete_expired_members b (c\<lparr>statements_run := n\<rparr>)"
    have d1: "group_dir_of t1 = gd_drop_members b (group_dir_of c)" by (simp add: t1 group_dir_drop_members [OF ok])
    have ok1: "groups_ok (t1\<lparr>statements_run := m\<rparr>)" for m
      using assms(1) by (simp add: t1 delete_expired_members_def schema_defs)
    from sql_purge_exact [OF 2] show ?thesis
    proof (elim disjE conjE exE)
      fix m assume "r2 \<noteq> Ok ()" "t2 = t1\<lparr>statements_run := m\<rparr>"
      then show ?thesis by (simp add: runs r1 d1 drop_members)
    next
      fix m b' assume r2: "r2 = Ok ()" and t2: "t2 = delete_expired_groups E b' (t1\<lparr>statements_run := m\<rparr>)"
      have "group_dir_of t2 = gd_remove (eng_foreign_keys E) (\<lambda>g. gr_cached_at g \<le> b') (gd_drop_members b (group_dir_of c))"
        by (simp add: t2 delete_expired_groups_def group_dir_remove [OF ok1] d1)
      then show ?thesis by (simp add: runs r1 r2 users drop_groups)
    qed
  qed
qed

lemma put_all: "group_step cascade (StoreGroup g) d
    (gd_list (g_external_id g) (set (g_members g)) (gd_put cascade (group_row g now) d))"
  using put_listed [of "length (g_members g)" g cascade d now] by simp

lemma same_eq: "d' = d \<Longrightarrow> group_step cascade op d d'"
  by (simp add: same)

lemma reads_groups:
  assumes "keeps (same_tables c) m"
  shows "group_dir_of (snd (m c)) = group_dir_of c"
  using assms group_dir_same_tables by (simp add: keeps_def)

lemma store_user_groups: "keeps (\<lambda>s. group_dir_of s = d) (store_user E u)"
  unfolding store_user_def
  by (intro preserved) (auto simp: insert_uid_row_def group_dir_of_def members_of_def)

lemma get_group_answers:
  assumes "groups_ok c" "get_group_by_gid E gid c = (Ok v, c')"
  shows "gd_answers (fresh_bound E c) (group_dir_of c) gid v"
proof (cases v)
  case None
  with get_group_by_gid_Ok [OF assms(2)] show ?thesis
    by (auto simp: gd_answers_def live_group_def group_entry_mem [OF assms(1)])
next
  case (Some g)
  with get_group_by_gid_Ok [OF assms(2)] obtain r where r: "live_group (fresh_bound E c) c r" "gr_gid r = gid"
    "g_external_id g = gr_external_id r" "g_name g = gr_name r" "g_gid g = gid"
    "mset (g_members g) = mset (members_of (gr_external_id r) c)" by auto
  from mset_eq_setD [OF r(6)] have "set (g_members g) = gd_roster (group_dir_of c) (gr_external_id r)"
    by (simp add: group_dir_of_def)
  with r(1-5) Some show ?thesis
    by (auto simp: gd_answers_def live_group_def group_entry_mem [OF assms(1)])
qed

text \<open>C14: Every operation of the cache, successful or not, does to the groups what the abstract directory
  allows. A store that succeeds puts the entry, takes the gid from any former holder and lists exactly
  the given members; one that fails has done nothing, only put the entry, or listed only the first
  members. A purge drops the members of expired groups and then these groups, or only the former when it
  fails in between. No other operation changes a group, and a lookup of a gid answers the live entry
  that has it with the members listed for it, or nothing when there is no such entry.\<close>

theorem cache_refines_groups:
  assumes "schema_ok E c"
  shows "group_step (eng_foreign_keys E) op (group_dir_of c) (group_dir_of (run_op E hash op c)) \<and>
    (\<forall>g c'. store_group E g c = (Ok (), c') \<longrightarrow>
      group_dir_of c' = gd_list (g_external_id g) (set (g_members g))
        (gd_put (eng_foreign_keys E) (group_row g (eng_now E (statements_run c))) (group_dir_of c))) \<and>
    (\<forall>gid v c'. get_group_by_gid E gid c = (Ok v, c') \<longrightarrow> gd_answers (fresh_bound E c) (group_dir_of c) gid v)"
proof (intro conjI allI impI)
  have ok: "groups_ok c" using assms by (simp add: schema_defs)
  show "group_step (eng_foreign_keys E) op (group_dir_of c) (group_dir_of (run_op E hash op c))"
  proof (cases op)
    case (StoreGroup g)
    obtain r c' where "store_group E g c = (r, c')" by (cases "store_group E g c")
    with store_group_result [OF ok this] show ?thesis
      unfolding StoreGroup by (auto intro: group_step.intros put_all)
  next
    case (StoreUser u)
    then show ?thesis using keepsD [OF store_user_groups refl, of E u c]
      by (cases "store_user E u c") (auto intro: same)
  next
    case (PurgeExpired ttl)
    obtain r c' where "purge_expired E ttl c = (r, c')" by (cases "purge_expired E ttl c")
    with purge_group_step [OF assms this] show ?thesis unfolding PurgeExpired by simp
  qed (auto intro!: same_eq reads_groups preserved)
  show "group_dir_of c' = gd_list (g_external_id g) (set (g_members g))
      (gd_put (eng_foreign_keys E) (group_row g (eng_now E (statements_run c))) (group_dir_of c))"
    if "store_group E g c = (Ok (), c')" for g c'
    using store_group_result [OF ok that] by auto
  show "gd_answers (fresh_bound E c) (group_dir_of c) gid v" if "get_group_by_gid E gid c = (Ok v, c')" for gid v c'
    by (rule get_group_answers [OF ok that])
qed

theorem cache_refines_groups_witness:
  "gd_roster (group_dir_of (run_op quiet_engine (\<lambda>_. 0) (StoreGroup (sample_group ''h'' 10 [''x'', ''y''])) sample_groups)) ''h'' =
     {''x'', ''y''}"
proof -
  have "fst (store_group quiet_engine (sample_group ''h'' 10 [''x'', ''y'']) sample_groups) = Ok ()" by code_simp
  then obtain c' where "store_group quiet_engine (sample_group ''h'' 10 [''x'', ''y'']) sample_groups = (Ok (), c')"
    by (cases "store_group quiet_engine (sample_group ''h'' 10 [''x'', ''y'']) sample_groups") auto
  with cache_refines_groups [OF sample_ok(2)] show ?thesis by (simp add: gd_list_def sample_group_def)
qed

end
