(* ===== verification/Cache_Tests.thy ===== *)
theory Cache_Tests
  imports Cache_Ops
begin

text \<open>
  The unit tests of \<open>src/cache.rs\<close> (\<open>#[cfg(test)] mod tests\<close>), translated as programs over the
  model, and what they check proved for every hash function, every clock and every order in which
  the database may deliver rows that the tests do not fix. An assertion that fails and an \<open>unwrap\<close>
  on an error are panics, so a test passes when it ends with \<open>Ok\<close>.
\<close>

section \<open>Tests\<close>

type_synonym test = "(cache, unit, unit) prog"

definition panicp :: "('s, 'a, 'e) prog" where
  "panicp s = (Panic, s)"

text \<open>\<open>let a = m.unwrap(); ...\<close>, the same on an option, and \<open>assert!(b); ...\<close>.\<close>

definition unwrap_in :: "('s, 'a, 'e) prog \<Rightarrow> ('a \<Rightarrow> ('s, 'b, 'f) prog) \<Rightarrow> ('s, 'b, 'f) prog" where
  "unwrap_in m f = matchp m f (\<lambda>_. panicp)"

definition some_in :: "'a option \<Rightarrow> ('a \<Rightarrow> ('s, 'b, 'f) prog) \<Rightarrow> ('s, 'b, 'f) prog" where
  "some_in x f = (case x of None \<Rightarrow> panicp | Some a \<Rightarrow> f a)"

definition check :: "bool \<Rightarrow> ('s, 'b, 'f) prog \<Rightarrow> ('s, 'b, 'f) prog" where
  "check b m = (if b then m else panicp)"

text \<open>A test of the cache starts with \<open>Cache::open_in_memory().unwrap()\<close>.\<close>

definition in_memory_test ::
  "engine \<Rightarrow> (string \<Rightarrow> (fsys, cache, sql_error) prog) \<Rightarrow> test \<Rightarrow> fsys \<Rightarrow> (unit, unit) outcome" where
  "in_memory_test E conn_open test fs =
     (case fst (open_in_memory E conn_open fs) of Ok cache \<Rightarrow> fst (test cache) | _ \<Rightarrow> Panic)"

section \<open>The tests of the cache\<close>

definition test_alice :: user where
  "test_alice = \<lparr>u_external_id = ''abc-123'', u_name = ''alice'', u_uid = 200042, u_gid = 200001,
     u_gecos = ''Alice Smith'', u_home = ''/home/alice'', u_shell = ''/bin/bash'', u_active = True\<rparr>"

definition test_user :: "string \<Rightarrow> string \<Rightarrow> u32 \<Rightarrow> user" where
  "test_user eid name uid = \<lparr>u_external_id = eid, u_name = name, u_uid = uid, u_gid = 200001,
     u_gecos = [], u_home = ''/home/'' @ name, u_shell = ''/bin/bash'', u_active = True\<rparr>"

definition round_trip_user :: "engine \<Rightarrow> test" where
  "round_trip_user E =
     unwrap_in (store_user E test_alice) (\<lambda>_.
     unwrap_in (get_user_by_uid E 200042) (\<lambda>r. some_in r (\<lambda>by_uid. check (by_uid = test_alice) (
     unwrap_in (cached_user_by_name E ''alice'') (\<lambda>r. some_in r (\<lambda>by_name. check (by_name = test_alice) (
     unwrap_in (get_user_by_uid E 999999) (\<lambda>r. check (r = None) (ret ())))))))))"

definition round_trip_group :: "engine \<Rightarrow> test" where
  "round_trip_group E =
     unwrap_in (store_group E \<lparr>g_external_id = ''grp-456'', g_name = ''engineering'', g_gid = 200010,
       g_members = [''alice'', ''bob'']\<rparr>) (\<lambda>_.
     unwrap_in (get_group_by_gid E 200010) (\<lambda>r. some_in r (\<lambda>by_gid.
       check (g_name by_gid = ''engineering'') (check (g_gid by_gid = 200010) (
       check (g_members by_gid = [''alice'', ''bob'']) (
     unwrap_in (cached_group_by_name E ''engineering'') (\<lambda>r. some_in r (\<lambda>by_name.
       check (g_gid by_name = 200010) (check (g_members by_name = [''alice'', ''bob'']) (ret ()))))))))))"

definition purge_expired_removes_old_entries :: "engine \<Rightarrow> test" where
  "purge_expired_removes_old_entries E =
     unwrap_in (store_user E test_alice) (\<lambda>_.
     unwrap_in (store_group E \<lparr>g_external_id = ''grp-456'', g_name = ''engineering'', g_gid = 200010,
       g_members = [''alice'']\<rparr>) (\<lambda>_.
     unwrap_in (purge_expired E 0) (\<lambda>_.
     unwrap_in (get_user_by_uid E 200042) (\<lambda>r. check (r = None) (
     unwrap_in (get_group_by_gid E 200010) (\<lambda>r. check (r = None) (ret ())))))))"

definition purge_expired_keeps_recent_entries :: "engine \<Rightarrow> test" where
  "purge_expired_keeps_recent_entries E =
     unwrap_in (store_user E test_alice) (\<lambda>_.
     unwrap_in (purge_expired E 86400) (\<lambda>_.
     unwrap_in (get_user_by_uid E 200042) (\<lambda>r. check (r \<noteq> None) (ret ()))))"

definition get_groups_for_member_returns_matching_groups :: "engine \<Rightarrow> test" where
  "get_groups_for_member_returns_matching_groups E =
     unwrap_in (store_group E \<lparr>g_external_id = ''grp-eng'', g_name = ''engineering'', g_gid = 200010,
       g_members = [''alice'', ''bob'']\<rparr>) (\<lambda>_.
     unwrap_in (store_group E \<lparr>g_external_id = ''grp-ops'', g_name = ''operations'', g_gid = 200020,
       g_members = [''alice'', ''carol'']\<rparr>) (\<lambda>_.
     unwrap_in (store_group E \<lparr>g_external_id = ''grp-des'', g_name = ''design'', g_gid = 200030,
       g_members = [''carol'']\<rparr>) (\<lambda>_.
     unwrap_in (get_groups_for_member E ''alice'') (\<lambda>alice_groups.
     check (sort (map g_gid alice_groups) = [200010, 200020]) (
     unwrap_in (get_groups_for_member E ''carol'') (\<lambda>carol_groups.
     check (sort (map g_gid carol_groups) = [200020, 200030]) (
     unwrap_in (get_groups_for_member E ''nobody'') (\<lambda>nobody.
     check (nobody = []) (ret ())))))))))"

definition resolve_uid_returns_same_id_for_same_external_id :: "engine \<Rightarrow> (string \<Rightarrow> u32) \<Rightarrow> test" where
  "resolve_uid_returns_same_id_for_same_external_id E hash =
     unwrap_in (resolve_uid E hash ''user-aaa'' 200000 200000) (\<lambda>uid1.
     unwrap_in (store_user E (test_user ''user-aaa'' ''aaa'' uid1)) (\<lambda>_.
     unwrap_in (resolve_uid E hash ''user-aaa'' 200000 200000) (\<lambda>uid2.
     check (uid1 = uid2) (ret ()))))"

text \<open>\<open>crate::mapping::id_to_uid\<close>, which panics by itself.\<close>

definition id_in :: "(u32, unit) outcome \<Rightarrow> (u32 \<Rightarrow> ('s, 'b, 'f) prog) \<Rightarrow> ('s, 'b, 'f) prog" where
  "id_in x f = (case x of Ok u \<Rightarrow> f u | _ \<Rightarrow> panicp)"

definition resolve_uid_linear_probes_on_collision :: "engine \<Rightarrow> (string \<Rightarrow> u32) \<Rightarrow> test" where
  "resolve_uid_linear_probes_on_collision E hash =
     unwrap_in (resolve_uid E hash ''user-aaa'' 200000 200000) (\<lambda>uid_aaa.
     unwrap_in (store_user E (test_user ''user-aaa'' ''aaa'' uid_aaa)) (\<lambda>_.
     id_in (id_to_uid hash ''user-bbb'' 200000 200000) (\<lambda>natural_bbb.
     unwrap_in (store_user E (test_user ''blocker'' ''blocker'' natural_bbb)) (\<lambda>_.
     unwrap_in (resolve_uid E hash ''user-bbb'' 200000 200000) (\<lambda>uid_bbb.
     check (uid_bbb \<noteq> natural_bbb) (
     check (200000 \<le> uid_bbb \<and> uid_bbb < 400000) (ret ())))))))"

definition test_group :: "string \<Rightarrow> string \<Rightarrow> u32 \<Rightarrow> group" where
  "test_group eid name gid = \<lparr>g_external_id = eid, g_name = name, g_gid = gid, g_members = []\<rparr>"

definition resolve_gid_handles_collision :: "engine \<Rightarrow> (string \<Rightarrow> u32) \<Rightarrow> test" where
  "resolve_gid_handles_collision E hash =
     unwrap_in (resolve_gid E hash ''group-a'' 300000 100) (\<lambda>gid_a.
     unwrap_in (store_group E (test_group ''group-a'' ''alpha'' gid_a)) (\<lambda>_.
     id_in (id_to_uid hash ''group-b'' 300000 100) (\<lambda>natural_b.
     unwrap_in (if natural_b \<noteq> gid_a then store_group E (test_group ''blocker'' ''blocker'' natural_b) else ret ()) (\<lambda>_.
     unwrap_in (resolve_gid E hash ''group-b'' 300000 100) (\<lambda>gid_b.
     check (gid_b \<noteq> natural_b) (
     check (300000 \<le> gid_b \<and> gid_b < 300100) (ret ())))))))"

section \<open>What a test may rely on\<close>

text \<open>
  No statement fails, the clock does not go back and the whole test takes less than an hour, and the
  members of a group come in the order they were inserted.
\<close>

definition test_engine :: "engine \<Rightarrow> bool" where
  "test_engine E \<longleftrightarrow> (\<forall>n. eng_fault E n = None) \<and>
     (\<forall>m n. m \<le> n \<longrightarrow> eng_now E m \<le> eng_now E n \<and> eng_now E n < eng_now E m + 3600) \<and>
     (\<forall>n m. eng_member_rank E n m = 0)"

definition fresh_db :: "cache \<Rightarrow> bool" where
  "fresh_db c \<longleftrightarrow> uid_cache c = [] \<and> gid_cache c = [] \<and> group_members c = [] \<and> cache_ttl c = 3600"

lemma test_engine_simps:
  assumes "test_engine E"
  shows "eng_fault E n = None" "m \<le> n \<Longrightarrow> eng_now E n < eng_now E m + 3600" "m \<le> n \<Longrightarrow> eng_now E n - 3600 < eng_now E m"
    "m \<le> n \<Longrightarrow> \<not> eng_now E n < eng_now E m" "m \<le> n \<Longrightarrow> \<not> eng_now E m \<le> eng_now E n - 86400"
    "m \<le> n \<Longrightarrow> eng_now E m \<le> eng_now E n" "eng_member_rank E n = (\<lambda>_. 0)"
  using assms by (fastforce simp: test_engine_def fun_eq_iff)+

lemmas test_ops = store_user_def get_user_by_uid_def cached_user_by_name_def store_group_def get_group_by_gid_def
  cached_group_by_name_def group_of_row_def get_group_members_def purge_expired_def
  sql_select_def sql_select_fresh_def sql_update_def sql_purge_def sql_statement_def u64_to_sql_def
  insert_uid_row_def insert_gid_row_def delete_gid_rows_def insert_member_row_def delete_members_of_def
  delete_expired_members_def delete_expired_groups_def delete_expired_users_def
  tryp_def bindp_def matchp_def ret_def fail_def first_row_def row_of_user_def user_of_row_def

lemma unwrap_run: "m s = (Ok a, s') \<Longrightarrow> unwrap_in m f s = f a s'"
  by (simp add: unwrap_in_def matchp_def)

lemmas test_defs = unwrap_in_def some_in_def check_def panicp_def

lemma round_trip_user_passes:
  assumes "test_engine E" "fresh_db c"
  shows "fst (round_trip_user E c) = Ok ()"
  using assms(2) test_engine_simps [OF assms(1)]
  by (simp add: round_trip_user_def test_defs test_ops fresh_db_def Let_def test_alice_def)

lemma round_trip_group_passes:
  assumes "test_engine E" "fresh_db c"
  shows "fst (round_trip_group E c) = Ok ()"
  using assms(2) test_engine_simps [OF assms(1)]
  by (simp add: round_trip_group_def test_defs test_ops fresh_db_def Let_def)

lemma purge_removes_passes:
  assumes "test_engine E" "fresh_db c"
  shows "fst (purge_expired_removes_old_entries E c) = Ok ()"
  using assms(2) test_engine_simps [OF assms(1)]
  by (simp add: purge_expired_removes_old_entries_def test_defs test_ops fresh_db_def Let_def test_alice_def)

lemma purge_keeps_passes:
  assumes "test_engine E" "fresh_db c"
  shows "fst (purge_expired_keeps_recent_entries E c) = Ok ()"
  using assms(2) test_engine_simps [OF assms(1)]
  by (simp add: purge_expired_keeps_recent_entries_def test_defs test_ops fresh_db_def Let_def test_alice_def)

section \<open>Resolution with room\<close>

text \<open>With fewer rows than ids in the range a resolution succeeds.\<close>

lemma resolve_uid_with_room:
  assumes "schema_ok E c" "range_ok lo rs" "\<forall>n. eng_fault E n = None" "length (uid_cache c) < unat rs"
  obtains u t where "resolve_uid E hash eid lo rs c = (Ok u, t)" "in_range lo rs u"
    "user_owner c u \<in> {None, Some eid}" "same_tables c t"
proof -
  obtain u where "in_range lo rs u" "u \<notin> set (map ur_uid (uid_cache c))"
    using id_left [of lo rs "map ur_uid (uid_cache c)"] assms(2,4) by (auto simp: range_ok_def)
  then have "in_range lo rs u" "user_owner c u = None" by (auto simp: user_owner_def find_None_iff)
  from uid_slots.resolve_id_finds [OF assms(1) uid_owner_answers [OF assms(3)] assms(2) owner_not_exhausted(1) this]
  obtain v t where v: "resolve_uid E hash eid lo rs c = (Ok v, t)" "in_range lo rs v" "user_owner c v \<in> {None, Some eid}"
    unfolding resolve_uid_def by blast
  have "same_tables c t" by (rule keepsD [OF resolve_uid_reads _ v(1)]) simp
  with v show thesis by (rule that)
qed

lemma resolve_gid_with_room:
  assumes "schema_ok E c" "range_ok lo rs" "\<forall>n. eng_fault E n = None" "length (gid_cache c) < unat rs"
  obtains u t where "resolve_gid E hash eid lo rs c = (Ok u, t)" "in_range lo rs u"
    "group_owner c u \<in> {None, Some eid}" "same_tables c t"
proof -
  obtain u where "in_range lo rs u" "u \<notin> set (map gr_gid (gid_cache c))"
    using id_left [of lo rs "map gr_gid (gid_cache c)"] assms(2,4) by (auto simp: range_ok_def)
  then have free: "in_range lo rs u" "group_owner c u = None" by (auto simp: group_owner_def find_None_iff)
  have "\<exists>v t'. gid_owner E c eid t = (Ok v, t')" for c t
    using assms(3) by (auto simp: gid_owner_def prog_inv)
  from gid_slots.resolve_id_finds [OF assms(1) this assms(2) owner_not_exhausted(2) free]
  obtain v t where v: "resolve_gid E hash eid lo rs c = (Ok v, t)" "in_range lo rs v" "group_owner c v \<in> {None, Some eid}"
    unfolding resolve_gid_def by blast
  have "same_tables c t" by (rule keepsD [OF resolve_gid_reads _ v(1)]) simp
  with v show thesis by (rule that)
qed

section \<open>The tests of the resolution\<close>

lemma test_faults: "test_engine E \<Longrightarrow> \<forall>n. eng_fault E n = None"
  by (simp add: test_engine_def)

lemma fresh_schema: "fresh_db c \<Longrightarrow> schema_ok E c"
  by (simp add: fresh_db_def schema_defs)

text \<open>A user stored under a resolved uid: what the table then is.\<close>

lemma store_user_step:
  assumes "\<forall>n. eng_fault E n = None" "schema_ok E c"
  obtains c' where "store_user E u c = (Ok (), c')" "schema_ok E c'"
    "length (uid_cache c') \<le> Suc (length (uid_cache c))" "user_owner c' (u_uid u) = Some (u_external_id u)"
proof -
  obtain c' where c': "store_user E u c = (Ok (), c')"
    "c' = insert_uid_row (row_of_user u (eng_now E (statements_run c))) (c\<lparr>statements_run := Suc (statements_run c)\<rparr>)"
    using assms(1) by (simp add: store_user_Ok)
  have "schema_ok E c'" by (rule keepsD [OF store_user_schema assms(2) c'(1)])
  moreover have "length (uid_cache c') \<le> Suc (length (uid_cache c))" by (simp add: c'(2) insert_uid_row_def)
  moreover have "user_owner c' (u_uid u) = Some (u_external_id u)"
    using uid_table.store_Ok [OF assms(2) c'(1)] by (simp add: assign_owner_def)
  ultimately show thesis using that c'(1) by blast
qed

lemma store_group_step:
  assumes "\<forall>n. eng_fault E n = None" "schema_ok E c" "g_members g = []"
  obtains c' where "store_group E g c = (Ok (), c')" "schema_ok E c'"
    "length (gid_cache c') \<le> Suc (length (gid_cache c))" "group_owner c' (g_gid g) = Some (g_external_id g)"
proof -
  obtain c' where c': "store_group E g c = (Ok (), c')"
    using assms(1,3) by (simp add: store_group_def tryp_def matchp_def sql_update_def sql_statement_def Let_def ret_def)
  have "schema_ok E c'" by (rule keepsD [OF store_group_schema assms(2) c'])
  moreover have "length (gid_cache c') \<le> Suc (length (gid_cache c))" using store_group_Ok [OF c'] by simp
  moreover have "group_owner c' (g_gid g) = Some (g_external_id g)"
    using gid_table.store_Ok [OF assms(2) c'] by (simp add: assign_owner_def)
  ultimately show thesis using that c' by blast
qed

lemma same_tables_schema: "same_tables c t \<Longrightarrow> schema_ok E c \<Longrightarrow> schema_ok E t"
  using same_tables_views by blast

lemma same_id_passes:
  assumes "test_engine E" "fresh_db c"
  shows "fst (resolve_uid_returns_same_id_for_same_external_id E hash c) = Ok ()"
proof -
  note quiet = test_faults [OF assms(1)]
  have range: "range_ok 200000 200000" by (simp add: range_ok_def)
  have room: "length (uid_cache c) < unat (200000 :: u32)" using assms(2) by (simp add: fresh_db_def)
  obtain u t where u: "resolve_uid E hash ''user-aaa'' 200000 200000 c = (Ok u, t)" "same_tables c t"
    by (rule resolve_uid_with_room [OF fresh_schema [OF assms(2)] range quiet room])
  have t: "schema_ok E t" "uid_cache t = []"
    using same_tables_schema [OF u(2) fresh_schema] assms(2) u(2) by (simp_all add: fresh_db_def same_tables_def)
  obtain c1 where c1: "store_user E (test_user ''user-aaa'' ''aaa'' u) t = (Ok (), c1)" "schema_ok E c1"
    "length (uid_cache c1) \<le> Suc (length (uid_cache t))"
    by (rule store_user_step [OF quiet t(1)])
  have room: "length (uid_cache c1) < unat (200000 :: u32)" using c1(3) t(2) by simp
  obtain v t1 where v: "resolve_uid E hash ''user-aaa'' 200000 200000 c1 = (Ok v, t1)"
    by (rule resolve_uid_with_room [OF c1(2) range quiet room])
  have "v = u"
    using resolve_uid_stable [where u = "test_user ''user-aaa'' ''aaa'' u", OF fresh_schema [OF assms(2)] _ c1(1), of hash 200000 200000 v t1]
      u(1) v by (simp add: test_user_def)
  then show ?thesis
    using u(1) c1(1) v
    by (simp add: resolve_uid_returns_same_id_for_same_external_id_def unwrap_in_def matchp_def check_def ret_def)
qed

lemma linear_probes_passes:
  assumes "test_engine E" "fresh_db c"
  shows "fst (resolve_uid_linear_probes_on_collision E hash c) = Ok ()"
proof -
  note quiet = test_faults [OF assms(1)]
  have range: "range_ok 200000 200000" by (simp add: range_ok_def)
  have room: "length (uid_cache c) < unat (200000 :: u32)" using assms(2) by (simp add: fresh_db_def)
  obtain u t where u: "resolve_uid E hash ''user-aaa'' 200000 200000 c = (Ok u, t)" "same_tables c t"
    by (rule resolve_uid_with_room [OF fresh_schema [OF assms(2)] range quiet room])
  have t: "schema_ok E t" "uid_cache t = []"
    using same_tables_schema [OF u(2) fresh_schema] assms(2) u(2) by (simp_all add: fresh_db_def same_tables_def)
  obtain c1 where c1: "store_user E (test_user ''user-aaa'' ''aaa'' u) t = (Ok (), c1)" "schema_ok E c1"
    "length (uid_cache c1) \<le> Suc (length (uid_cache t))"
    by (rule store_user_step [OF quiet t(1)])
  define natural where "natural = (200000 :: u32) + hash ''user-bbb'' mod 200000"
  obtain c2 where c2: "store_user E (test_user ''blocker'' ''blocker'' natural) c1 = (Ok (), c2)" "schema_ok E c2"
    "length (uid_cache c2) \<le> Suc (length (uid_cache c1))" "user_owner c2 natural = Some ''blocker''"
    by (rule store_user_step [OF quiet c1(2), of "test_user ''blocker'' ''blocker'' natural"]) (simp add: test_user_def)
  have room: "length (uid_cache c2) < unat (200000 :: u32)" using c1(3) c2(3) t(2) by simp
  obtain v t2 where v: "resolve_uid E hash ''user-bbb'' 200000 200000 c2 = (Ok v, t2)" "in_range 200000 200000 v"
    "user_owner c2 v \<in> {None, Some ''user-bbb''}"
    by (rule resolve_uid_with_room [OF c2(2) range quiet room])
  have "v \<noteq> natural" using v(3) c2(4) by auto
  moreover have "200000 \<le> v \<and> v < 400000" using v(2) by (simp add: in_range_def word_le_nat_alt word_less_nat_alt)
  ultimately show ?thesis
    using u(1) c1(1) c2(1) v(1)
    by (simp add: resolve_uid_linear_probes_on_collision_def unwrap_in_def matchp_def check_def ret_def id_in_def
        id_to_uid_def natural_def)
qed

lemma gid_collision_passes:
  assumes "test_engine E" "fresh_db c"
  shows "fst (resolve_gid_handles_collision E hash c) = Ok ()"
proof -
  note quiet = test_faults [OF assms(1)]
  have range: "range_ok 300000 100" by (simp add: range_ok_def)
  have room: "length (gid_cache c) < unat (100 :: u32)" using assms(2) by (simp add: fresh_db_def)
  obtain u t where u: "resolve_gid E hash ''group-a'' 300000 100 c = (Ok u, t)" "same_tables c t"
    by (rule resolve_gid_with_room [OF fresh_schema [OF assms(2)] range quiet room])
  have t: "schema_ok E t" "gid_cache t = []"
    using same_tables_schema [OF u(2) fresh_schema] assms(2) u(2) by (simp_all add: fresh_db_def same_tables_def)
  obtain c1 where c1: "store_group E (test_group ''group-a'' ''alpha'' u) t = (Ok (), c1)" "schema_ok E c1"
    "length (gid_cache c1) \<le> Suc (length (gid_cache t))" "group_owner c1 u = Some ''group-a''"
    by (rule store_group_step [OF quiet t(1), of "test_group ''group-a'' ''alpha'' u"]) (simp_all add: test_group_def)
  define natural where "natural = (300000 :: u32) + hash ''group-b'' mod 100"
  let ?block = "if natural \<noteq> u then store_group E (test_group ''blocker'' ''blocker'' natural) else ret ()"
  obtain c2 where c2: "?block c1 = (Ok (), c2)" "schema_ok E c2" "length (gid_cache c2) \<le> 2"
    "group_owner c2 natural \<noteq> None" "group_owner c2 natural \<noteq> Some ''group-b''"
  proof (cases "natural = u")
    case True
    then show thesis using that [of c1] c1 t(2) by (simp add: ret_def)
  next
    case False
    obtain c2 where "store_group E (test_group ''blocker'' ''blocker'' natural) c1 = (Ok (), c2)" "schema_ok E c2"
      "length (gid_cache c2) \<le> Suc (length (gid_cache c1))" "group_owner c2 natural = Some ''blocker''"
      by (rule store_group_step [OF quiet c1(2), of "test_group ''blocker'' ''blocker'' natural"])
        (simp_all add: test_group_def)
    with False show thesis using that [of c2] c1(3) t(2) by simp
  qed
  have room: "length (gid_cache c2) < unat (100 :: u32)" using c2(3) by simp
  obtain v t2 where v: "resolve_gid E hash ''group-b'' 300000 100 c2 = (Ok v, t2)" "in_range 300000 100 v"
    "group_owner c2 v \<in> {None, Some ''group-b''}"
    by (rule resolve_gid_with_room [OF c2(2) range quiet room])
  have "v \<noteq> natural" using v(3) c2(4,5) by auto
  moreover have "300000 \<le> v \<and> v < 300100" using v(2) by (simp add: in_range_def word_le_nat_alt word_less_nat_alt)
  moreover have "(id_to_uid hash ''group-b'' 300000 100 :: (u32, unit) outcome) = Ok natural" by (simp add: id_to_uid_def natural_def)
  ultimately show ?thesis
    using u(1) c1(1) c2(1) v(1)
    by (cases "natural = u")
      (simp_all add: resolve_gid_handles_collision_def unwrap_in_def matchp_def check_def ret_def id_in_def)
qed

section \<open>The groups of a member\<close>

abbreviation stored_group :: "engine \<Rightarrow> group \<Rightarrow> cache \<Rightarrow> cache" where
  "stored_group E g c \<equiv> c\<lparr>
     gid_cache := gid_cache c @ [\<lparr>gr_external_id = g_external_id g, gr_name = g_name g, gr_gid = g_gid g,
       gr_cached_at = eng_now E (statements_run c)\<rparr>],
     group_members := group_members c @ map (member_row.make (g_external_id g)) (g_members g),
     statements_run := statements_run c + 2 + length (g_members g)\<rparr>"

lemma store_new_group:
  assumes "\<forall>n. eng_fault E n = None" "distinct (g_members g)"
    and "\<forall>r \<in> set (gid_cache c). gr_external_id r \<noteq> g_external_id g \<and> gr_gid r \<noteq> g_gid g"
    and "\<forall>m \<in> set (group_members c). mr_group_external_id m \<noteq> g_external_id g"
  shows "store_group E g c = (Ok (), stored_group E g c)"
proof -
  define c2 where "c2 = c\<lparr>gid_cache := gid_cache c @ [\<lparr>gr_external_id = g_external_id g, gr_name = g_name g,
    gr_gid = g_gid g, gr_cached_at = eng_now E (statements_run c)\<rparr>], statements_run := statements_run c + 2\<rparr>"
  have groups: "filter (\<lambda>x. \<not> (gr_external_id x = g_external_id g \<or> gr_gid x = g_gid g)) (gid_cache c) = gid_cache c"
    using assms(3) by (simp add: filter_id_conv)
  have members: "filter (\<lambda>m. mr_group_external_id m \<noteq> g_external_id g) (group_members c) = group_members c"
    "filter (\<lambda>m. \<forall>x \<in> set (gid_cache c). (gr_external_id x = g_external_id g \<or> gr_gid x = g_gid g) \<longrightarrow>
       mr_group_external_id m \<noteq> gr_external_id x) (group_members c) = group_members c"
    using assms(3,4) by (auto simp: filter_id_conv)
  have "store_group E g c = insert_members E (g_external_id g) (g_members g) c2"
    using assms(1) groups members
    by (simp add: store_group_def tryp_def matchp_def sql_update_def sql_statement_def Let_def insert_gid_row_def
        delete_gid_rows_def delete_members_of_def c2_def)
  moreover have "insert_members E (g_external_id g) (g_members g) c2 = (Ok (), stored_group E g c)"
    using assms(2,4) insert_members_run [OF assms(1), of "g_external_id g" c2 "g_members g"]
    by (simp add: c2_def members_of_def filter_empty_conv)
  ultimately show ?thesis by simp
qed

lemma groups_for_member_passes:
  assumes "test_engine E" "fresh_db c"
  shows "fst (get_groups_for_member_returns_matching_groups E c) = Ok ()"
proof -
  note quiet = test_faults [OF assms(1)]
  let ?eng = "\<lparr>g_external_id = ''grp-eng'', g_name = ''engineering'', g_gid = 200010, g_members = [''alice'', ''bob'']\<rparr>"
  let ?ops = "\<lparr>g_external_id = ''grp-ops'', g_name = ''operations'', g_gid = 200020, g_members = [''alice'', ''carol'']\<rparr>"
  let ?des = "\<lparr>g_external_id = ''grp-des'', g_name = ''design'', g_gid = 200030, g_members = [''carol'']\<rparr>"
  define c3 where "c3 = stored_group E ?des (stored_group E ?ops (stored_group E ?eng c))"
  have stores: "store_group E ?eng c = (Ok (), stored_group E ?eng c)"
    "store_group E ?ops (stored_group E ?eng c) = (Ok (), stored_group E ?ops (stored_group E ?eng c))"
    "store_group E ?des (stored_group E ?ops (stored_group E ?eng c)) = (Ok (), c3)"
    using assms(2) unfolding c3_def
    by (intro store_new_group [OF quiet]; simp add: fresh_db_def member_row.make_def)+
  have "fst (unwrap_in (get_groups_for_member E ''alice'') (\<lambda>alice_groups.
     check (sort (map g_gid alice_groups) = [200010, 200020]) (
     unwrap_in (get_groups_for_member E ''carol'') (\<lambda>carol_groups.
     check (sort (map g_gid carol_groups) = [200020, 200030]) (
     unwrap_in (get_groups_for_member E ''nobody'') (\<lambda>nobody.
     check (nobody = []) (ret ())))))) c3) = (Ok () :: (unit, unit) outcome)"
    using assms(2) test_engine_simps [OF assms(1)]
    by (simp add: get_groups_for_member_def test_defs test_ops fresh_db_def Let_def c3_def member_row.make_def)
  then show ?thesis
    unfolding get_groups_for_member_returns_matching_groups_def
    unfolding unwrap_run [where m = "store_group E ?eng" and s = c, OF stores(1)]
      unwrap_run [where m = "store_group E ?ops" and s = "stored_group E ?eng c", OF stores(2)]
      unwrap_run [where m = "store_group E ?des" and s = "stored_group E ?ops (stored_group E ?eng c)", OF stores(3)] .
qed

section \<open>The indexes\<close>

text \<open>The query on \<open>sqlite_master\<close>; the indexes SQLite makes for keys have names of another form.\<close>

definition select_index_names :: "engine \<Rightarrow> (cache, string list, sql_error) prog" where
  "select_index_names E = sql_select E (\<lambda>n c. sort_key (eng_name_rank E n) (filter like_idx (index_names c)))"

definition indexes_exist_after_open :: "engine \<Rightarrow> test" where
  "indexes_exist_after_open E =
     unwrap_in (select_index_names E) (\<lambda>indexes.
       check (''idx_uid_cache_login'' \<in> set indexes) (
       check (''idx_gid_cache_name'' \<in> set indexes) (
       check (''idx_group_members_member_name'' \<in> set indexes) (ret ()))))"

definition indexed :: "cache \<Rightarrow> bool" where
  "indexed c \<longleftrightarrow> {''idx_uid_cache_login'', ''idx_gid_cache_name'', ''idx_group_members_member_name''} \<subseteq> set (index_names c)"

lemma indexes_exist_passes:
  assumes "test_engine E" "indexed c"
  shows "fst (indexes_exist_after_open E c) = Ok ()"
  using assms(2) test_engine_simps(1) [OF assms(1)]
  by (simp add: indexes_exist_after_open_def select_index_names_def unwrap_in_def matchp_def sql_select_def
      sql_statement_def Let_def check_def ret_def indexed_def)

section \<open>Every test on its own database\<close>

lemma open_in_memory_fresh:
  assumes "test_engine E" "conn_open '':memory:'' fs = (Ok c, fs)"
    and "uid_cache c = []" "gid_cache c = []" "group_members c = []"
  obtains c' where "open_in_memory E conn_open fs = (Ok c', fs)" "fresh_db c'" "indexed c'"
proof -
  have "\<exists>c'. open_in_memory E conn_open fs = (Ok c', fs) \<and> fresh_db c' \<and> indexed c'"
    using assms(2-5) test_engine_simps(1) [OF assms(1)]
    by (simp add: open_in_memory_def cache_open_def tryp_def bindp_def matchp_def localp_def ret_def
        sql_update_def sql_statement_def Let_def fresh_db_def indexed_def create_schema_def)
  then show thesis using that by blast
qed

definition cache_tests :: "engine \<Rightarrow> (string \<Rightarrow> u32) \<Rightarrow> test list" where
  "cache_tests E hash =
     [round_trip_user E, round_trip_group E, purge_expired_removes_old_entries E,
      resolve_uid_returns_same_id_for_same_external_id E hash, resolve_uid_linear_probes_on_collision E hash,
      resolve_gid_handles_collision E hash, get_groups_for_member_returns_matching_groups E,
      purge_expired_keeps_recent_entries E, indexes_exist_after_open E]"

definition still_engine :: engine where
  "still_engine = quiet_engine\<lparr>eng_now := \<lambda>_. 1000\<rparr>"

definition bare_fs :: fsys where
  "bare_fs = \<lparr>fs_stat = (\<lambda>_. Err (IoError 2)), fs_text = (\<lambda>_. Err (IoError 2)), fs_chmod_error = (\<lambda>_. None), fs_euid = 0\<rparr>"

text \<open>Every unit test of the cache passes on a new in-memory database, whatever the hash function
  is and whatever the clock shows, as long as no statement fails and the test takes less than an hour:
  stored rows are read back, a purge takes exactly the expired rows, a taken id is probed past, and
  the groups of a member are the ones that list it; and the three indexes exist.\<close>

theorem cache_tests_pass:
  assumes "test_engine E" "conn_open '':memory:'' fs = (Ok c, fs)"
    and "uid_cache c = []" "gid_cache c = []" "group_members c = []"
    and "t \<in> set (cache_tests E hash)"
  shows "in_memory_test E conn_open t fs = Ok ()"
proof -
  obtain c' where c': "open_in_memory E conn_open fs = (Ok c', fs)" "fresh_db c'" "indexed c'"
    by (rule open_in_memory_fresh [where c = c and conn_open = conn_open and fs = fs, OF assms(1-5)])
  from assms(6) have "fst (t c') = Ok ()"
    unfolding cache_tests_def
    by (auto simp only: list.set insert_iff empty_iff
        intro: round_trip_user_passes [OF assms(1) c'(2)] round_trip_group_passes [OF assms(1) c'(2)]
          purge_removes_passes [OF assms(1) c'(2)] purge_keeps_passes [OF assms(1) c'(2)]
          same_id_passes [OF assms(1) c'(2)] linear_probes_passes [OF assms(1) c'(2)]
          gid_collision_passes [OF assms(1) c'(2)] groups_for_member_passes [OF assms(1) c'(2)]
          indexes_exist_passes [OF assms(1) c'(3)])
  then show ?thesis by (simp add: in_memory_test_def c'(1))
qed

theorem cache_tests_pass_witness:
  "in_memory_test still_engine (\<lambda>_ fs. (Ok (sample_cache\<lparr>uid_cache := [], gid_cache := [], group_members := []\<rparr>), fs))
     (resolve_uid_linear_probes_on_collision still_engine (\<lambda>_. 7)) bare_fs = Ok ()"
  by (rule cache_tests_pass [where c = "sample_cache\<lparr>uid_cache := [], gid_cache := [], group_members := []\<rparr>" and hash = "\<lambda>_. 7"])
    (simp_all add: test_engine_def still_engine_def quiet_engine_def cache_tests_def)

end
