(* ===== verification/Unit_Tests.thy ===== *)
theory Unit_Tests
  imports Cache_Tests Scim_Laws Nss_Buffer Config Oidc "HOL-Library.Sublist"
begin

text \<open>
  The unit tests of \<open>src/mapping.rs\<close>, \<open>src/scim.rs\<close>, \<open>crates/nss_oidc/src/passwd.rs\<close>,
  \<open>src/config.rs\<close> and \<open>src/oidc.rs\<close>, and the texts of the errors two of them look at. What a test
  leaves to its environment (the hash, the address of a buffer, the paths of temporary files, the
  parsers, base64) is a parameter, and the test passes for every choice of it that behaves as documented.
\<close>

section \<open>Mapping\<close>

definition deterministic_mapping :: "(string \<Rightarrow> u32) \<Rightarrow> ('s, unit, unit) prog" where
  "deterministic_mapping hash =
     id_in (id_to_uid hash ''00u1a2b3c4d5e6f7g8h9'' 200000 200000) (\<lambda>uid1.
     id_in (id_to_uid hash ''00u1a2b3c4d5e6f7g8h9'' 200000 200000) (\<lambda>uid2.
     check (uid1 = uid2) (ret ())))"

definition within_range :: "(string \<Rightarrow> u32) \<Rightarrow> ('s, unit, unit) prog" where
  "within_range hash =
     id_in (id_to_uid hash ''some-uuid-value'' 200000 200000) (\<lambda>uid.
     check (200000 \<le> uid) (check (uid < 400000) (ret ())))"

definition different_ids_differ :: "(string \<Rightarrow> u32) \<Rightarrow> ('s, unit, unit) prog" where
  "different_ids_differ hash =
     id_in (id_to_uid hash ''user-a-uuid'' 200000 200000) (\<lambda>uid_a.
     id_in (id_to_uid hash ''user-b-uuid'' 200000 200000) (\<lambda>uid_b.
     check (uid_a \<noteq> uid_b) (ret ())))"

text \<open>The table \<open>taken\<close>, a \<open>HashMap\<close>, and the closure that looks into it.\<close>

type_synonym taken = "u32 \<Rightarrow> string option"

definition taken_slot :: "string \<Rightarrow> u32 \<Rightarrow> (taken, bool option, unit) prog" where
  "taken_slot external_id uid taken =
     (Ok (case taken uid of None \<Rightarrow> None | Some eid \<Rightarrow> Some (eid = external_id)), taken)"

definition taken_insert :: "u32 \<Rightarrow> string \<Rightarrow> (taken, unit, unit) prog" where
  "taken_insert uid eid taken = (Ok (), taken(uid \<mapsto> eid))"

definition taken_or_insert :: "u32 \<Rightarrow> string \<Rightarrow> (taken, unit, unit) prog" where
  "taken_or_insert uid eid taken = (Ok (), case taken uid of None \<Rightarrow> taken(uid \<mapsto> eid) | Some _ \<Rightarrow> taken)"

definition resolve_id_probes_on_collision :: "(string \<Rightarrow> u32) \<Rightarrow> (taken, unit, unit) prog" where
  "resolve_id_probes_on_collision hash =
     unwrap_in (resolve_id hash () ''user-a'' 100 10 (taken_slot ''user-a'')) (\<lambda>uid_a.
     unwrap_in (taken_insert uid_a ''user-a'') (\<lambda>_.
     id_in (id_to_uid hash ''user-b'' 100 10) (\<lambda>natural_b.
     unwrap_in (taken_or_insert natural_b ''blocker'') (\<lambda>_.
     unwrap_in (resolve_id hash () ''user-b'' 100 10 (taken_slot ''user-b'')) (\<lambda>uid_b.
     check (uid_b \<noteq> natural_b) (check (100 \<le> uid_b \<and> uid_b < 110) (ret ())))))))"

definition resolve_id_returns_range_exhausted :: "(string \<Rightarrow> u32) \<Rightarrow> (unit, unit, unit) prog" where
  "resolve_id_returns_range_exhausted hash =
     matchp (resolve_id hash () ''new-user'' 100 3 (\<lambda>_. ret (Some False))) (\<lambda>_. panicp) (\<lambda>_. ret ())"

lemma deterministic_passes: "fst (deterministic_mapping hash s) = Ok ()"
  by (simp add: deterministic_mapping_def id_in_def id_to_uid_def check_def ret_def)

lemma within_range_passes: "fst (within_range hash s) = Ok ()"
proof -
  have "in_range 200000 200000 (200000 + hash ''some-uuid-value'' mod 200000)"
    by (rule id_to_uid_in_range [where hash = hash and eid = "''some-uuid-value''"]) (simp_all add: id_to_uid_def)
  then have "(200000 :: u32) \<le> 200000 + hash ''some-uuid-value'' mod 200000"
    "200000 + hash ''some-uuid-value'' mod 200000 < (400000 :: u32)"
    by (simp_all add: in_range_def word_le_nat_alt word_less_nat_alt)
  then show ?thesis by (simp add: within_range_def id_in_def id_to_uid_def check_def ret_def)
qed

text \<open>As its comment says, this test is a statement about the hash: it needs two residues that differ.\<close>

lemma different_ids_passes:
  "fst (different_ids_differ hash s) =
     (if hash ''user-a-uuid'' mod 200000 = hash ''user-b-uuid'' mod 200000 then Panic else Ok ())"
  by (simp add: different_ids_differ_def id_in_def id_to_uid_def check_def panicp_def ret_def)

interpretation taken_slots: slot_table taken_slot "\<lambda>taken. taken" "\<lambda>_. True"
  by unfold_locales (auto simp: taken_slot_def split: option.splits)

lemma taken_slot_answers: "\<exists>v t'. taken_slot eid c t = (Ok v, t')"
  by (simp add: taken_slot_def)

lemma taken_resolves:
  assumes "length us < 10" "dom taken \<subseteq> set us"
  obtains v where "resolve_id hash () eid 100 10 (taken_slot eid) taken = (Ok v, taken)"
    "in_range 100 10 v" "taken v \<in> {None, Some eid}"
proof -
  have range: "range_ok 100 10" by (simp add: range_ok_def)
  obtain u where u: "in_range 100 10 u" "u \<notin> set us"
    using id_left [of 100 10 us] assms(1) by auto
  have free: "taken u = None" using u(2) assms(2) by auto
  have "fst (taken_slot eid c t) \<noteq> Err ()" for c t by (simp add: taken_slot_def)
  from taken_slots.resolve_id_finds [where s = taken and eid = eid and ex = "()" and hash = hash, OF TrueI taken_slot_answers range this u(1) free]
  obtain v t where v: "resolve_id hash () eid 100 10 (taken_slot eid) taken = (Ok v, t)"
    "in_range 100 10 v" "taken v \<in> {None, Some eid}" by blast
  have "t = taken" using taken_slots.resolve_id_keeps [where s = taken, OF TrueI v(1)] by simp
  with v show thesis by (intro that [of v]) simp_all
qed

lemma probes_on_collision_passes: "fst (resolve_id_probes_on_collision hash Map.empty) = Ok ()"
proof -
  obtain a where a: "resolve_id hash () ''user-a'' 100 10 (taken_slot ''user-a'') Map.empty = (Ok a, Map.empty)"
    by (rule taken_resolves [of "[]" Map.empty]) simp_all
  define natural where "natural = (100 :: u32) + hash ''user-b'' mod 10"
  define t where "t = (case [a \<mapsto> ''user-a''] natural of None \<Rightarrow> [a \<mapsto> ''user-a'', natural \<mapsto> ''blocker''] | Some _ \<Rightarrow> [a \<mapsto> ''user-a''])"
  have t: "dom t \<subseteq> set [a, natural]" "t natural \<notin> {None, Some ''user-b''}"
    by (auto simp: t_def split: if_splits)
  obtain v where v: "resolve_id hash () ''user-b'' 100 10 (taken_slot ''user-b'') t = (Ok v, t)"
    "in_range 100 10 v" "t v \<in> {None, Some ''user-b''}"
    by (rule taken_resolves [OF _ t(1)]) simp_all
  have "v \<noteq> natural" using v(3) t(2) by auto
  moreover have "100 \<le> v \<and> v < 110" using v(2) by (simp add: in_range_def word_le_nat_alt word_less_nat_alt)
  moreover have "(id_to_uid hash ''user-b'' 100 10 :: (u32, unit) outcome) = Ok natural"
    by (simp add: id_to_uid_def natural_def)
  ultimately show ?thesis
    using a v(1) unfolding t_def
    by (simp add: resolve_id_probes_on_collision_def unwrap_in_def matchp_def id_in_def check_def ret_def
        taken_insert_def taken_or_insert_def)
qed

lemma probe_all_taken:
  "probe lo rs base ex (\<lambda>_. ret (Some False)) k s = (Err ex, s)"
proof (induction "unat rs - k" arbitrary: k)
  case 0
  then show ?case by (simp add: probe.simps [of lo rs base ex _ k s])
next
  case (Suc n)
  then have "n = unat rs - Suc k" by simp
  from Suc.hyps(1) [OF this] show ?case
    by (simp add: probe.simps [of lo rs base ex _ k s] ret_def)
qed

lemma range_exhausted_passes: "fst (resolve_id_returns_range_exhausted hash s) = Ok ()"
  by (simp add: resolve_id_returns_range_exhausted_def matchp_def resolve_id_def id_to_uid_def probe_all_taken) (simp add: ret_def)

section \<open>Quoting in filters\<close>

abbreviation quote_char :: char where "quote_char \<equiv> CHR 0x22"

abbreviation backslash_char :: char where "backslash_char \<equiv> CHR 0x5C"

definition escape_filter_value_handles_plain_string :: "('s, unit, unit) prog" where
  "escape_filter_value_handles_plain_string =
     check (escape_filter_value ''alice'' = ''alice'') (ret ())"

definition escape_filter_value_escapes_quotes :: "('s, unit, unit) prog" where
  "escape_filter_value_escapes_quotes =
     check (escape_filter_value (''al'' @ [quote_char] @ ''ice'') = ''al'' @ [backslash_char, quote_char] @ ''ice'') (ret ())"

definition escape_filter_value_escapes_backslashes :: "('s, unit, unit) prog" where
  "escape_filter_value_escapes_backslashes =
     check (escape_filter_value (''al'' @ [backslash_char] @ ''ice'') =
       ''al'' @ [backslash_char, backslash_char] @ ''ice'') (ret ())"

definition escape_filter_value_escapes_both :: "('s, unit, unit) prog" where
  "escape_filter_value_escapes_both =
     check (escape_filter_value (''a'' @ [backslash_char, quote_char] @ ''b'') =
       ''a'' @ [backslash_char, backslash_char, backslash_char, quote_char] @ ''b'') (ret ())"

lemma escape_tests_pass:
  "fst (escape_filter_value_handles_plain_string s) = Ok ()"
  "fst (escape_filter_value_escapes_quotes s) = Ok ()"
  "fst (escape_filter_value_escapes_backslashes s) = Ok ()"
  "fst (escape_filter_value_escapes_both s) = Ok ()"
  by (simp_all add: escape_filter_value_handles_plain_string_def escape_filter_value_escapes_quotes_def
      escape_filter_value_escapes_backslashes_def escape_filter_value_escapes_both_def check_def ret_def)

section \<open>Writing into the caller's buffer\<close>

text \<open>
  The state is the memory. \<open>let mut buf = [0i8; n]\<close> puts \<open>n\<close> zero bytes at an address, and
  \<open>CStr::from_ptr(p)\<close> equals a literal exactly when the literal is the C string at \<open>p\<close>.
\<close>

definition zeroed :: "nat \<Rightarrow> nat \<Rightarrow> memory \<Rightarrow> memory" where
  "zeroed buf n m = store_bytes buf (replicate n NUL) m"

definition write_str_writes_nul_terminated_string_and_advances_offset :: "nat \<Rightarrow> (memory, unit, unit) prog" where
  "write_str_writes_nul_terminated_string_and_advances_offset buf m =
     some_in (write_str buf 64 0 ''hello'' (zeroed buf 64 m)) (\<lambda>(ptr, offset, m).
       check (c_string_at m ptr ''hello'') (check (offset = 6) (ret ()))) m"

definition write_str_returns_none_when_buffer_too_small :: "nat \<Rightarrow> (memory, unit, unit) prog" where
  "write_str_returns_none_when_buffer_too_small buf m =
     check (write_str buf 3 0 ''hello'' (zeroed buf 3 m) = None) (ret ()) m"

definition write_str_consecutive_writes_pack_correctly :: "nat \<Rightarrow> (memory, unit, unit) prog" where
  "write_str_consecutive_writes_pack_correctly buf m =
     some_in (write_str buf 64 0 ''alice'' (zeroed buf 64 m)) (\<lambda>(p1, offset, m). check (offset = 6) (
     some_in (write_str buf 64 offset ''x'' m) (\<lambda>(p2, offset, m). check (offset = 8) (
       check (c_string_at m p1 ''alice'') (check (c_string_at m p2 ''x'') (ret ())))))) m"

definition write_str_exact_fit :: "nat \<Rightarrow> (memory, unit, unit) prog" where
  "write_str_exact_fit buf m =
     some_in (write_str buf 3 0 ''ab'' (zeroed buf 3 m)) (\<lambda>(ptr, offset, m). check (offset = 3) (
       check (write_str buf 3 offset ''c'' m = None) (ret ()))) m"

lemma all_below_Suc: "(\<forall>i < Suc n. P i) \<longleftrightarrow> (\<forall>i < n. P i) \<and> P n"
  by (auto simp: less_Suc_eq)

lemma nul_code: "NUL = CHR 0x00"
  by code_simp

lemma write_str_tests_pass:
  "fst (write_str_writes_nul_terminated_string_and_advances_offset buf m) = Ok ()"
  "fst (write_str_returns_none_when_buffer_too_small buf m) = Ok ()"
  "fst (write_str_consecutive_writes_pack_correctly buf m) = Ok ()"
  "fst (write_str_exact_fit buf m) = Ok ()"
  by (simp_all add: write_str_writes_nul_terminated_string_and_advances_offset_def
      write_str_returns_none_when_buffer_too_small_def write_str_consecutive_writes_pack_correctly_def
      write_str_exact_fit_def some_in_def check_def write_str_def Let_def ret_def c_string_at_def store_bytes_def
      all_below_Suc nul_code)

section \<open>Error texts\<close>

text \<open>A non-negative number in octal, and \<open>{:04o}\<close>.\<close>

fun octal :: "nat \<Rightarrow> string" where
  "octal n = (if n < 8 then [char_of (48 + n)] else octal (n div 8) @ [char_of (48 + n mod 8)])"

declare octal.simps [simp del]

definition octal4 :: "u32 \<Rightarrow> string" where
  "octal4 n = (let digits = octal (unat n) in replicate (4 - length digits) CHR ''0'' @ digits)"

fun decimal :: "nat \<Rightarrow> string" where
  "decimal n = (if n < 10 then [char_of (48 + n)] else decimal (n div 10) @ [char_of (48 + n mod 10)])"

declare decimal.simps [simp del]

text \<open>The details that \<open>check_secret_file_permissions\<close> and the cache's check give; \<open>io\<close> prints an \<open>io::Error\<close>.\<close>

fun perm_text :: "(io_error \<Rightarrow> string) \<Rightarrow> string \<Rightarrow> perm_detail \<Rightarrow> string" where
  "perm_text io path (CannotStat e) = ''cannot stat file: '' @ io e"
| "perm_text io path NotRegularFile = ''not a regular file''"
| "perm_text io path (NotOwnedByRoot uid) =
     ''owned by uid '' @ decimal (unat uid) @ '' but must be owned by root (uid 0)''"
| "perm_text io path (TooOpen mode) =
     ''permissions '' @ octal4 mode @ '' are too open; must not be accessible by group or others. Run: chmod 600 '' @ path"
| "perm_text io path (NotCorrected mode e) =
     ''permissions '' @ octal4 mode @ '' are too open and could not be corrected: '' @ io e @ ''. Run: chmod 600 '' @ path"

text \<open>The last parameter prints the TOML parser's error.\<close>

fun config_error_text :: "(io_error \<Rightarrow> string) \<Rightarrow> string \<Rightarrow> config_error \<Rightarrow> string" where
  "config_error_text io toml (ConfigRead path source) = ''failed to read config file '' @ path @ '': '' @ io source"
| "config_error_text io toml ConfigParse = ''failed to parse config: '' @ toml"
| "config_error_text io toml (ConfigInsecurePermissions path detail) =
     ''insecure permissions on '' @ path @ '': '' @ perm_text io path detail"

definition em_dash :: string where
  "em_dash = map char_of [0xE2, 0x80, 0x94 :: nat]"

fun oidc_error_text :: "(http_error \<Rightarrow> string) \<Rightarrow> (io_error \<Rightarrow> string) \<Rightarrow> string \<Rightarrow> oidc_error \<Rightarrow> string" where
  "oidc_error_text http io jwt (OidcHttp e) = ''HTTP request failed: '' @ http e"
| "oidc_error_text http io jwt (OidcIo e) = ''I/O error: '' @ io e"
| "oidc_error_text http io jwt (MissingField f) = ''discovery document missing required field: '' @ f"
| "oidc_error_text http io jwt (IssuerMismatch expected actual) =
     ''discovery issuer mismatch: expected '' @ expected @ '', got '' @ actual"
| "oidc_error_text http io jwt (InsecureEndpoint e) = ''discovery endpoint must use https: '' @ e"
| "oidc_error_text http io jwt AuthorizationPending =
     ''authorization pending '' @ em_dash @ '' user has not yet completed browser auth''"
| "oidc_error_text http io jwt SlowDown = ''polling too fast '' @ em_dash @ '' increase interval''"
| "oidc_error_text http io jwt ExpiredToken = ''device code has expired''"
| "oidc_error_text http io jwt (TokenError e) = ''token request denied: '' @ e"
| "oidc_error_text http io jwt MissingIdToken = ''ID token missing from response''"
| "oidc_error_text http io jwt (SubjectMismatch token_sub expected) =
     ''ID token subject '' @ [quote_char] @ token_sub @ [quote_char] @ '' does not match user '' @
     [quote_char] @ expected @ [quote_char]"
| "oidc_error_text http io jwt (IdTokenDecode e) = ''failed to decode ID token: '' @ e"
| "oidc_error_text http io jwt JwtValidation = ''JWT validation failed: '' @ jwt"

text \<open>\<open>s.contains(t)\<close>.\<close>

abbreviation contains :: "string \<Rightarrow> string \<Rightarrow> bool" where
  "contains s t \<equiv> sublist t s"

lemma sublist_within: "sublist t s \<Longrightarrow> sublist t (a @ s)" "sublist t s \<Longrightarrow> sublist t (s @ b)"
  by (meson sublist_append)+

lemma sublist_at: "sublist t t" "sublist t (t @ b)" "sublist t (a @ t)" "sublist t (a @ t @ b)"
  by simp_all

section \<open>The OIDC client\<close>

text \<open>\<open>s.splitn(n, c)\<close>.\<close>

fun splitn :: "nat \<Rightarrow> char \<Rightarrow> string \<Rightarrow> string list" where
  "splitn 0 c s = []"
| "splitn (Suc 0) c s = [s]"
| "splitn (Suc (Suc n)) c s =
     (case dropWhile (\<lambda>x. x \<noteq> c) s of
        [] \<Rightarrow> [s]
      | _ # rest \<Rightarrow> takeWhile (\<lambda>x. x \<noteq> c) s # splitn (Suc n) c rest)"

definition decode_subject :: "doc \<Rightarrow> string option option" where
  "decode_subject d =
     (case struct_fields [''sub''] d of
        Some (arr, [s]) \<Rightarrow> bare_option as_string arr s
      | _ \<Rightarrow> None)"

text \<open>\<open>b64\<close> decodes base64 or gives its error's text; \<open>json\<close> parses, \<open>json_error\<close> is its error's text.\<close>

definition extract_id_token_subject ::
  "(string \<Rightarrow> (string, string) outcome) \<Rightarrow> (string \<Rightarrow> doc option) \<Rightarrow> (string \<Rightarrow> string) \<Rightarrow> string \<Rightarrow>
   (string, oidc_error) outcome" where
  "extract_id_token_subject b64 json json_error id_token =
     (let parts = splitn 3 CHR ''.'' id_token in
      if length parts < 2 then Err (IdTokenDecode ''not a valid JWT'')
      else case b64 (parts ! 1) of
             Err e \<Rightarrow> Err (IdTokenDecode (''base64: '' @ e))
           | Panic \<Rightarrow> Panic
           | Ok payload_bytes \<Rightarrow>
               (case Option.bind (json payload_bytes) decode_subject of
                  None \<Rightarrow> Err (IdTokenDecode (''json: '' @ json_error payload_bytes))
                | Some None \<Rightarrow> Err (IdTokenDecode ''missing sub claim'')
                | Some (Some sub) \<Rightarrow> Ok sub))"

definition quoted :: "string \<Rightarrow> string" where
  "quoted s = [quote_char] @ s @ [quote_char]"

definition make_jwt :: "(string \<Rightarrow> string) \<Rightarrow> string \<Rightarrow> string" where
  "make_jwt encode claims_json =
     (let header = encode (''{'' @ quoted ''alg'' @ '':'' @ quoted ''RS256'' @ ''}'');
          payload = encode claims_json
      in header @ ''.'' @ payload @ ''.fake-signature'')"

definition alice_claims :: string where
  "alice_claims = ''{'' @ quoted ''sub'' @ '':'' @ quoted ''user-uuid-alice-001'' @ '','' @
     quoted ''iss'' @ '':'' @ quoted ''https://idp.example.com'' @ ''}''"

definition no_sub_claims :: string where
  "no_sub_claims = ''{'' @ quoted ''iss'' @ '':'' @ quoted ''https://idp.example.com'' @ ''}''"

definition extract_subject_from_valid_jwt ::
  "(string \<Rightarrow> string) \<Rightarrow> (string \<Rightarrow> (string, string) outcome) \<Rightarrow> (string \<Rightarrow> doc option) \<Rightarrow> (string \<Rightarrow> string) \<Rightarrow>
   ('s, unit, unit) prog" where
  "extract_subject_from_valid_jwt encode b64 json json_error =
     (case extract_id_token_subject b64 json json_error (make_jwt encode alice_claims) of
        Ok sub \<Rightarrow> check (sub = ''user-uuid-alice-001'') (ret ())
      | _ \<Rightarrow> panicp)"

text \<open>\<open>let err = r.unwrap_err(); assert!(err.to_string().contains(t))\<close>.\<close>

definition fails_saying :: "(oidc_error \<Rightarrow> string) \<Rightarrow> ('a, oidc_error) outcome \<Rightarrow> string \<Rightarrow> ('s, unit, unit) prog" where
  "fails_saying to_string r t = (case r of Err err \<Rightarrow> check (contains (to_string err) t) (ret ()) | _ \<Rightarrow> panicp)"

definition extract_subject_missing_sub_claim where
  "extract_subject_missing_sub_claim to_string encode b64 json json_error =
     fails_saying to_string (extract_id_token_subject b64 json json_error (make_jwt encode no_sub_claims)) ''missing sub claim''"

definition extract_subject_invalid_jwt_format where
  "extract_subject_invalid_jwt_format to_string b64 json json_error =
     fails_saying to_string (extract_id_token_subject b64 json json_error ''not-a-jwt'') ''not a valid JWT''"

definition issuer_mismatch_error_message :: "(oidc_error \<Rightarrow> string) \<Rightarrow> ('s, unit, unit) prog" where
  "issuer_mismatch_error_message to_string =
     (let err = IssuerMismatch ''https://good.example.com'' ''https://evil.example.com'' in
      check (contains (to_string err) ''https://good.example.com'') (
      check (contains (to_string err) ''https://evil.example.com'') (ret ())))"

definition insecure_endpoint_error_message :: "(oidc_error \<Rightarrow> string) \<Rightarrow> ('s, unit, unit) prog" where
  "insecure_endpoint_error_message to_string =
     (let err = InsecureEndpoint ''token_endpoint: http://evil.com/token'' in
      check (contains (to_string err) ''https'') (
      check (contains (to_string err) ''http://evil.com/token'') (ret ())))"

text \<open>The payload of a token made by the helper is what the extraction decodes.\<close>

lemma splitn_jwt:
  assumes "CHR ''.'' \<notin> set a" "CHR ''.'' \<notin> set b"
  shows "splitn 3 CHR ''.'' (a @ CHR ''.'' # b @ CHR ''.'' # c) = [a, b, c]"
proof -
  have cut: "dropWhile (\<lambda>x. x \<noteq> CHR ''.'') (x @ CHR ''.'' # y) = CHR ''.'' # y"
    "takeWhile (\<lambda>x. x \<noteq> CHR ''.'') (x @ CHR ''.'' # y) = x" if "CHR ''.'' \<notin> set x" for x y
    using that by (induction x) auto
  show ?thesis by (simp add: numeral_3_eq_3 cut [OF assms(1)] cut [OF assms(2)])
qed

definition base64_ok :: "(string \<Rightarrow> string) \<Rightarrow> (string \<Rightarrow> (string, string) outcome) \<Rightarrow> bool" where
  "base64_ok encode b64 \<longleftrightarrow> (\<forall>s. b64 (encode s) = Ok s \<and> CHR ''.'' \<notin> set (encode s))"

lemma extract_of_made:
  assumes "base64_ok encode b64"
  shows "extract_id_token_subject b64 json json_error (make_jwt encode claims) =
    (case Option.bind (json claims) decode_subject of
       None \<Rightarrow> Err (IdTokenDecode (''json: '' @ json_error claims))
     | Some None \<Rightarrow> Err (IdTokenDecode ''missing sub claim'')
     | Some (Some sub) \<Rightarrow> Ok sub)"
  using assms by (simp add: extract_id_token_subject_def make_jwt_def Let_def splitn_jwt base64_ok_def)

lemma valid_jwt_passes:
  assumes "base64_ok encode b64"
    and "json alice_claims = Some (DObj [(''sub'', DStr ''user-uuid-alice-001''), (''iss'', DStr ''https://idp.example.com'')])"
  shows "fst (extract_subject_from_valid_jwt encode b64 json json_error s) = Ok ()"
  by (simp add: extract_subject_from_valid_jwt_def extract_of_made [OF assms(1)] assms(2) decode_subject_def
      decode_simps check_def ret_def)

lemma missing_sub_passes:
  assumes "base64_ok encode b64" "json no_sub_claims = Some (DObj [(''iss'', DStr ''https://idp.example.com'')])"
  shows "fst (extract_subject_missing_sub_claim (oidc_error_text http io jwt) encode b64 json json_error s) = Ok ()"
  by (simp add: extract_subject_missing_sub_claim_def fails_saying_def extract_of_made [OF assms(1)] assms(2)
      decode_subject_def decode_simps check_def ret_def sublist_within del: append_Cons)

lemma invalid_format_passes:
  "fst (extract_subject_invalid_jwt_format (oidc_error_text http io jwt) b64 json json_error s) = Ok ()"
  by (simp add: extract_subject_invalid_jwt_format_def fails_saying_def extract_id_token_subject_def
      numeral_3_eq_3 check_def ret_def sublist_within del: append_Cons)

lemma contained:
  "contains ''discovery issuer mismatch: expected https://good.example.com, got https://evil.example.com'' ''https://good.example.com''"
  "contains ''discovery issuer mismatch: expected https://good.example.com, got https://evil.example.com'' ''https://evil.example.com''"
  "contains ''discovery endpoint must use https: token_endpoint: http://evil.com/token'' ''https''"
  "contains ''discovery endpoint must use https: token_endpoint: http://evil.com/token'' ''http://evil.com/token''"
  by code_simp+

lemma oidc_texts_pass:
  "fst (issuer_mismatch_error_message (oidc_error_text http io jwt) s) = Ok ()"
  "fst (insecure_endpoint_error_message (oidc_error_text http io jwt) s) = Ok ()"
  by (simp_all add: issuer_mismatch_error_message_def insecure_endpoint_error_message_def check_def ret_def contained)

section \<open>Loading the configuration\<close>

text \<open>
  The crate \<open>tempfile\<close> is the parameter \<open>new_temp\<close>. A test makes two temporary files, at two
  paths that did not exist; each is an empty regular file of the process with mode 0600, and the
  mode of the first can be set.
\<close>

definition created :: "string \<Rightarrow> fsys \<Rightarrow> fsys" where
  "created path fs = fs\<lparr>
     fs_stat := (fs_stat fs)(path := Ok \<lparr>fm_is_file = True, fm_mode = 33152, fm_uid = fs_euid fs\<rparr>),
     fs_text := (fs_text fs)(path := Ok [])\<rparr>"

definition temp_files :: "(fsys, string, io_error) prog \<Rightarrow> string \<Rightarrow> string \<Rightarrow> bool" where
  "temp_files new_temp p q \<longleftrightarrow> p \<noteq> q \<and>
     (\<forall>fs. fs_stat fs p = Err (IoError 2) \<longrightarrow> new_temp fs = (Ok p, created p fs)) \<and>
     (\<forall>fs m. fs_stat fs p = Ok m \<longrightarrow> new_temp fs = (Ok q, created q fs))"

text \<open>\<open>File::write_all\<close> and \<open>flush\<close> on the file just made.\<close>

definition write_all :: "string \<Rightarrow> string \<Rightarrow> (fsys, unit, io_error) prog" where
  "write_all path bytes fs =
     (case fs_text fs path of
        Ok text \<Rightarrow> (Ok (), fs\<lparr>fs_text := (fs_text fs)(path := Ok (text @ bytes))\<rparr>)
      | Err e \<Rightarrow> (Err e, fs)
      | Panic \<Rightarrow> (Panic, fs))"

definition make_token_file :: "(fsys, string, io_error) prog \<Rightarrow> string \<Rightarrow> (fsys, string, unit) prog" where
  "make_token_file new_temp token =
     unwrap_in new_temp (\<lambda>f.
     unwrap_in (write_all f token) (\<lambda>_.
     unwrap_in (set_permissions f mode_600) (\<lambda>_. ret f)))"

definition line :: "string \<Rightarrow> string" where
  "line s = s @ [CHR 0x0A]"

definition toml_content :: "string \<Rightarrow> string \<Rightarrow> string \<Rightarrow> string \<Rightarrow> string" where
  "toml_content base_url issuer_url client_id token_path =
     line [] @ line ''[scim]'' @ line (''base_url = '' @ quoted base_url) @
     line (''bearer_token_file = '' @ quoted token_path) @ line [] @
     line ''[oidc]'' @ line (''issuer_url = '' @ quoted issuer_url) @ line (''client_id = '' @ quoted client_id)"

definition toml_document :: "string \<Rightarrow> string \<Rightarrow> string \<Rightarrow> string \<Rightarrow> doc" where
  "toml_document base_url issuer_url client_id token_path = DObj
     [(''scim'', DObj [(''base_url'', DStr base_url), (''bearer_token_file'', DStr token_path)]),
      (''oidc'', DObj [(''issuer_url'', DStr issuer_url), (''client_id'', DStr client_id)])]"

text \<open>A file with the given text, at a path \<open>NamedTempFile::new\<close> picks.\<close>

definition make_config_file :: "(fsys, string, io_error) prog \<Rightarrow> string \<Rightarrow> (fsys, string, unit) prog" where
  "make_config_file new_temp toml =
     unwrap_in new_temp (\<lambda>cfg_file. unwrap_in (write_all cfg_file toml) (\<lambda>_. ret cfg_file))"

definition load_test_config ::
  "(fsys, string, io_error) prog \<Rightarrow> (string \<Rightarrow> doc option) \<Rightarrow> string \<Rightarrow> (fsys, config, unit) prog" where
  "load_test_config new_temp parse_toml token_path =
     unwrap_in (make_config_file new_temp (toml_content ''https://example.okta.com/scim/v2''
       ''https://example.okta.com'' ''my-client'' token_path)) (\<lambda>cfg_file.
     unwrap_in (load_from parse_toml cfg_file) ret)"

type_synonym config_test = "(fsys, unit, unit) prog"

definition parse_minimal_config ::
  "(fsys, string, io_error) prog \<Rightarrow> (string \<Rightarrow> doc option) \<Rightarrow> config_test" where
  "parse_minimal_config new_temp parse_toml =
     unwrap_in (make_token_file new_temp ''test-token'') (\<lambda>token_file.
     unwrap_in (load_test_config new_temp parse_toml token_file) (\<lambda>config.
     check (cs_base_url (cfg_scim config) = ''https://example.okta.com/scim/v2'') (
     check (cs_bearer_token (cfg_scim config) = ''test-token'') (
     check (uid_range_min (cfg_mapping config) = 200000) (
     check (ud_shell (cfg_user_defaults config) = ''/bin/bash'') (ret ()))))))"

definition token_file_whitespace_trimmed ::
  "(fsys, string, io_error) prog \<Rightarrow> (string \<Rightarrow> doc option) \<Rightarrow> config_test" where
  "token_file_whitespace_trimmed new_temp parse_toml =
     unwrap_in (make_token_file new_temp (''  my-token'' @ [CHR 0x0A])) (\<lambda>token_file.
     unwrap_in (load_test_config new_temp parse_toml token_file) (\<lambda>config.
     check (cs_bearer_token (cfg_scim config) = ''my-token'') (ret ())))"

definition rejects_world_readable_token_file ::
  "(config_error \<Rightarrow> string) \<Rightarrow> (fsys, string, io_error) prog \<Rightarrow> (string \<Rightarrow> doc option) \<Rightarrow> config_test" where
  "rejects_world_readable_token_file to_string new_temp parse_toml =
     unwrap_in (make_token_file new_temp ''secret'') (\<lambda>token_file.
     unwrap_in (set_permissions token_file 420) (\<lambda>_.
     unwrap_in (make_config_file new_temp (toml_content ''https://example.com/scim/v2''
       ''https://example.com'' ''test'' token_file)) (\<lambda>cfg_file.
     matchp (load_from parse_toml cfg_file) (\<lambda>_. panicp) (\<lambda>err.
       let msg = to_string err in
       check (contains msg ''too open'') (check (contains msg ''0644'') (ret ()))))))"

text \<open>Trimming text of one-byte characters.\<close>

lemma strip_prefixes_drop:
  assumes "filter (\<lambda>w. w \<noteq> [] \<and> hd w = c) ws = [[c]]"
  shows "strip_prefixes ws (c # s) = strip_prefixes ws s"
proof -
  have "find (\<lambda>w. w \<noteq> [] \<and> starts_with w (c # s)) ws = Some [c]"
    using assms
  proof (induction ws)
    case (Cons w ws)
    then show ?case by (cases w) (auto simp: starts_with_def split: if_splits)
  qed simp
  then show ?thesis by (simp add: strip_prefixes.simps [of ws "c # s"])
qed

lemma strip_prefixes_stop:
  assumes "filter (\<lambda>w. w \<noteq> [] \<and> hd w = c) ws = []"
  shows "strip_prefixes ws (c # s) = c # s"
proof -
  have "find (\<lambda>w. w \<noteq> [] \<and> starts_with w (c # s)) ws = None"
    using assms by (auto simp: find_None_iff filter_empty_conv starts_with_def neq_Nil_conv)
  then show ?thesis by (simp add: strip_prefixes.simps [of ws "c # s"])
qed

lemma white_space_bytes: "white_space =
  [[CHR 0x09], [CHR 0x0A], [CHR 0x0B], [CHR 0x0C], [CHR 0x0D], [CHR '' ''], [CHR 0xC2, CHR 0x85], [CHR 0xC2, CHR 0xA0],
   [CHR 0xE1, CHR 0x9A, CHR 0x80]] @ map (\<lambda>c. [CHR 0xE2, CHR 0x80, c])
   [CHR 0x80, CHR 0x81, CHR 0x82, CHR 0x83, CHR 0x84, CHR 0x85, CHR 0x86, CHR 0x87, CHR 0x88, CHR 0x89, CHR 0x8A,
    CHR 0xA8, CHR 0xA9, CHR 0xAF] @ [[CHR 0xE2, CHR 0x81, CHR 0x9F], [CHR 0xE3, CHR 0x80, CHR 0x80]]" 
  by (simp add: white_space_def upt_rec char_of_def bit_Suc_0_iff)

lemma white_space_starts:
  "filter (\<lambda>w. w \<noteq> [] \<and> hd w = CHR '' '') white_space = [[CHR '' '']]"
  "filter (\<lambda>w. w \<noteq> [] \<and> hd w = CHR ''m'') white_space = []"
  "filter (\<lambda>w. w \<noteq> [] \<and> hd w = CHR ''t'') white_space = []"
  "filter (\<lambda>w. w \<noteq> [] \<and> hd w = CHR 0x0A) (map rev white_space) = [[CHR 0x0A]]"
  "filter (\<lambda>w. w \<noteq> [] \<and> hd w = CHR ''n'') (map rev white_space) = []"
  by (simp_all add: white_space_bytes)

lemma trims: "trim ''test-token'' = ''test-token''" "trim (''  my-token'' @ [CHR 0x0A]) = ''my-token''"
  by (simp_all add: trim_def strip_prefixes_drop strip_prefixes_stop white_space_starts del: filter_map)
  
lemma decode_toml_document:
  "decode_config (toml_document base_url issuer_url client_id token_path) = Some
     \<lparr>cfg_scim = \<lparr>cs_base_url = base_url, cs_bearer_token_file = token_path, cs_bearer_token = []\<rparr>,
      cfg_oidc = \<lparr>co_issuer_url = issuer_url, co_client_id = client_id, co_client_secret = None, co_allow_insecure = False\<rparr>,
      cfg_mapping = default_mapping, cfg_user_defaults = default_user_defaults,
      cfg_cache = default_cache, cfg_security = default_security\<rparr>"
  by (simp add: toml_document_def decode_config_def decode_scim_config_def decode_oidc_config_def decode_simps)

abbreviation with_file :: "string \<Rightarrow> u32 \<Rightarrow> string \<Rightarrow> fsys \<Rightarrow> fsys" where
  "with_file path mode text fs \<equiv> fs\<lparr>
     fs_stat := (fs_stat fs)(path := Ok \<lparr>fm_is_file = True, fm_mode = mode, fm_uid = fs_euid fs\<rparr>),
     fs_text := (fs_text fs)(path := Ok text)\<rparr>"

lemma mode_facts: "chmod_mode mode_600 33152 = 33152" "chmod_mode 420 33152 = 33188" "(33152 :: u32) AND mode_077 = 0"
  "(33188 :: u32) AND mode_077 \<noteq> 0" "(33188 :: u32) AND mode_777 = 420"
  by (simp_all add: chmod_mode_def mode_600_def mode_077_def mode_777_def)

lemma make_token_run:
  assumes "temp_files new_temp p q" "fs_stat fs p = Err (IoError 2)" "fs_chmod_error fs p = None"
  shows "make_token_file new_temp token fs = (Ok p, with_file p 33152 token fs)"
  using assms by (simp add: make_token_file_def temp_files_def unwrap_in_def matchp_def created_def write_all_def
      set_permissions_def mode_facts ret_def)

lemma make_config_run:
  assumes "temp_files new_temp p q" "fs_stat fs p = Ok m"
  shows "make_config_file new_temp toml fs = (Ok q, with_file q 33152 toml fs)"
  using assms by (simp add: make_config_file_def temp_files_def unwrap_in_def matchp_def created_def write_all_def ret_def)

definition reads_test_toml :: "(string \<Rightarrow> doc option) \<Rightarrow> string \<Rightarrow> bool" where
  "reads_test_toml parse_toml path \<longleftrightarrow>
     (\<forall>(b, i, c) \<in> {(''https://example.okta.com/scim/v2'', ''https://example.okta.com'', ''my-client''),
        (''https://example.com/scim/v2'', ''https://example.com'', ''test'')}.
      parse_toml (toml_content b i c path) = Some (toml_document b i c path))"

lemma load_test_run:
  assumes "temp_files new_temp p q" "reads_test_toml parse_toml p"
  shows "fst (load_test_config new_temp parse_toml p (with_file p 33152 token fs)) = Ok
     \<lparr>cfg_scim = \<lparr>cs_base_url = ''https://example.okta.com/scim/v2'', cs_bearer_token_file = p, cs_bearer_token = trim token\<rparr>,
      cfg_oidc = \<lparr>co_issuer_url = ''https://example.okta.com'', co_client_id = ''my-client'', co_client_secret = None,
        co_allow_insecure = False\<rparr>,
      cfg_mapping = default_mapping, cfg_user_defaults = default_user_defaults,
      cfg_cache = default_cache, cfg_security = default_security\<rparr>"
proof -
  let ?toml = "toml_content ''https://example.okta.com/scim/v2'' ''https://example.okta.com'' ''my-client'' p"
  have pq: "p \<noteq> q" using assms(1) by (simp add: temp_files_def)
  have toml: "parse_toml ?toml = Some (toml_document ''https://example.okta.com/scim/v2'' ''https://example.okta.com'' ''my-client'' p)"
    using assms(2) by (simp add: reads_test_toml_def)
  have cfg: "make_config_file new_temp ?toml (with_file p 33152 token fs) = (Ok q, with_file q 33152 ?toml (with_file p 33152 token fs))"
    by (rule make_config_run [OF assms(1)]) simp
  show ?thesis
    unfolding load_test_config_def unwrap_run [where m = "make_config_file new_temp ?toml", OF cfg]
    using pq by (simp add: unwrap_in_def matchp_def load_from_def tryp_def bindp_def read_to_string_def toml decode_toml_document Let_def
        check_secret_file_permissions_def symlink_metadata_def mode_facts ret_def)
qed

lemma unwrap_fst: "fst (m s) = Ok a \<Longrightarrow> unwrap_in m f s = f a (snd (m s))"
  by (cases "m s") (simp add: unwrap_run)

lemma config_tests_pass:
  assumes "temp_files new_temp p q" "reads_test_toml parse_toml p" "fs_stat fs p = Err (IoError 2)" "fs_chmod_error fs p = None"
  shows "fst (parse_minimal_config new_temp parse_toml fs) = Ok ()"
    and "fst (token_file_whitespace_trimmed new_temp parse_toml fs) = Ok ()"
proof -
  note made = make_token_run [OF assms(1,3,4)]
  show "fst (parse_minimal_config new_temp parse_toml fs) = Ok ()"
    unfolding parse_minimal_config_def unwrap_run [where m = "make_token_file new_temp ''test-token''", OF made]
    unfolding unwrap_fst [where m = "load_test_config new_temp parse_toml p", OF load_test_run [OF assms(1,2)]]
    by (simp add: check_def ret_def trims default_mapping_def default_range_min_def default_user_defaults_def default_shell_def)
  show "fst (token_file_whitespace_trimmed new_temp parse_toml fs) = Ok ()"
    unfolding token_file_whitespace_trimmed_def
      unwrap_run [where m = "make_token_file new_temp (''  my-token'' @ [CHR 0x0A])", OF made]
    unfolding unwrap_fst [where m = "load_test_config new_temp parse_toml p", OF load_test_run [OF assms(1,2)]] trims
    by (simp add: check_def ret_def)
qed

lemma octal_644: "octal4 420 = ''0644''"
  by code_simp

lemma world_readable_passes:
  assumes "temp_files new_temp p q" "reads_test_toml parse_toml p" "fs_stat fs p = Err (IoError 2)" "fs_chmod_error fs p = None"
  shows "fst (rejects_world_readable_token_file (config_error_text io toml) new_temp parse_toml fs) = Ok ()"
proof -
  let ?toml = "toml_content ''https://example.com/scim/v2'' ''https://example.com'' ''test'' p"
  let ?fs = "with_file p 33188 ''secret'' fs"
  have pq: "p \<noteq> q" using assms(1) by (simp add: temp_files_def)
  have parsed: "parse_toml ?toml = Some (toml_document ''https://example.com/scim/v2'' ''https://example.com'' ''test'' p)"
    using assms(2) by (simp add: reads_test_toml_def)
  have perm: "set_permissions p 420 (with_file p 33152 ''secret'' fs) = (Ok (), ?fs)"
    using assms(4) by (simp add: set_permissions_def mode_facts)
  have cfg: "make_config_file new_temp ?toml ?fs = (Ok q, with_file q 33152 ?toml ?fs)"
    by (rule make_config_run [OF assms(1)]) simp
  have load: "load_from parse_toml q (with_file q 33152 ?toml ?fs) =
    (Err (ConfigInsecurePermissions p (TooOpen 420)), with_file q 33152 ?toml ?fs)"
    using pq by (simp add: load_from_def tryp_def matchp_def bindp_def read_to_string_def parsed decode_toml_document Let_def
        check_secret_file_permissions_def symlink_metadata_def mode_facts fail_def)
  let ?msg = "config_error_text io toml (ConfigInsecurePermissions p (TooOpen 420))"
  have "contains ('' are too open; must not be accessible by group or others. Run: chmod 600 '' @ p) ''too open''"
    by (rule sublist_within(2)) code_simp
  then have open_said: "contains ?msg ''too open''"
    unfolding config_error_text.simps perm_text.simps
    by (rule sublist_within(1) [OF sublist_within(1) [OF sublist_within(1) [OF sublist_within(1) [OF sublist_within(1)]]]])
  have mode_said: "contains ?msg ''0644''"
    unfolding config_error_text.simps perm_text.simps octal_644
    by (rule sublist_within(1), rule sublist_within(1), rule sublist_within(1), rule sublist_within(1), rule sublist_at(2))
  show ?thesis
    unfolding rejects_world_readable_token_file_def
      unwrap_run [where m = "make_token_file new_temp ''secret''", OF make_token_run [OF assms(1,3,4)]]
      unwrap_run [where m = "set_permissions p 420", OF perm] unwrap_run [where m = "make_config_file new_temp ?toml", OF cfg]
    unfolding matchp_def load
    by (simp add: Let_def check_def ret_def open_said mode_said del: config_error_text.simps)
qed

end
