(* ===== verification/Spec2Isabelle.thy ===== *)
theory Spec2Isabelle
  imports Thread_Calls Mock_Idp Pam_Conv_Laws Offline Race Logging Group_Directory Unit_Tests
begin

text \<open>
  The identity modules of sssd-oidc: an NSS module that shows the users and groups of a SCIM
  directory to glibc, and a PAM module that signs them in at an OIDC provider. Both are shared
  libraries loaded into arbitrary processes, on top of one crate.

  The parts and how they interact. \<open>src/mapping.rs\<close> hashes an external identifier into a
  configured range and probes it linearly; \<open>src/cache.rs\<close> answers the probe from an SQLite file that
  all processes share, and stores users, groups and members there; \<open>src/scim.rs\<close> asks the directory;
  \<open>src/service.rs\<close> joins these: it asks the directory first, maps what it says, records it in the
  cache, and falls back to the cache. \<open>src/config.rs\<close> loads the configuration and the bearer token.
  \<open>crates/nss_oidc\<close> keeps one service per process and copies answers into buffers of the caller;
  \<open>crates/pam_oidc\<close> keeps a service and an OIDC client (\<open>src/oidc.rs\<close>) and runs the device flow.

  How the theories correspond to the code.

  \<^item> \<open>Prelude\<close>: the three ends of a Rust call (\<open>Ok\<close>, \<open>Err\<close>, panic), programs that thread a state,
    \<open>?\<close> as \<open>bindp\<close>/\<open>tryp\<close>, \<open>match\<close> on a result as \<open>matchp\<close>; the collections \<open>prog_inv\<close> (what a run
    must have done), \<open>preserved\<close> (predicates kept) and \<open>panic_free\<close>.
  \<^item> \<open>Model\<close> (\<open>model.rs\<close>), \<open>Id_Mapping\<close> (\<open>mapping.rs\<close>). The locales \<open>slot_table\<close> and \<open>id_table\<close> are
    the interface between the probe and the tables it asks; the cache interprets them for both tables.
  \<^item> \<open>Sql_Store\<close>, \<open>Os_Files\<close>, \<open>Cache\<close>: the three tables as lists of rows with the constraints of the
    schema, one function per SQL statement, file permissions, and every method of \<open>Cache\<close>. A statement
    may fail or find rows in any order: the parameter \<open>engine\<close> decides. \<open>Cache_Laws\<close> has the facts,
    \<open>Cache_Spec\<close> the abstract directory (a map from external identifiers to rows) and the laws of
    resolution, \<open>Cache_Ops\<close> the operations as a machine that simulates that directory: every operation has
    exactly the effect and the answer the directory prescribes. \<open>Cache_Time\<close> has the life of an entry: it
    stays through operations that are not about it until its age reaches the time to live.
    \<open>Group_Directory\<close> is the directory of groups and their members, with the partial work of operations
    that fail half way.
  \<^item> \<open>Serde\<close>, \<open>Http\<close>, \<open>Scim\<close>: documents and derived decoders, the HTTP client as a log of the requests
    of the program, a log of those the agent adds when it follows redirects, and a clock, and every method
    of \<open>ScimClient\<close>. \<open>Scim_Laws\<close>: a name in a filter is a JSON string, the token stays with the
    directory, listings are complete and bounded.
  \<^item> \<open>Config\<close> (\<open>config.rs\<close>), \<open>Service\<close> (\<open>service.rs\<close>). \<open>Service_Laws\<close>: every operation as a machine,
    and the locales \<open>import_loop\<close> and \<open>strict_loop\<close> for the four loops that import a listing.
    \<open>Service_Spec\<close>: lookups, account status, groups of a user.
  \<^item> \<open>Answers\<close>, \<open>Id_Ranges\<close>: programs that keep a predicate and answer values of a kind, and with them a
    typing of the state: ids of the configured ranges only, in the cache and in every answer.
  \<^item> \<open>Race\<close>: what goes wrong when two processes import over one cache file at the same time.
  \<^item> \<open>Process\<close>, \<open>Utf8\<close>, \<open>Nss_Buffer\<close>, \<open>Nss_Module\<close>: \<open>crates/nss_oidc\<close>: \<open>state.rs\<close>, the filling of
    \<open>struct passwd\<close> and \<open>struct group\<close> byte by byte, and all entry points of \<open>ffi.rs\<close>. \<open>Nss_Spec\<close>:
    what the lookups show; \<open>Nss_Enum\<close>: the locale \<open>enumeration\<close>, interpreted for users and groups.
    \<open>Nss_Calls\<close>: the eleven entry points as the calls of a process, in any order; the locale
    \<open>nss_service\<close> is what they rest on, and its two interpretations give the safety of the module
    and the ranges of the ids it shows.
  \<^item> \<open>Nss_Threads\<close>: the same entry points when several threads of a process call them, cut into pieces at
    the once-cell, the mutexes and between the requests of a listing; run in a row the pieces are the
    entry points. A schedule says which thread goes on; a piece runs while its lock is held.
    \<open>Thread_Progress\<close>: no thread holds one lock while it waits for another, and a call takes at most
    2008 turns, so every call is answered. \<open>Thread_Safety\<close>: the locale \<open>nss_threads\<close> carries the two
    invariants of \<open>Nss_Calls\<close> over to every interleaving. \<open>Thread_Enum\<close>: the locale \<open>shared_enumeration\<close>
    extends \<open>enumeration\<close> to several readers of one cursor. \<open>Thread_Calls\<close>: what the callers can rely
    on. A critical section is one step; within the one of a lookup other threads could only get in
    requests of their listings, and what the directory answers to a request is arbitrary anyway.
    Each thread has its own view of memory, which is faithful as long as threads pass disjoint
    buffers, as glibc does.
  \<^item> \<open>Oidc\<close> (\<open>oidc.rs\<close>), \<open>Pam_Conv\<close> (\<open>pam_conv.rs\<close>, with the heap on which the application allocates its
    answers), \<open>Pam_Module\<close> (\<open>crates/pam_oidc\<close>); \<open>Oidc_Laws\<close> and \<open>Pam_Laws\<close>: discovery, the end
    of the device flow, accepted tokens, who is let in, the verdict on an account. \<open>Pam_Conv_Laws\<close>:
    what the application is shown, and that no answer of it is leaked.
  \<^item> \<open>Offline\<close>: both modules over one cache file, with other operations in between and a clock that
    moves: the last status the directory gave is what counts without it, an account that was permitted is
    shown by NSS in every process until its entry expires, and what goes wrong when two accounts of the
    cache have one name.
  \<^item> \<open>Logging\<close> (\<open>logging.rs\<close>): levels, the lines sent to syslog, the set-up that counts once;
    it is part of the set-up of the NSS module and the first step of the entry points of the PAM module.
  \<^item> \<open>Mock_Idp\<close> (\<open>crates/mock-idp\<close>): the mocks of the identity provider of the container tests, and
    what the clients get from them: the directory, the accounts, and a sign-in of two polls. The
    server under the mocks (wiremock) is a parameter with its documented behaviour as a hypothesis.
  \<^item> \<open>Cache_Tests\<close>, \<open>Unit_Tests\<close>: the unit tests of the crates as programs over the models, which pass for
    every hash, clock, buffer address and parser that behave as documented. The test that two given
    identifiers get different ids passes exactly when their hashes differ in the range.
  \<^item> \<open>Example_Directory\<close>, \<open>Example_Process\<close>, \<open>Example_Sign_In\<close>: a small directory, a process and an identity
    provider for the concrete runs.

  Numbers. Ids are 32-bit words and wrap as in a release build; lifetimes and intervals are 64-bit
  words. Rust strings are the lists of their bytes. Row times are integers.

  Loops. The probe is bounded by the size of the range, a listing by \<open>MAX_PAGINATION_PAGES\<close> (1000)
  pages; both are recursive functions that terminate. The loop of the device flow is a partial
  function in the option monad: that it returns is proved, with a bound on its polls (every round
  sleeps at least five seconds of a lifetime the clock can hold).

  What is a parameter: the murmur3 hash, percent encoding, the JSON and TOML parsers, \<open>ureq\<close> with the
  network under it (the reply a call ends with, and the requests it adds following redirects, of which
  \<open>default_redirects\<close> states the documented defaults), opening an SQLite connection and the failures of its statements, the JWT library, what
  libpam answers, and the state of the file system. Each is an argument of the definitions that use
  it, and unconstrained unless a theorem names a condition.

  Not modelled: the registry of tracing and the calls that emit log events (they change no state a
  caller sees), the end-to-end tests, packaging, the variants for systems other than Linux.
\<close>

end
